(* ===== verification/Prelude.thy ===== *)
theory Prelude
  imports Main "HOL-Library.Word" "HOL-Library.Signed_Division" "HOL-Library.Code_Target_Numeral"
begin

text \<open>
  Shared ground of the development: the outcome of a Go call (a value, an error value or a
  run-time panic), Go's integer types as machine words, the bit and list facts that several
  components use, and the named collections of simplification rules.

  \<^item> \<open>go_out\<close>: equations that evaluate outcomes;
  \<^item> \<open>bit_facts\<close>: bits of the words that the address code builds;
  \<^item> \<open>set_frame\<close>: fields of a record that an operation leaves alone.
\<close>

unbundle bit_operations_syntax

named_theorems go_out \<open>evaluation of outcomes\<close>
named_theorems bit_facts \<open>bits of composed words\<close>
named_theorems set_frame \<open>fields an operation leaves alone\<close>

type_synonym u32 = "32 word"
type_synonym u64 = "64 word"
type_synonym u128 = "128 word"

section \<open>Outcomes of Go calls\<close>

text \<open>
  A Go function that returns \<open>(T, error)\<close> either returns a value, returns an error, or
  panics (index out of range, division by zero); a panic is not an error value and no
  \<^verbatim>\<open>if err != nil\<close> of the source sees it.
\<close>

datatype ('e, 'a) outcome = Ret 'a | Err 'e | Panic

fun bind_out :: "('e, 'a) outcome \<Rightarrow> ('a \<Rightarrow> ('e, 'b) outcome) \<Rightarrow> ('e, 'b) outcome" where
  "bind_out (Ret x) f = f x"
| "bind_out (Err e) f = Err e"
| "bind_out Panic f = Panic"

fun map_err :: "('e \<Rightarrow> 'f) \<Rightarrow> ('e, 'a) outcome \<Rightarrow> ('f, 'a) outcome" where
  "map_err g (Ret x) = Ret x"
| "map_err g (Err e) = Err (g e)"
| "map_err g Panic = Panic"

text \<open>An operation of Go's run time that panics where the model of its value is \<open>None\<close>.\<close>

definition or_panic :: "'a option \<Rightarrow> ('e, 'a) outcome" where
  "or_panic r = (case r of None \<Rightarrow> Panic | Some x \<Rightarrow> Ret x)"

text \<open>Go's \<^verbatim>\<open>%\<close> on \<^verbatim>\<open>int\<close>: truncated remainder, a panic on a zero divisor.\<close>

definition go_rem :: "int \<Rightarrow> int \<Rightarrow> int option" where
  "go_rem a b = (if b = 0 then None else Some (a smod b))"

lemma or_panic_simps [go_out, simp]:
  "or_panic None = Panic" "or_panic (Some x) = Ret x"
  by (simp_all add: or_panic_def)

lemma bind_out_Ret_iff [go_out]:
  "bind_out m f = Ret y \<longleftrightarrow> (\<exists>x. m = Ret x \<and> f x = Ret y)"
  by (cases m) auto

lemma bind_out_Err_iff [go_out]:
  "bind_out m f = Err e \<longleftrightarrow> m = Err e \<or> (\<exists>x. m = Ret x \<and> f x = Err e)"
  by (cases m) auto

lemma bind_out_Panic_iff [go_out]:
  "bind_out m f = Panic \<longleftrightarrow> m = Panic \<or> (\<exists>x. m = Ret x \<and> f x = Panic)"
  by (cases m) auto

lemma map_err_Ret_iff [go_out, simp]: "map_err g m = Ret x \<longleftrightarrow> m = Ret x"
  by (cases m) auto

lemma map_err_Err_iff [go_out]: "map_err g m = Err f \<longleftrightarrow> (\<exists>e. m = Err e \<and> f = g e)"
  by (cases m) auto

lemma map_err_Panic_iff [go_out, simp]: "map_err g m = Panic \<longleftrightarrow> m = Panic"
  by (cases m) auto

lemma go_rem_nonneg:
  assumes "0 \<le> a" and "0 < b"
  shows "go_rem a b = Some (a mod b)"
  using assms by (cases "a = 0") (simp_all add: go_rem_def smod_int_alt_def)

section \<open>Words\<close>

text \<open>
  Go's shifts: a count of at least the width gives zero. The counts of the source are
  conversions of \<^verbatim>\<open>int\<close> values to \<^verbatim>\<open>uint32\<close> or \<^verbatim>\<open>uint\<close>, so a negative difference becomes a
  huge count.
\<close>

definition shl :: "'a::len word \<Rightarrow> nat \<Rightarrow> 'a word" where
  "shl w n = (if n < LENGTH('a) then push_bit n w else 0)"

definition shr :: "'a::len word \<Rightarrow> nat \<Rightarrow> 'a word" where
  "shr w n = (if n < LENGTH('a) then drop_bit n w else 0)"

definition to_u32 :: "int \<Rightarrow> nat" where
  "to_u32 i = nat (i mod 2 ^ 32)"

definition to_u64 :: "int \<Rightarrow> nat" where
  "to_u64 i = nat (i mod 2 ^ 64)"

lemma shl_eq [simp]: "shl w n = push_bit n (w::'a::len word)"
  by (auto simp: shl_def bit_eq_iff bit_simps)

lemma shr_eq [simp]: "shr w n = drop_bit n (w::'a::len word)"
  by (auto simp: shr_def bit_eq_iff bit_simps dest: bit_imp_le_length)

lemma to_u32_small [simp]: "0 \<le> i \<Longrightarrow> i < 2 ^ 32 \<Longrightarrow> to_u32 i = nat i"
  by (simp add: to_u32_def)

lemma to_u64_small [simp]: "0 \<le> i \<Longrightarrow> i < 2 ^ 64 \<Longrightarrow> to_u64 i = nat i"
  by (simp add: to_u64_def)

text \<open>The two 64-bit halves of a 128-bit value, and their concatenation.\<close>

definition hi64 :: "u128 \<Rightarrow> u64" where
  "hi64 w = ucast (drop_bit 64 w)"

definition lo64 :: "u128 \<Rightarrow> u64" where
  "lo64 w = ucast w"

definition join64 :: "u64 \<Rightarrow> u64 \<Rightarrow> u128" where
  "join64 l r = push_bit 64 (ucast l) OR ucast r"

lemma bit_hi64 [bit_facts]: "bit (hi64 w) k \<longleftrightarrow> k < 64 \<and> bit w (64 + k)"
  by (auto simp: hi64_def bit_simps dest: bit_imp_le_length)

lemma bit_lo64 [bit_facts]: "bit (lo64 w) k \<longleftrightarrow> k < 64 \<and> bit w k"
  by (auto simp: lo64_def bit_simps)

lemma bit_join64 [bit_facts]:
  "bit (join64 l r) k \<longleftrightarrow> (if k < 64 then bit r k else k < 128 \<and> bit l (k - 64))"
  by (auto simp: join64_def bit_simps dest: bit_imp_le_length)

lemma join64_halves [simp]: "join64 (hi64 w) (lo64 w) = w"
  by (rule bit_word_eqI) (auto simp: bit_facts)

lemma hi64_join64 [simp]: "hi64 (join64 l r) = l"
  by (rule bit_word_eqI) (simp add: bit_facts)

lemma lo64_join64 [simp]: "lo64 (join64 l r) = r"
  by (rule bit_word_eqI) (simp add: bit_facts)

end
