(* ===== verification/GoStrings.thy ===== *)
theory GoStrings
  imports Prelude
begin

text \<open>
  The parts of Go's \<^verbatim>\<open>strings\<close> and \<^verbatim>\<open>strconv\<close> packages that the program uses, on strings
  of bytes. \<^verbatim>\<open>ToLower\<close> and white space are those of ASCII: host names, label keys, taints
  and addresses are ASCII strings, and a request with a DNS name that is not ASCII does not parse.
  Of all characters outside ASCII only U+0130 and U+212A have an ASCII lower case (i and k), so a test
  of \<^verbatim>\<open>ToLower\<close> against a word without these two letters is exact for every string.
  \<^verbatim>\<open>EqualFold\<close> is that of Unicode, for a first argument in ASCII.
\<close>

section \<open>Package strings\<close>

definition code :: "char \<Rightarrow> nat" where
  "code c = of_char c"

definition lower_char :: "char \<Rightarrow> char" where
  "lower_char c = (if 65 \<le> code c \<and> code c \<le> 90 then char_of (code c + 32) else c)"

definition ToLower :: "string \<Rightarrow> string" where
  "ToLower s = map lower_char s"

definition HasPrefix :: "string \<Rightarrow> string \<Rightarrow> bool" where
  "HasPrefix s p \<longleftrightarrow> take (length p) s = p"

definition HasSuffix :: "string \<Rightarrow> string \<Rightarrow> bool" where
  "HasSuffix s p \<longleftrightarrow> length p \<le> length s \<and> drop (length s - length p) s = p"

definition CutPrefix :: "string \<Rightarrow> string \<Rightarrow> string \<times> bool" where
  "CutPrefix s p = (if HasPrefix s p then (drop (length p) s, True) else (s, False))"

fun Contains :: "string \<Rightarrow> string \<Rightarrow> bool" where
  "Contains [] p \<longleftrightarrow> p = []"
| "Contains (c # s) p \<longleftrightarrow> HasPrefix (c # s) p \<or> Contains s p"

text \<open>Two strings that \<^verbatim>\<open>ToLower\<close> maps to the same one.\<close>

definition lower_eq :: "string \<Rightarrow> string \<Rightarrow> bool" where
  "lower_eq a b \<longleftrightarrow> ToLower a = ToLower b"

text \<open>
  \<^verbatim>\<open>strings.EqualFold\<close> compares character by character under Unicode's simple case folding. An ASCII
  letter is folded with its other case, and two of them with one more character: s with U+017F, the
  long s, and k with U+212A, the Kelvin sign. \<open>fold_rest c t\<close> is what is left of \<open>t\<close> after a first
  character that is folded with \<open>c\<close>.
\<close>

definition long_s :: string where
  "long_s = [CHR 0xC5, CHR 0xBF]"

definition kelvin :: string where
  "kelvin = [CHR 0xE2, CHR 0x84, CHR 0xAA]"

definition fold_rest :: "char \<Rightarrow> string \<Rightarrow> string option" where
  "fold_rest c t =
     (if t \<noteq> [] \<and> lower_char (hd t) = lower_char c then Some (tl t)
      else if lower_char c = CHR ''s'' \<and> HasPrefix t long_s then Some (drop 2 t)
      else if lower_char c = CHR ''k'' \<and> HasPrefix t kelvin then Some (drop 3 t)
      else None)"

primrec EqualFold :: "string \<Rightarrow> string \<Rightarrow> bool" where
  "EqualFold [] t \<longleftrightarrow> t = []"
| "EqualFold (c # s) t \<longleftrightarrow> (case fold_rest c t of None \<Rightarrow> False | Some r \<Rightarrow> EqualFold s r)"

text \<open>\<^verbatim>\<open>strings.Split\<close> with a separator of one byte: always at least one part.\<close>

fun Split :: "char \<Rightarrow> string \<Rightarrow> string list" where
  "Split sep [] = [[]]"
| "Split sep (c # s) =
     (if c = sep then [] # Split sep s
      else case Split sep s of [] \<Rightarrow> [[c]] | p # ps \<Rightarrow> (c # p) # ps)"

fun Join :: "string \<Rightarrow> string list \<Rightarrow> string" where
  "Join sep [] = []"
| "Join sep [p] = p"
| "Join sep (p # q # ps) = p @ sep @ Join sep (q # ps)"

definition is_space :: "char \<Rightarrow> bool" where
  "is_space c \<longleftrightarrow> code c = 32 \<or> (9 \<le> code c \<and> code c \<le> 13)"

definition TrimSpace :: "string \<Rightarrow> string" where
  "TrimSpace s = rev (dropWhile is_space (rev (dropWhile is_space s)))"

section \<open>Package strconv\<close>

definition digit :: "nat \<Rightarrow> char" where
  "digit n = (if n < 10 then char_of (48 + n) else char_of (87 + n))"

definition digit_val :: "char \<Rightarrow> nat option" where
  "digit_val c =
     (let n = code c in
      if 48 \<le> n \<and> n \<le> 57 then Some (n - 48)
      else if 97 \<le> n \<and> n \<le> 102 then Some (n - 87)
      else if 65 \<le> n \<and> n \<le> 70 then Some (n - 55)
      else None)"

definition is_hex :: "char \<Rightarrow> bool" where
  "is_hex c \<longleftrightarrow> digit_val c \<noteq> None"

definition is_dec :: "char \<Rightarrow> bool" where
  "is_dec c \<longleftrightarrow> 48 \<le> code c \<and> code c \<le> 57"

text \<open>A number in base \<open>b\<close> (10 or 16), without leading zeros.\<close>

function show_base :: "nat \<Rightarrow> nat \<Rightarrow> string" where
  "show_base b n = (if b < 2 \<or> n < b then [digit n] else show_base b (n div b) @ [digit (n mod b)])"
  by pat_completeness auto
termination
  by (relation "measure snd") auto

declare show_base.simps [simp del]

fun read_base :: "nat \<Rightarrow> nat \<Rightarrow> string \<Rightarrow> nat" where
  "read_base b acc [] = acc"
| "read_base b acc (c # s) = read_base b (acc * b + (case digit_val c of None \<Rightarrow> 0 | Some d \<Rightarrow> d)) s"

abbreviation itoa :: "nat \<Rightarrow> string" where "itoa \<equiv> show_base 10"
abbreviation itox :: "nat \<Rightarrow> string" where "itox \<equiv> show_base 16"

text \<open>
  \<^verbatim>\<open>strconv.ParseInt(s, 10, 64)\<close>: an optional sign, then at least one decimal digit, in
  the range of \<^verbatim>\<open>int64\<close>; \<open>None\<close> is the error.
\<close>

definition ParseInt64 :: "string \<Rightarrow> int option" where
  "ParseInt64 s =
     (let neg = (s \<noteq> [] \<and> hd s = CHR ''-'');
          ds = (if s \<noteq> [] \<and> (hd s = CHR ''-'' \<or> hd s = CHR ''+'') then tl s else s);
          v = int (read_base 10 0 ds)
      in if ds = [] \<or> \<not> list_all is_dec ds then None
         else if neg then (if v \<le> 2 ^ 63 then Some (- v) else None)
         else (if v < 2 ^ 63 then Some v else None))"

section \<open>Facts\<close>

lemma Split_not_Nil [simp]: "Split sep s \<noteq> []"
  by (induction s) (auto split: list.splits)

lemma Split_no_sep:
  "sep \<notin> set s \<Longrightarrow> Split sep s = [s]"
  by (induction s) auto

lemma Split_append:
  "sep \<notin> set p \<Longrightarrow> Split sep (p @ sep # s) = p # Split sep s"
  by (induction p) auto

lemma Split_Join:
  assumes "ps \<noteq> []" and "\<forall>p \<in> set ps. sep \<notin> set p"
  shows "Split sep (Join [sep] ps) = ps"
  using assms
proof (induction "[sep]" ps rule: Join.induct)
  case (3 p q ps)
  then show ?case by (simp add: Split_append)
qed (simp_all add: Split_no_sep)

lemma Join_Split [simp]: "Join [sep] (Split sep s) = s"
proof (induction s)
  case (Cons c s)
  then show ?case by (cases "Split sep s"; cases "tl (Split sep s)") auto
qed simp

lemma ToLower_append [simp]: "ToLower (a @ b) = ToLower a @ ToLower b"
  by (simp add: ToLower_def)

lemma code_char_of [simp]: "n < 256 \<Longrightarrow> code (char_of n) = n"
  by (simp add: code_def)

lemma ToLower_idem [simp]: "ToLower (ToLower s) = ToLower s"
  by (auto simp: ToLower_def lower_char_def)

lemma ToLower_simps: "ToLower [] = []" "ToLower (c # s) = lower_char c # ToLower s"
  by (simp_all add: ToLower_def)

lemma Contains_tl: "Contains (tl s) p \<Longrightarrow> Contains s p"
  by (cases s) auto

text \<open>Folding is the comparison of lower cases, but for the two characters outside ASCII.\<close>

lemma lower_eq_EqualFold: "lower_eq s t \<Longrightarrow> EqualFold s t"
proof (induction s arbitrary: t)
  case (Cons c s)
  then obtain d u where "t = d # u" "lower_char d = lower_char c" "lower_eq s u"
    by (cases t) (auto simp: lower_eq_def ToLower_simps)
  then show ?case using Cons.IH by (simp add: fold_rest_def)
qed (simp add: lower_eq_def ToLower_def)

lemma EqualFold_lower_eq:
  assumes "EqualFold s t" and "CHR ''k'' \<notin> set (ToLower s)"
    and "CHR ''s'' \<notin> set (ToLower s) \<or> \<not> Contains t long_s"
  shows "lower_eq s t"
  using assms
proof (induction s arbitrary: t)
  case (Cons c s)
  have pre: "Contains t long_s" if "HasPrefix t long_s"
    using that by (cases t) (auto simp: HasPrefix_def long_s_def)
  then obtain r where r: "fold_rest c t = Some r" and e: "EqualFold s r"
    using Cons(2) by (auto split: option.splits)
  then have t: "t \<noteq> []" "lower_char (hd t) = lower_char c" "r = tl t"
    using Cons(3,4) pre by (auto simp: fold_rest_def ToLower_simps split: if_splits)
  have "lower_eq s r"
    by (rule Cons.IH [OF e]) (use Cons(3,4) t(3) Contains_tl [of t long_s] in \<open>auto simp: ToLower_simps\<close>)
  then show ?case using t by (cases t) (auto simp: lower_eq_def ToLower_simps)
qed (simp add: lower_eq_def ToLower_simps)

lemma CutPrefix_eq:
  "CutPrefix s p = (r, True) \<longleftrightarrow> s = p @ r"
proof -
  have "HasPrefix s p \<and> r = drop (length p) s \<longleftrightarrow> s = p @ r"
    unfolding HasPrefix_def by (metis append_eq_conv_conj append_take_drop_id)
  then show ?thesis by (auto simp: CutPrefix_def)
qed

lemma digit_val_digit: "n < 16 \<Longrightarrow> digit_val (digit n) = Some n"
  by (auto simp: digit_val_def digit_def)

lemma digit_dec: "n < 10 \<Longrightarrow> is_dec (digit n)"
  by (simp add: is_dec_def digit_def)

lemma read_base_append: "read_base b acc (s @ t) = read_base b (read_base b acc s) t"
  by (induction s arbitrary: acc) auto

lemma read_show_base:
  assumes "2 \<le> b" and "b \<le> 16"
  shows "read_base b 0 (show_base b n) = n"
  using assms
proof (induction b n rule: show_base.induct)
  case (1 b n)
  show ?case
  proof (cases "n < b")
    case True
    with 1 show ?thesis by (simp add: show_base.simps [of b n] digit_val_digit)
  next
    case False
    have "n mod b < 16" using 1(2,3) mod_less_divisor [of b n] by linarith
    with False 1 show ?thesis
      by (simp add: show_base.simps [of b n] read_base_append digit_val_digit)
  qed
qed

lemma show_base_digits:
  assumes "2 \<le> b" and "b \<le> 16" and "c \<in> set (show_base b n)"
  shows "\<exists>d<b. c = digit d"
  using assms
proof (induction b n rule: show_base.induct)
  case (1 b n)
  show ?case
  proof (cases "n < b")
    case True
    with 1 show ?thesis by (auto simp: show_base.simps [of b n])
  next
    case False
    have "\<exists>d<b. digit (n mod b) = digit d" 
      using 1(2) by (intro exI [of _ "n mod b"]) simp
    then show ?thesis using False 1 by (auto simp: show_base.simps [of b n])
  qed
qed

lemma show_base_not_Nil [simp]: "show_base b n \<noteq> []"
  by (subst show_base.simps) simp

lemma show_base_hex: "c \<in> set (itox n) \<Longrightarrow> is_hex c"
  using show_base_digits [of 16 c n] by (auto simp: is_hex_def digit_val_digit)

lemma show_base_dec: "c \<in> set (itoa n) \<Longrightarrow> is_dec c"
  using show_base_digits [of 10 c n] by (auto simp: digit_dec)

lemma length_show_base:
  assumes "2 \<le> b" and "n < b ^ k" and "0 < k"
  shows "length (show_base b n) \<le> k"
  using assms
proof (induction b n arbitrary: k rule: show_base.induct)
  case (1 b n)
  show ?case
  proof (cases "n < b")
    case True
    with 1 show ?thesis by (simp add: show_base.simps [of b n])
  next
    case False
    then obtain j where k: "k = Suc j" and j: "0 < j" using 1(3,4) by (cases k; cases "k - 1") auto
    have "n div b < b ^ j" using 1(2,3) k by (simp add: less_mult_imp_div_less mult.commute)
    then show ?thesis using 1 False k j by (simp add: show_base.simps [of b n])
  qed
qed

lemma show_base_no_leading_zero:
  assumes "2 \<le> b" and "b \<le> 16" and "b \<le> n"
  shows "hd (show_base b n) \<noteq> CHR ''0''"
  using assms
proof (induction b n rule: show_base.induct)
  case (1 b n)
  show ?case
  proof (cases "n div b < b")
    case True
    have "n div b \<noteq> 0" using 1(2,4) by (simp add: div_eq_0_iff)
    moreover have "digit m \<noteq> CHR ''0''" if "m \<noteq> 0" "m < 16" for m
    proof
      assume "digit m = CHR ''0''"
      then have "code (digit m) = 48" by (simp add: code_def)
      then show False using that by (simp add: digit_def split: if_splits)
    qed
    ultimately show ?thesis
      using True 1(2,3,4) by (simp add: show_base.simps [of b n] show_base.simps [of b "n div b"])
  next
    case False
    then show ?thesis using 1 by (simp add: show_base.simps [of b n])
  qed
qed

end
