(* ===== verification/PrefixSpec.thy ===== *)
theory PrefixSpec
  imports Prelude
begin

text \<open>
  The reference view of CIDR arithmetic, for addresses of any width: the addresses of a
  network, the \<open>i\<close>-th subnet of a network and the index of the subnet that holds an
  address. The component \<open>CidrSet\<close> proves that the 32-bit and the two-halves 128-bit code of
  \<^verbatim>\<open>cidr_set.go\<close> computes these functions; everything that is said about disjointness and
  coverage of node CIDRs is proved here once.
\<close>

text \<open>The addresses of the network with base \<open>w\<close> and prefix length \<open>m\<close>.\<close>

definition net_addrs :: "'a::len word \<Rightarrow> nat \<Rightarrow> 'a word set" where
  "net_addrs w m = {a. drop_bit (LENGTH('a) - m) a = drop_bit (LENGTH('a) - m) w}"

text \<open>A base address has no host bits.\<close>

definition net_base :: "'a::len word \<Rightarrow> nat \<Rightarrow> bool" where
  "net_base w m \<longleftrightarrow> m \<le> LENGTH('a) \<and> take_bit (LENGTH('a) - m) w = 0"

text \<open>The last address of a network.\<close>

definition net_last :: "'a::len word \<Rightarrow> nat \<Rightarrow> 'a word" where
  "net_last w m = w OR mask (LENGTH('a) - m)"

text \<open>The base of the \<open>i\<close>-th subnet of length \<open>n\<close>, and the index of an address's subnet.\<close>

definition sub_base :: "'a::len word \<Rightarrow> nat \<Rightarrow> nat \<Rightarrow> 'a word" where
  "sub_base w n i = w OR push_bit (LENGTH('a) - n) (word_of_nat i)"

definition sub_index :: "'a::len word \<Rightarrow> nat \<Rightarrow> 'a word \<Rightarrow> nat" where
  "sub_index w n a = unat (drop_bit (LENGTH('a) - n) (w XOR a))"

section \<open>Bits\<close>

lemma unat_mask_small:
  assumes "d \<le> LENGTH('a)"
  shows "unat (mask d :: 'a::len word) = 2 ^ d - 1"
proof -
  have "unat (mask d :: 'a word) = mask d"
    using assms by (intro bit_eqI) (auto simp: bit_simps)
  then show ?thesis by (simp add: mask_eq_exp_minus_1)
qed

lemma bit_nat_bound: "bit (i::nat) k \<Longrightarrow> i < 2 ^ d \<Longrightarrow> k < d"
  by (metis bit_take_bit_iff take_bit_nat_eq_self_iff)

lemma net_base_bit: "net_base (w::'a::len word) m \<Longrightarrow> k < LENGTH('a) - m \<Longrightarrow> \<not> bit w k"
  unfolding net_base_def by (metis bit_take_bit_iff bit_0_eq bot_apply bot_bool_def)

lemma net_baseI:
  assumes "m \<le> LENGTH('a)" and "\<And>k. k < LENGTH('a) - m \<Longrightarrow> \<not> bit (w::'a::len word) k"
  shows "net_base w m"
  unfolding net_base_def using assms
  by (intro conjI bit_word_eqI) (auto simp: bit_take_bit_iff)

lemma in_net_addrs_bits:
  "a \<in> net_addrs (w::'a::len word) m \<longleftrightarrow>
     (\<forall>k. LENGTH('a) - m \<le> k \<and> k < LENGTH('a) \<longrightarrow> bit a k = bit w k)" (is "?l = ?r")
proof
  assume ?l
  then have "drop_bit (LENGTH('a) - m) a = drop_bit (LENGTH('a) - m) w"
    by (simp add: net_addrs_def)
  then show ?r
    by (metis bit_drop_bit_eq comp_apply le_add_diff_inverse)
next
  assume r: ?r
  have "bit a (LENGTH('a) - m + k) = bit w (LENGTH('a) - m + k)" for k
    using r bit_imp_le_length [of a] bit_imp_le_length [of w] by (metis le_add1)
  then show ?l
    by (auto simp: net_addrs_def bit_simps intro!: bit_word_eqI)
qed

lemma bit_sub_base:
  "bit (sub_base (w::'a::len word) n i) k \<longleftrightarrow>
     bit w k \<or> (LENGTH('a) - n \<le> k \<and> k < LENGTH('a) \<and> bit i (k - (LENGTH('a) - n)))"
  by (auto simp: sub_base_def bit_simps dest: bit_imp_le_length)

lemma bit_sub_index:
  "bit (sub_index (w::'a::len word) n a) k \<longleftrightarrow>
     k < LENGTH('a) \<and> bit w (LENGTH('a) - n + k) \<noteq> bit a (LENGTH('a) - n + k)"
  by (auto simp: sub_index_def bit_simps dest: bit_imp_le_length)

lemma net_base_self [simp]: "w \<in> net_addrs w m"
  by (simp add: net_addrs_def)

lemma net_addrs_mono:
  assumes "m \<le> m'"
  shows "net_addrs (w::'a::len word) m' \<subseteq> net_addrs w m"
  using assms by (auto simp: in_net_addrs_bits)

lemma net_addrs_cong:
  assumes "v \<in> net_addrs (w::'a::len word) m"
  shows "net_addrs v m = net_addrs w m"
  using assms by (auto simp: net_addrs_def)

section \<open>Subnets partition a network\<close>

lemma net_base_sub_base:
  assumes "net_base (w::'a::len word) c" and "c \<le> n" and "n \<le> LENGTH('a)"
  shows "net_base (sub_base w n i) n"
  using assms by (intro net_baseI) (auto simp: bit_sub_base net_base_bit)

lemma sub_base_in_net:
  assumes "c \<le> n" and "n \<le> LENGTH('a)" and "i < 2 ^ (n - c)"
  shows "sub_base (w::'a::len word) n i \<in> net_addrs w c"
proof -
  have "\<not> bit i (k - (LENGTH('a) - n))" if "LENGTH('a) - c \<le> k" for k
    using bit_nat_bound [OF _ assms(3), of "k - (LENGTH('a) - n)"] assms that by fastforce
  then show ?thesis
    by (auto simp: in_net_addrs_bits bit_sub_base)
qed

lemma sub_index_sub_base:
  assumes w: "net_base (w::'a::len word) c" and "c \<le> n" and n: "n \<le> LENGTH('a)"
    and i: "i < 2 ^ (n - c)"
  shows "sub_index w n (sub_base w n i) = i"
proof (rule bit_eqI)
  fix k
  have "\<not> bit w (LENGTH('a) - n + k)" if "k < n - c"
    using net_base_bit [OF w] that n by simp
  then show "bit (sub_index w n (sub_base w n i)) k = bit i k"
    using bit_nat_bound [OF _ i, of k] n
    by (auto simp: bit_sub_index bit_sub_base)
qed

lemma sub_index_bound:
  assumes "c \<le> n" and n: "n \<le> LENGTH('a)" and a: "a \<in> net_addrs (w::'a::len word) c"
  shows "sub_index w n a < 2 ^ (n - c)"
proof -
  have "take_bit (n - c) (sub_index w n a) = sub_index w n a"
  proof (rule bit_eqI)
    fix k
    have "\<not> bit (sub_index w n a) k" if "n - c \<le> k"
    proof (cases "LENGTH('a) - n + k < LENGTH('a)")
      case True
      then have "bit a (LENGTH('a) - n + k) = bit w (LENGTH('a) - n + k)"
        using a that assms(1) n by (auto simp: in_net_addrs_bits)
      then show ?thesis by (simp add: bit_sub_index)
    next
      case False
      then show ?thesis by (auto simp: bit_sub_index dest: bit_imp_le_length)
    qed
    then show "bit (take_bit (n - c) (sub_index w n a)) k = bit (sub_index w n a) k"
      by (cases "n - c \<le> k") (auto simp: bit_take_bit_iff)
  qed
  then show ?thesis by (simp add: take_bit_nat_eq_self_iff)
qed

lemma sub_index_bound_iff:
  assumes cn: "c \<le> n" and n: "n \<le> LENGTH('a)"
  shows "sub_index (w::'a::len word) n a < 2 ^ (n - c) \<longleftrightarrow> a \<in> net_addrs w c"
proof
  assume b: "sub_index w n a < 2 ^ (n - c)"
  show "a \<in> net_addrs w c"
    unfolding in_net_addrs_bits
  proof (intro allI impI)
    fix k assume k: "LENGTH('a) - c \<le> k \<and> k < LENGTH('a)"
    let ?j = "k - (LENGTH('a) - n)"
    have "LENGTH('a) - n + ?j = k" "n - c \<le> ?j" "?j < LENGTH('a)" using k cn n by auto
    then show "bit a k = bit w k"
      using bit_nat_bound [OF _ b, of ?j] by (auto simp: bit_sub_index)
  qed
qed (rule sub_index_bound [OF cn n])

lemma sub_base_sub_index:
  assumes w: "net_base (w::'a::len word) c" and "c \<le> n" and n: "n \<le> LENGTH('a)"
    and a: "a \<in> net_addrs w c"
  shows "a \<in> net_addrs (sub_base w n (sub_index w n a)) n"
proof -
  have "bit a k = bit (sub_base w n (sub_index w n a)) k"
    if k: "LENGTH('a) - n \<le> k" "k < LENGTH('a)" for k
  proof (cases "LENGTH('a) - c \<le> k")
    case True
    then have "bit a k = bit w k" using a k by (simp add: in_net_addrs_bits)
    then show ?thesis using k by (auto simp: bit_sub_base bit_sub_index)
  next
    case False
    then have "\<not> bit w k" using net_base_bit [OF w] by simp
    then show ?thesis using k by (auto simp: bit_sub_base bit_sub_index)
  qed
  then show ?thesis by (simp add: in_net_addrs_bits)
qed

text \<open>An address is in the \<open>i\<close>-th subnet exactly when its index is \<open>i\<close>.\<close>

lemma in_subnet_iff:
  assumes w: "net_base (w::'a::len word) c" and cn: "c \<le> n" and n: "n \<le> LENGTH('a)"
    and i: "i < 2 ^ (n - c)"
  shows "a \<in> net_addrs (sub_base w n i) n \<longleftrightarrow> a \<in> net_addrs w c \<and> sub_index w n a = i"
    (is "?l \<longleftrightarrow> ?r")
proof
  assume l: ?l
  have "net_addrs (sub_base w n i) c = net_addrs w c"
    by (rule net_addrs_cong) (rule sub_base_in_net [OF cn n i])
  then have in_w: "a \<in> net_addrs w c"
    using l net_addrs_mono [OF cn, of "sub_base w n i"] by auto
  have "drop_bit (LENGTH('a) - n) a = drop_bit (LENGTH('a) - n) (sub_base w n i)"
    using l by (simp add: net_addrs_def)
  then have "sub_index w n a = sub_index w n (sub_base w n i)"
    by (simp add: sub_index_def drop_bit_xor)
  then show ?r using in_w sub_index_sub_base [OF w cn n i] by simp
next
  assume ?r
  then show ?l using sub_base_sub_index [OF w cn n] by auto
qed

lemma subnets_disjoint:
  assumes "net_base (w::'a::len word) c" and "c \<le> n" and "n \<le> LENGTH('a)"
    and "i < 2 ^ (n - c)" and "j < 2 ^ (n - c)" and "i \<noteq> j"
  shows "net_addrs (sub_base w n i) n \<inter> net_addrs (sub_base w n j) n = {}"
  using assms by (auto simp: in_subnet_iff)

lemma subnets_cover:
  assumes "net_base (w::'a::len word) c" and "c \<le> n" and "n \<le> LENGTH('a)"
  shows "(\<Union>i<2 ^ (n - c). net_addrs (sub_base w n i) n) = net_addrs w c"
  using assms by (auto simp: in_subnet_iff sub_index_bound)

section \<open>Networks are intervals, and the index is monotone on them\<close>

lemma unat_net:
  assumes w: "net_base (w::'a::len word) c" and a: "a \<in> net_addrs w c"
  shows "unat a = unat w + unat (w XOR a)"
proof -
  have disj: "w AND (w XOR a) = 0"
  proof (rule bit_word_eqI)
    fix k assume "k < LENGTH('a)"
    then show "bit (w AND (w XOR a)) k = bit (0::'a word) k"
      using a net_base_bit [OF w, of k]
      by (cases "k < LENGTH('a) - c") (auto simp: bit_simps in_net_addrs_bits)
  qed
  have "w OR (w XOR a) = a"
  proof (rule bit_word_eqI)
    fix k assume "k < LENGTH('a)"
    then show "bit (w OR (w XOR a)) k = bit a k"
      using a net_base_bit [OF w, of k]
      by (cases "k < LENGTH('a) - c") (auto simp: bit_simps in_net_addrs_bits)
  qed
  then have "unat a = unat w OR unat (w XOR a)"
    by (metis unsigned_or_eq)
  also have "\<dots> = unat w + unat (w XOR a)"
    using disj by (subst disjunctive_add_eq_or) (simp_all flip: unsigned_and_eq)
  finally show ?thesis .
qed

lemma sub_index_div:
  assumes "net_base (w::'a::len word) c" and "a \<in> net_addrs w c"
  shows "sub_index w n a = (unat a - unat w) div 2 ^ (LENGTH('a) - n)"
proof -
  have "sub_index w n a = drop_bit (LENGTH('a) - n) (unat (w XOR a))"
    unfolding sub_index_def by (rule unat_drop_bit_eq)
  then show ?thesis using unat_net [OF assms] by (simp add: drop_bit_eq_div)
qed

lemma sub_index_mono:
  assumes "net_base (w::'a::len word) c" and "a \<in> net_addrs w c" and "b \<in> net_addrs w c"
    and "a \<le> b"
  shows "sub_index w n a \<le> sub_index w n b"
  using assms by (simp add: sub_index_div div_le_mono word_le_nat_alt)

lemma unat_net_last:
  assumes "net_base (w::'a::len word) m"
  shows "unat (net_last w m) = unat w + (2 ^ (LENGTH('a) - m) - 1)"
proof -
  have "w AND mask (LENGTH('a) - m) = 0"
    using assms by (simp add: net_base_def take_bit_eq_mask)
  then have "unat w AND unat (mask (LENGTH('a) - m) :: 'a word) = 0"
    by (simp flip: unsigned_and_eq)
  then have "unat (net_last w m) = unat w + unat (mask (LENGTH('a) - m) :: 'a word)"
    by (simp add: net_last_def unsigned_or_eq disjunctive_add_eq_or)
  also have "unat (mask (LENGTH('a) - m) :: 'a word) = 2 ^ (LENGTH('a) - m) - 1"
    by (rule unat_mask_small) simp
  finally show ?thesis .
qed

lemma net_interval:
  assumes w: "net_base (w::'a::len word) m"
  shows "net_addrs w m = {w..net_last w m}"
proof -
  let ?d = "2 ^ (LENGTH('a) - m) :: nat"
  have "take_bit (LENGTH('a) - m) (unat w) = 0"
    using w by (simp add: net_base_def flip: unsigned_take_bit_eq)
  then have "?d dvd unat w" by (simp add: take_bit_eq_mod dvd_eq_mod_eq_0)
  then obtain q where q: "unat w = ?d * q" by (auto elim: dvdE)
  have "a \<in> net_addrs w m \<longleftrightarrow> unat a div ?d = q" for a
    using q by (simp add: net_addrs_def word_unat_eq_iff unat_drop_bit_eq)
      (simp add: drop_bit_eq_div)
  moreover have "unat a div ?d = q \<longleftrightarrow> w \<le> a \<and> a \<le> net_last w m" for a :: "'a word"
  proof -
    have "unat a div ?d = q \<longleftrightarrow> ?d * q \<le> unat a \<and> unat a < ?d + ?d * q"
      using dividend_less_times_div [of ?d "unat a"] by (auto intro: div_nat_eqI)
    also have "\<dots> \<longleftrightarrow> unat w \<le> unat a \<and> unat a \<le> unat w + (?d - 1)"
      using zero_less_power [of "2::nat" "LENGTH('a) - m"] unfolding q by (safe; linarith)
    also have "\<dots> \<longleftrightarrow> w \<le> a \<and> a \<le> net_last w m"
      by (simp only: word_le_nat_alt unat_net_last [OF w])
    finally show ?thesis .
  qed
  ultimately show ?thesis by auto
qed

text \<open>Every subnet between the first and the last one of a range of addresses is met by it.\<close>

lemma sub_index_interval:
  assumes w: "net_base (w::'a::len word) c" and cn: "c \<le> n" and n: "n \<le> LENGTH('a)"
    and lo: "lo \<in> net_addrs w c" and hi: "hi \<in> net_addrs w c" and le: "lo \<le> hi"
  shows "sub_index w n ` {lo..hi} = {sub_index w n lo..sub_index w n hi}"
proof (intro equalityI subsetI)
  fix j assume "j \<in> sub_index w n ` {lo..hi}"
  then obtain a where a: "lo \<le> a" "a \<le> hi" and j: "j = sub_index w n a" by auto
  have "a \<in> net_addrs w c"
    using a lo hi by (auto simp: net_interval [OF w])
  then show "j \<in> {sub_index w n lo..sub_index w n hi}"
    using a j lo hi by (auto intro: sub_index_mono [OF w])
next
  fix j assume "j \<in> {sub_index w n lo..sub_index w n hi}"
  then have j: "sub_index w n lo \<le> j" "j \<le> sub_index w n hi" by auto
  have jb: "j < 2 ^ (n - c)" using j(2) sub_index_bound [OF cn n hi] by simp
  show "j \<in> sub_index w n ` {lo..hi}"
  proof (cases "sub_base w n j \<le> lo")
    case True
    have "j \<le> sub_index w n lo"
      using sub_index_mono [OF w _ lo True, of n] sub_index_sub_base [OF w cn n jb]
        sub_base_in_net [OF cn n jb] by simp
    then show ?thesis using j(1) le by auto
  next
    case False
    have "sub_base w n j \<le> hi"
    proof (rule ccontr)
      assume "\<not> sub_base w n j \<le> hi"
      then have "hi \<le> sub_base w n j" by simp
      then have "sub_index w n hi \<le> j"
        using sub_index_mono [OF w hi, of "sub_base w n j" n] sub_index_sub_base [OF w cn n jb]
          sub_base_in_net [OF cn n jb] by simp
      then have "sub_index w n hi = j" using j(2) by simp
      then have "hi \<in> net_addrs (sub_base w n j) n"
        using hi in_subnet_iff [OF w cn n jb] by simp
      then have "sub_base w n j \<le> hi"
        by (simp add: net_interval [OF net_base_sub_base [OF w cn n]])
      then show False using \<open>\<not> sub_base w n j \<le> hi\<close> by simp
    qed
    then show ?thesis
      using False sub_index_sub_base [OF w cn n jb] by (intro image_eqI [of _ _ "sub_base w n j"]) auto
  qed
qed

section \<open>Overlap of networks\<close>

lemma net_overlap_iff:
  "net_addrs (w::'a::len word) c \<inter> net_addrs v m \<noteq> {} \<longleftrightarrow> v \<in> net_addrs w c \<or> w \<in> net_addrs v m"
proof (cases "c \<le> m")
  case True
  then show ?thesis using net_addrs_mono [OF True, of v] net_addrs_cong [of _ w c] net_addrs_cong [of _ v c]
    by (metis disjoint_iff in_mono net_base_self)
next
  case False
  then have "m \<le> c" by simp
  then show ?thesis using net_addrs_mono [OF \<open>m \<le> c\<close>, of w] net_addrs_cong [of _ w m] net_addrs_cong [of _ v m]
    by (metis disjoint_iff in_mono net_base_self)
qed

lemma net_nested:
  assumes "m \<le> c" and "v \<in> net_addrs (w::'a::len word) c \<or> w \<in> net_addrs v m"
  shows "net_addrs w c \<subseteq> net_addrs v m"
  using assms net_addrs_mono [OF assms(1), of w] net_addrs_cong [of _ v m] net_addrs_cong [of _ w m]
  by blast

text \<open>The subnets that meet a smaller network are the ones between those of its ends.\<close>

lemma subnets_meeting:
  assumes w: "net_base (w::'a::len word) c" and cn: "c \<le> n" and n: "n \<le> LENGTH('a)"
    and cm: "c \<le> m" and v: "net_base v m" and vw: "v \<in> net_addrs w c"
  shows "{i. i < 2 ^ (n - c) \<and> net_addrs (sub_base w n i) n \<inter> net_addrs v m \<noteq> {}} =
    {sub_index w n v..sub_index w n (net_last v m)}"
proof -
  have sub: "net_addrs v m \<subseteq> net_addrs w c"
    using net_addrs_mono [OF cm, of v] net_addrs_cong [OF vw] by simp
  have ne: "v \<le> net_last v m" and last: "net_last v m \<in> net_addrs v m"
    using net_base_self [of v m] by (auto simp: net_interval [OF v])
  have "{i. i < 2 ^ (n - c) \<and> net_addrs (sub_base w n i) n \<inter> net_addrs v m \<noteq> {}} =
      sub_index w n ` net_addrs v m"
  proof (intro equalityI subsetI)
    fix i assume "i \<in> sub_index w n ` net_addrs v m"
    then obtain a where a: "a \<in> net_addrs v m" "i = sub_index w n a" by blast
    then have "a \<in> net_addrs (sub_base w n i) n" "i < 2 ^ (n - c)"
      using sub sub_base_sub_index [OF w cn n] sub_index_bound [OF cn n] by auto
    then show "i \<in> {i. i < 2 ^ (n - c) \<and> net_addrs (sub_base w n i) n \<inter> net_addrs v m \<noteq> {}}"
      using a by auto
  qed (auto simp: in_subnet_iff [OF w cn n])
  also have "\<dots> = sub_index w n ` {v..net_last v m}"
    by (simp add: net_interval [OF v])
  also have "\<dots> = {sub_index w n v..sub_index w n (net_last v m)}"
    using sub last ne vw by (intro sub_index_interval [OF w cn n]) auto
  finally show ?thesis .
qed

lemma net_overlap_inside:
  assumes "c \<le> m" and "net_addrs (w::'a::len word) c \<inter> net_addrs v m \<noteq> {}"
  shows "v \<in> net_addrs w c" and "net_addrs v m \<subseteq> net_addrs w c"
proof -
  show "net_addrs v m \<subseteq> net_addrs w c"
    using assms(2) by (intro net_nested [OF assms(1)]) (auto simp: net_overlap_iff)
  then show "v \<in> net_addrs w c" by auto
qed

lemma subnets_meeting_larger:
  assumes "c \<le> n" and "n \<le> LENGTH('a)" and "m \<le> c" and "net_addrs (w::'a::len word) c \<inter> net_addrs v m \<noteq> {}"
    and "i < 2 ^ (n - c)"
  shows "net_addrs (sub_base w n i) n \<inter> net_addrs v m \<noteq> {}"
proof -
  have "net_addrs w c \<subseteq> net_addrs v m"
    using assms(4) by (intro net_nested [OF assms(3)]) (auto simp: net_overlap_iff)
  then have "sub_base w n i \<in> net_addrs v m" using sub_base_in_net [OF assms(1,2,5)] by blast
  then show ?thesis using net_base_self by blast
qed

text \<open>The first and last index of the subnets that meet a network overlapping the whole.\<close>

definition sub_range :: "'a::len word \<Rightarrow> nat \<Rightarrow> nat \<Rightarrow> 'a word \<Rightarrow> nat \<Rightarrow> nat \<times> nat" where
  "sub_range w c n v m =
     (if c < m then (sub_index w n v, sub_index w n (net_last v m)) else (0, 2 ^ (n - c) - 1))"

lemma less_exp_iff: "(i::nat) < 2 ^ d \<longleftrightarrow> i \<le> 2 ^ d - 1"
  using zero_less_power [of "2::nat" d] by linarith

lemma sub_range_meeting:
  assumes w: "net_base (w::'a::len word) c" and cn: "c \<le> n" and n: "n \<le> LENGTH('a)"
    and v: "net_base v m" and o: "net_addrs w c \<inter> net_addrs v m \<noteq> {}"
  shows "{i. i < 2 ^ (n - c) \<and> net_addrs (sub_base w n i) n \<inter> net_addrs v m \<noteq> {}} =
    {fst (sub_range w c n v m)..snd (sub_range w c n v m)}"
proof (cases "c < m")
  case True
  then have "v \<in> net_addrs w c" using net_overlap_inside [OF _ o] by simp
  then show ?thesis using subnets_meeting [OF w cn n _ v] True by (simp add: sub_range_def)
next
  case False
  then have "{i. i < 2 ^ (n - c) \<and> net_addrs (sub_base w n i) n \<inter> net_addrs v m \<noteq> {}} = {i. i < 2 ^ (n - c)}"
    using subnets_meeting_larger [OF cn n _ o] by auto
  also have "\<dots> = {0..2 ^ (n - c) - 1}" unfolding less_exp_iff by auto
  finally show ?thesis using False by (simp add: sub_range_def)
qed

end
