(* ===== verification/GoNet.thy ===== *)
theory GoNet
  imports GoStrings PrefixSpec
begin

text \<open>
  The values of Go's packages \<^verbatim>\<open>net\<close> and \<^verbatim>\<open>net/netip\<close> that the program computes with, and
  the methods it calls on them.

  A \<^verbatim>\<open>net.IP\<close> or \<^verbatim>\<open>net.IPMask\<close> is a byte slice of 4 or 16 bytes, read here as one big-endian
  word; which of the two lengths it has is kept, because \<^verbatim>\<open>binary.BigEndian.Uint32\<close> of a
  16-byte slice reads its first four bytes and because an IPv4 address may come in either form.
  Slices of other lengths do not arise; \<open>IPnil\<close> and \<open>Masknil\<close> are the \<^verbatim>\<open>nil\<close> slice.
\<close>

section \<open>Package net\<close>

datatype IP = IPnil | IP4 u32 | IP16 u128

datatype IPMask = Masknil | Mask4 u32 | Mask16 u128

record IPNet =
  net_IP :: IP
  net_Mask :: IPMask

text \<open>The bytes of an IPv4-mapped IPv6 address are ten zeros, two \<^verbatim>\<open>0xff\<close> and the IPv4 address.\<close>

definition is4in6 :: "u128 \<Rightarrow> bool" where
  "is4in6 w \<longleftrightarrow> drop_bit 32 w = 0xffff"

fun To4 :: "IP \<Rightarrow> u32 option" where
  "To4 (IP4 w) = Some w"
| "To4 (IP16 w) = (if is4in6 w then Some (ucast w) else None)"
| "To4 IPnil = None"

fun To16 :: "IP \<Rightarrow> u128 option" where
  "To16 (IP4 w) = Some (push_bit 32 0xffff OR ucast w)"
| "To16 (IP16 w) = Some w"
| "To16 IPnil = None"

text \<open>\<^verbatim>\<open>binary.BigEndian.Uint32(b)\<close>: the first four bytes; a panic when there are fewer.\<close>

fun ip_Uint32 :: "IP \<Rightarrow> u32 option" where
  "ip_Uint32 (IP4 w) = Some w"
| "ip_Uint32 (IP16 w) = Some (ucast (drop_bit 96 w))"
| "ip_Uint32 IPnil = None"

fun mask_Uint32 :: "IPMask \<Rightarrow> u32 option" where
  "mask_Uint32 (Mask4 m) = Some m"
| "mask_Uint32 (Mask16 m) = Some (ucast (drop_bit 96 m))"
| "mask_Uint32 Masknil = None"

text \<open>
  \<^verbatim>\<open>binary.BigEndian.Uint64(b[:8])\<close> and \<^verbatim>\<open>binary.BigEndian.Uint64(b[8:])\<close> together; slicing a
  shorter slice panics.
\<close>

fun ip_halves :: "IP \<Rightarrow> (u64 \<times> u64) option" where
  "ip_halves (IP16 w) = Some (hi64 w, lo64 w)"
| "ip_halves _ = None"

fun mask_halves :: "IPMask \<Rightarrow> (u64 \<times> u64) option" where
  "mask_halves (Mask16 m) = Some (hi64 m, lo64 m)"
| "mask_halves _ = None"

text \<open>\<^verbatim>\<open>big.Int.SetBytes\<close>: the slice as a natural number.\<close>

fun ip_big :: "IP \<Rightarrow> nat" where
  "ip_big (IP4 w) = unat w"
| "ip_big (IP16 w) = unat w"
| "ip_big IPnil = 0"

text \<open>The netmask of prefix length \<open>n\<close>, and the length of a netmask.\<close>

definition prefix_mask :: "nat \<Rightarrow> 'a::len word" where
  "prefix_mask n = NOT (mask (LENGTH('a) - n))"

definition simpleMaskLength :: "'a::len word \<Rightarrow> nat option" where
  "simpleMaskLength m = find (\<lambda>n. prefix_mask n = m) [0..<LENGTH('a) + 1]"

definition CIDRMask :: "int \<Rightarrow> int \<Rightarrow> IPMask" where
  "CIDRMask ones bits =
     (if ones < 0 \<or> ones > bits then Masknil
      else if bits = 32 then Mask4 (prefix_mask (nat ones))
      else if bits = 128 then Mask16 (prefix_mask (nat ones))
      else Masknil)"

fun mask_Size :: "IPMask \<Rightarrow> int \<times> int" where
  "mask_Size (Mask4 m) = (case simpleMaskLength m of None \<Rightarrow> (0, 0) | Some n \<Rightarrow> (int n, 32))"
| "mask_Size (Mask16 m) = (case simpleMaskLength m of None \<Rightarrow> (0, 0) | Some n \<Rightarrow> (int n, 128))"
| "mask_Size Masknil = (0, 0)"

text \<open>\<^verbatim>\<open>IP.Mask\<close>: mixed lengths are reconciled for IPv4, otherwise the result is \<^verbatim>\<open>nil\<close>.\<close>

fun ip_Mask :: "IP \<Rightarrow> IPMask \<Rightarrow> IP" where
  "ip_Mask (IP4 w) (Mask4 m) = IP4 (w AND m)"
| "ip_Mask (IP4 w) (Mask16 m) = (if drop_bit 32 m = mask 96 then IP4 (w AND ucast m) else IPnil)"
| "ip_Mask (IP16 w) (Mask16 m) = IP16 (w AND m)"
| "ip_Mask (IP16 w) (Mask4 m) = (if is4in6 w then IP4 (ucast w AND m) else IPnil)"
| "ip_Mask _ _ = IPnil"

definition networkNumberAndMask :: "IPNet \<Rightarrow> IP \<times> IPMask" where
  "networkNumberAndMask n =
     (case To4 (net_IP n) of
        Some w \<Rightarrow>
          (case net_Mask n of
             Mask4 m \<Rightarrow> (IP4 w, Mask4 m)
           | Mask16 m \<Rightarrow> (IP4 w, Mask4 (ucast m))
           | Masknil \<Rightarrow> (IPnil, Masknil))
      | None \<Rightarrow>
          (case (net_IP n, net_Mask n) of
             (IP16 w, Mask16 m) \<Rightarrow> (IP16 w, Mask16 m)
           | _ \<Rightarrow> (IPnil, Masknil)))"

text \<open>
  \<^verbatim>\<open>IPNet.Contains\<close>: the lengths must agree (two empty slices agree), then every byte must
  agree under the mask.
\<close>

definition net_Contains :: "IPNet \<Rightarrow> IP \<Rightarrow> bool" where
  "net_Contains n ip =
     (let ip' = (case To4 ip of Some x \<Rightarrow> IP4 x | None \<Rightarrow> ip) in
      case (networkNumberAndMask n, ip') of
        ((IP4 w, Mask4 m), IP4 a) \<Rightarrow> w AND m = a AND m
      | ((IP16 w, Mask16 m), IP16 a) \<Rightarrow> w AND m = a AND m
      | ((IPnil, _), IPnil) \<Rightarrow> True
      | _ \<Rightarrow> False)"

section \<open>Package net/netip\<close>

text \<open>An address: the zero \<^verbatim>\<open>Addr\<close>, an IPv4 address, or an IPv6 address with its zone.\<close>

datatype Addr = AddrZero | Addr4 u32 | Addr6 u128 string

datatype Prefix = Prefix (pfx_Addr: Addr) (pfx_Bits: int)

fun Is4 :: "Addr \<Rightarrow> bool" where
  "Is4 (Addr4 w) = True"
| "Is4 _ = False"

fun Is6 :: "Addr \<Rightarrow> bool" where
  "Is6 (Addr6 w z) = True"
| "Is6 _ = False"

fun Unmap :: "Addr \<Rightarrow> Addr" where
  "Unmap (Addr6 w z) = (if is4in6 w then Addr4 (ucast w) else Addr6 w z)"
| "Unmap a = a"

fun BitLen :: "Addr \<Rightarrow> int" where
  "BitLen AddrZero = 0"
| "BitLen (Addr4 _) = 32"
| "BitLen (Addr6 _ _) = 128"

text \<open>\<^verbatim>\<open>netip.AddrFromSlice\<close>; \<open>None\<close> is \<^verbatim>\<open>ok == false\<close> (the address is then the zero one).\<close>

fun AddrFromSlice :: "IP \<Rightarrow> Addr option" where
  "AddrFromSlice (IP4 w) = Some (Addr4 w)"
| "AddrFromSlice (IP16 w) = Some (Addr6 w [])"
| "AddrFromSlice IPnil = None"

definition IsPrivate :: "Addr \<Rightarrow> bool" where
  "IsPrivate a =
     (case Unmap a of
        Addr4 w \<Rightarrow> drop_bit 24 w = 10 \<or> drop_bit 20 w = 0xac1 \<or> drop_bit 16 w = 0xc0a8
      | Addr6 w z \<Rightarrow> drop_bit 121 w = 0x7e
      | AddrZero \<Rightarrow> False)"

text \<open>
  \<^verbatim>\<open>IsGlobalUnicast\<close>: not unspecified, not the IPv4 broadcast, not loopback, not multicast
  and not link-local unicast. Private addresses are global unicast in this sense.
\<close>

definition IsGlobalUnicast :: "Addr \<Rightarrow> bool" where
  "IsGlobalUnicast a =
     (case Unmap a of
        Addr4 w \<Rightarrow>
          w \<noteq> 0 \<and> w \<noteq> - 1 \<and> drop_bit 24 w \<noteq> 127 \<and> drop_bit 28 w \<noteq> 0xe \<and> drop_bit 16 w \<noteq> 0xa9fe
      | Addr6 w z \<Rightarrow>
          (w \<noteq> 0 \<or> z \<noteq> []) \<and> w \<noteq> 1 \<and> drop_bit 120 w \<noteq> 0xff \<and> drop_bit 118 w \<noteq> 0x3fa
      | AddrZero \<Rightarrow> False)"

definition pfx_IsValid :: "Prefix \<Rightarrow> bool" where
  "pfx_IsValid p \<longleftrightarrow> pfx_Addr p \<noteq> AddrZero \<and> 0 \<le> pfx_Bits p \<and> pfx_Bits p \<le> BitLen (pfx_Addr p)"

definition pfx_Contains :: "Prefix \<Rightarrow> Addr \<Rightarrow> bool" where
  "pfx_Contains p ip =
     (pfx_IsValid p \<and>
      (case (pfx_Addr p, ip) of
         (Addr4 w, Addr4 a) \<Rightarrow> drop_bit (32 - nat (pfx_Bits p)) (w XOR a) = 0
       | (Addr6 w _, Addr6 a z) \<Rightarrow> z = [] \<and> (w XOR a) AND prefix_mask (nat (pfx_Bits p)) = 0
       | _ \<Rightarrow> False))"

text \<open>\<^verbatim>\<open>Addr.Prefix(b)\<close>: the address with its host bits cleared; \<open>None\<close> is the error.\<close>

definition addr_Prefix :: "Addr \<Rightarrow> int \<Rightarrow> Prefix option" where
  "addr_Prefix a b =
     (if b < 0 then None
      else case a of
        AddrZero \<Rightarrow> Some (Prefix AddrZero (- 1))
      | Addr4 w \<Rightarrow> if b > 32 then None else Some (Prefix (Addr4 (w AND prefix_mask (nat b))) b)
      | Addr6 w z \<Rightarrow>
          if b > 128 then None else Some (Prefix (Addr6 (w AND prefix_mask (nat b)) []) b))"

definition pfx_Masked :: "Prefix \<Rightarrow> Prefix" where
  "pfx_Masked p =
     (case addr_Prefix (pfx_Addr p) (pfx_Bits p) of Some q \<Rightarrow> q | None \<Rightarrow> Prefix AddrZero (- 1))"

section \<open>Netmasks and networks\<close>

lemma bit_prefix_mask [bit_facts]:
  "bit (prefix_mask n :: 'a::len word) k \<longleftrightarrow> LENGTH('a) - n \<le> k \<and> k < LENGTH('a)"
  by (auto simp: prefix_mask_def bit_simps)

lemma prefix_mask_inj:
  assumes "m \<le> LENGTH('a)" and "n \<le> LENGTH('a)"
    and "prefix_mask m = (prefix_mask n :: 'a::len word)"
  shows "m = n"
proof (rule ccontr)
  assume "m \<noteq> n"
  have b: "bit (prefix_mask m :: 'a word) k \<longleftrightarrow> bit (prefix_mask n :: 'a word) k" for k
    using assms(3) by simp
  show False
    using b [of "LENGTH('a) - max m n"] \<open>m \<noteq> n\<close> assms(1,2)
    by (cases "m < n") (auto simp: bit_facts max_def)
qed

lemma find_unique:
  assumes "x \<in> set xs" and "P x" and "\<And>y. y \<in> set xs \<Longrightarrow> P y \<Longrightarrow> y = x"
  shows "find P xs = Some x"
  using assms
proof (induction xs)
  case (Cons y ys)
  show ?case
  proof (cases "P y")
    case True
    then have "y = x" using Cons.prems(3) [of y] by simp
    then show ?thesis using True by simp
  next
    case False
    then have "x \<in> set ys" using Cons.prems(1,2) by auto
    then have "find P ys = Some x" using Cons.prems by (intro Cons.IH) auto
    then show ?thesis using False by simp
  qed
qed simp

lemma simpleMaskLength_prefix_mask [simp]:
  assumes "n \<le> LENGTH('a)"
  shows "simpleMaskLength (prefix_mask n :: 'a::len word) = Some n"
  unfolding simpleMaskLength_def
proof (rule find_unique)
  fix y assume "y \<in> set [0..<LENGTH('a) + 1]" and "prefix_mask y = (prefix_mask n :: 'a word)"
  then show "y = n" using assms by (intro prefix_mask_inj) auto
qed (use assms in auto)

lemma and_prefix_mask_eq_iff:
  "w AND prefix_mask m = a AND prefix_mask m \<longleftrightarrow> a \<in> net_addrs (w::'a::len word) m" (is "?l = ?r")
proof
  assume l: ?l
  have "bit a k = bit w k" if "LENGTH('a) - m \<le> k" "k < LENGTH('a)" for k
    using arg_cong [OF l, of "\<lambda>x. bit x k"] that by (auto simp: bit_simps bit_facts)
  then show ?r by (simp add: in_net_addrs_bits)
next
  assume ?r
  then show ?l
    by (intro bit_word_eqI) (auto simp: bit_simps bit_facts in_net_addrs_bits)
qed

lemma net_base_and_prefix_mask:
  "m \<le> LENGTH('a) \<Longrightarrow> net_base (w AND prefix_mask m :: 'a::len word) m"
  by (rule net_baseI) (auto simp: bit_simps bit_facts)

lemma and_prefix_mask_base:
  "net_base (w::'a::len word) m \<Longrightarrow> w AND prefix_mask m = w"
  by (rule bit_word_eqI) (metis and.commute bit_and_iff bit_prefix_mask net_base_bit not_le_imp_less)

lemma or_not_prefix_mask: "w OR NOT (prefix_mask m) = net_last (w::'a::len word) m"
  by (simp add: prefix_mask_def net_last_def)

end
