(* ===== verification/GoNetText.thy ===== *)
theory GoNetText
  imports GoNet
begin

text \<open>
  The text forms of addresses and networks: \<^verbatim>\<open>IP.String\<close>, \<^verbatim>\<open>IPNet.String\<close>,
  \<^verbatim>\<open>Addr.String\<close>, \<^verbatim>\<open>Prefix.String\<close> and the parsers \<^verbatim>\<open>netip.ParseAddr\<close>,
  \<^verbatim>\<open>netip.ParsePrefix\<close> and \<^verbatim>\<open>net.ParseIP\<close>. The program stores node CIDRs as strings and
  moves between \<^verbatim>\<open>net\<close> and \<^verbatim>\<open>netip\<close> values by printing and parsing; the round trips
  proved here are what makes that lossless.
\<close>

section \<open>Positional digits, most significant first\<close>

fun digits :: "nat \<Rightarrow> nat \<Rightarrow> nat \<Rightarrow> nat list" where
  "digits b 0 n = []"
| "digits b (Suc k) n = digits b k (n div b) @ [n mod b]"

definition undigits :: "nat \<Rightarrow> nat list \<Rightarrow> nat" where
  "undigits b ds = foldl (\<lambda>acc d. acc * b + d) 0 ds"

definition octets :: "u32 \<Rightarrow> nat list" where
  "octets w = digits 256 4 (unat w)"

definition groups :: "u128 \<Rightarrow> nat list" where
  "groups w = digits 65536 8 (unat w)"

section \<open>Printing\<close>

definition show4 :: "u32 \<Rightarrow> string" where
  "show4 w = Join ''.'' (map itoa (octets w))"

text \<open>The leftmost longest run of at least two zero groups: its start and length (0: none).\<close>

definition zero_run_step :: "nat list \<Rightarrow> nat \<Rightarrow> nat \<times> nat \<Rightarrow> nat \<times> nat" where
  "zero_run_step gs i r =
     (let l = length (takeWhile (\<lambda>g. g = 0) (drop i gs))
      in if 2 \<le> l \<and> snd r < l then (i, l) else r)"

definition zero_run :: "nat list \<Rightarrow> nat \<times> nat" where
  "zero_run gs = fold (zero_run_step gs) [0..<8] (0, 0)"

definition show_groups :: "nat list \<Rightarrow> string" where
  "show_groups gs = Join '':'' (map itox gs)"

definition show6 :: "u128 \<Rightarrow> string" where
  "show6 w =
     (let gs = groups w; r = zero_run gs in
      if snd r = 0 then show_groups gs
      else show_groups (take (fst r) gs) @ ''::'' @ show_groups (drop (fst r + snd r) gs))"

fun addr_String :: "Addr \<Rightarrow> string" where
  "addr_String AddrZero = ''invalid IP''"
| "addr_String (Addr4 w) = show4 w"
| "addr_String (Addr6 w z) =
     (if is4in6 w then ''::ffff:'' @ show4 (ucast w) else show6 w) @ (if z = [] then [] else CHR ''%'' # z)"

definition pfx_String :: "Prefix \<Rightarrow> string" where
  "pfx_String p =
     (if pfx_IsValid p then addr_String (pfx_Addr p) @ ''/'' @ itoa (nat (pfx_Bits p))
      else ''invalid Prefix'')"

definition ip_String :: "IP \<Rightarrow> string" where
  "ip_String ip =
     (case To4 ip of
        Some w \<Rightarrow> show4 w
      | None \<Rightarrow> (case ip of IP16 w \<Rightarrow> addr_String (Addr6 w []) | _ \<Rightarrow> ''<nil>''))"

text \<open>The hexadecimal form of a mask that is not a prefix mask.\<close>

definition mask_hex :: "IPMask \<Rightarrow> string" where
  "mask_hex m =
     (case m of
        Mask4 w \<Rightarrow> concat (map (\<lambda>d. [digit d]) (digits 16 8 (unat w)))
      | Mask16 w \<Rightarrow> concat (map (\<lambda>d. [digit d]) (digits 16 32 (unat w)))
      | Masknil \<Rightarrow> ''<nil>'')"

definition mask_len :: "IPMask \<Rightarrow> nat option" where
  "mask_len m = (case m of Mask4 w \<Rightarrow> simpleMaskLength w | Mask16 w \<Rightarrow> simpleMaskLength w | Masknil \<Rightarrow> Some 0)"

definition net_String :: "IPNet \<Rightarrow> string" where
  "net_String n =
     (let (nn, m) = networkNumberAndMask n in
      if nn = IPnil \<or> m = Masknil then ''<nil>''
      else ip_String nn @ ''/'' @ (case mask_len m of None \<Rightarrow> mask_hex m | Some l \<Rightarrow> itoa l))"

text \<open>\<^verbatim>\<open>(*IPNet)(nil).String()\<close> is defined too: an absent network prints as \<^verbatim>\<open><nil>\<close>.\<close>

definition netp_String :: "IPNet option \<Rightarrow> string" where
  "netp_String n = (case n of None \<Rightarrow> ''<nil>'' | Some n' \<Rightarrow> net_String n')"

section \<open>Parsing\<close>

definition parse_octet :: "string \<Rightarrow> nat option" where
  "parse_octet s =
     (if s = [] \<or> \<not> list_all is_dec s \<or> (1 < length s \<and> hd s = CHR ''0'') \<or> 3 < length s then None
      else if read_base 10 0 s \<le> 255 then Some (read_base 10 0 s) else None)"

definition parse4 :: "string \<Rightarrow> u32 option" where
  "parse4 s =
     (case map parse_octet (Split CHR ''.'' s) of
        [Some a, Some b, Some c, Some d] \<Rightarrow> Some (word_of_nat (undigits 256 [a, b, c, d]))
      | _ \<Rightarrow> None)"

text \<open>
  The loop of \<^verbatim>\<open>parseIPv6\<close>: \<open>r\<close> groups may still be read, \<open>acc\<close> holds the groups read, \<open>ell\<close>
  the position of the ellipsis. The result is the groups, the ellipsis and the unread rest.
\<close>

fun parse6_loop :: "nat \<Rightarrow> nat list \<Rightarrow> nat option \<Rightarrow> string \<Rightarrow> (nat list \<times> nat option \<times> string) option"
where
  "parse6_loop 0 acc ell s = Some (acc, ell, s)"
| "parse6_loop (Suc r) acc ell s =
     (let ds = takeWhile is_hex s; rest = dropWhile is_hex s; acc' = acc @ [read_base 16 0 ds] in
      if ds = [] \<or> 4 < length ds then None
      else case rest of
        [] \<Rightarrow> Some (acc', ell, [])
      | c # rest1 \<Rightarrow>
          if c = CHR ''.'' then
            (if (ell = None \<and> length acc \<noteq> 6) \<or> 6 < length acc then None
             else case parse4 s of
               None \<Rightarrow> None
             | Some w \<Rightarrow> Some (acc @ digits 65536 2 (unat w), ell, []))
          else if c \<noteq> CHR '':'' then None
          else (case rest1 of
              [] \<Rightarrow> None
            | d # rest2 \<Rightarrow>
                if d = CHR '':'' then
                  (if ell \<noteq> None then None
                   else if rest2 = [] then Some (acc', Some (length acc'), [])
                   else parse6_loop r acc' (Some (length acc')) rest2)
                else parse6_loop r acc' ell (d # rest2)))"

definition expand6 :: "nat list \<Rightarrow> nat option \<Rightarrow> nat list option" where
  "expand6 gs ell =
     (case ell of
        None \<Rightarrow> if length gs = 8 then Some gs else None
      | Some e \<Rightarrow> if length gs < 8 then Some (take e gs @ replicate (8 - length gs) 0 @ drop e gs) else None)"

definition parse6 :: "string \<Rightarrow> Addr option" where
  "parse6 s0 =
     (let s = takeWhile (\<lambda>c. c \<noteq> CHR ''%'') s0; zs = dropWhile (\<lambda>c. c \<noteq> CHR ''%'') s0; zone = tl zs;
          lead = HasPrefix s ''::''; s' = (if lead then drop 2 s else s)
      in if zs \<noteq> [] \<and> zone = [] then None
         else if lead \<and> s' = [] then Some (Addr6 0 zone)
         else case parse6_loop 8 [] (if lead then Some 0 else None) s' of
             None \<Rightarrow> None
           | Some (gs, ell, rest) \<Rightarrow>
               if rest \<noteq> [] then None
               else map_option (\<lambda>g. Addr6 (word_of_nat (undigits 65536 g)) zone) (expand6 gs ell))"

definition ParseAddr :: "string \<Rightarrow> Addr option" where
  "ParseAddr s =
     (case dropWhile (\<lambda>c. c \<notin> {CHR ''.'', CHR '':'', CHR ''%''}) s of
        [] \<Rightarrow> None
      | c # _ \<Rightarrow>
          if c = CHR ''.'' then map_option Addr4 (parse4 s)
          else if c = CHR '':'' then parse6 s
          else None)"

text \<open>\<^verbatim>\<open>net.ParseIP\<close> returns the 16-byte form and refuses zones; \<open>IPnil\<close> is a failure.\<close>

definition ParseIP :: "string \<Rightarrow> IP" where
  "ParseIP s =
     (case ParseAddr s of
        Some (Addr4 w) \<Rightarrow> IP16 (push_bit 32 0xffff OR ucast w)
      | Some (Addr6 w []) \<Rightarrow> IP16 w
      | _ \<Rightarrow> IPnil)"

text \<open>\<^verbatim>\<open>netip.ParsePrefix\<close> splits at the last slash and accepts no zone and no leading zero.\<close>

definition ParsePrefix :: "string \<Rightarrow> Prefix option" where
  "ParsePrefix s =
     (let bs = rev (takeWhile (\<lambda>c. c \<noteq> CHR ''/'') (rev s));
          hd_part = rev (tl (dropWhile (\<lambda>c. c \<noteq> CHR ''/'') (rev s)))
      in if CHR ''/'' \<notin> set s then None
         else case ParseAddr hd_part of
           None \<Rightarrow> None
         | Some a \<Rightarrow>
             if (case a of Addr6 _ z \<Rightarrow> z \<noteq> [] | _ \<Rightarrow> False) then None
             else if bs = [] \<or> \<not> list_all is_dec bs \<or> (1 < length bs \<and> hd bs = CHR ''0'') then None
             else if int (read_base 10 0 bs) > BitLen a then None
             else Some (Prefix a (int (read_base 10 0 bs))))"

section \<open>Round trips\<close>

lemma undigits_snoc [simp]: "undigits b (ds @ [d]) = undigits b ds * b + d"
  by (simp add: undigits_def)

lemma undigits_zeros: "undigits b (replicate k 0) = 0"
  by (induction k) (simp_all add: undigits_def)

lemma undigits_digits: "0 < b \<Longrightarrow> undigits b (digits b k n) = n mod b ^ k"
proof (induction k arbitrary: n)
  case 0
  then show ?case by (simp add: undigits_def)
next
  case (Suc k)
  then show ?case by (simp add: mod_mult2_eq mult.commute)
qed

lemma length_digits [simp]: "length (digits b k n) = k"
  by (induction k arbitrary: n) auto

lemma digits_less: "0 < b \<Longrightarrow> d \<in> set (digits b k n) \<Longrightarrow> d < b"
  by (induction k arbitrary: n) auto

lemma of_octets_octets [simp]: "word_of_nat (undigits 256 (octets w)) = w"
proof -
  have "unat w < 2 ^ LENGTH(32)" by (rule unsigned_less)
  then show ?thesis by (simp add: octets_def undigits_digits)
qed

lemma of_groups_groups [simp]: "word_of_nat (undigits 65536 (groups w)) = w"
proof -
  have "unat w < 2 ^ LENGTH(128)" by (rule unsigned_less)
  then show ?thesis by (simp add: groups_def undigits_digits)
qed

lemma length_groups [simp]: "length (groups w) = 8"
  by (simp add: groups_def)

lemma groups_not_Nil [simp]: "groups w \<noteq> []"
  by (metis length_groups list.size(3) zero_neq_numeral)

lemma groups_less: "g \<in> set (groups w) \<Longrightarrow> g < 65536"
  by (rule digits_less [of 65536 g 8 "unat w"]) (simp_all add: groups_def)

subsection \<open>IPv4\<close>

lemma itoa_no_leading_zero:
  assumes "1 < length (itoa n)"
  shows "hd (itoa n) \<noteq> CHR ''0''"
proof (rule show_base_no_leading_zero)
  show "10 \<le> n"
  proof (rule ccontr)
    assume "\<not> 10 \<le> n"
    then have "length (itoa n) = 1" by (subst show_base.simps) simp
    then show False using assms by simp
  qed
qed simp_all

lemma parse_octet_itoa:
  assumes "n \<le> 255"
  shows "parse_octet (itoa n) = Some n"
proof -
  have "length (itoa n) \<le> 3" using length_show_base [of 10 n 3] assms by simp
  moreover have "list_all is_dec (itoa n)" by (auto simp: list_all_iff show_base_dec)
  moreover have "hd (itoa n) \<noteq> CHR ''0''" if "1 < length (itoa n)"
    using that by (rule itoa_no_leading_zero)
  ultimately show ?thesis
    using assms by (auto simp: parse_octet_def read_show_base)
qed

lemma itoa_free:
  assumes "\<not> is_dec c"
  shows "c \<notin> set (itoa n)"
  using assms show_base_dec [of c n] by auto

lemma not_dec_sep [simp]:
  "\<not> is_dec CHR ''.''" "\<not> is_dec CHR '':''" "\<not> is_dec CHR ''%''" "\<not> is_dec CHR ''/''"
  by (simp_all add: is_dec_def code_def)

lemma not_hex_sep [simp]:
  "\<not> is_hex CHR ''.''" "\<not> is_hex CHR '':''" "\<not> is_hex CHR ''%''" "\<not> is_hex CHR ''/''"
  by (simp_all add: is_hex_def digit_val_def code_def)

lemma parse4_show4 [simp]: "parse4 (show4 w) = Some w"
proof -
  obtain a b c d where o: "octets w = [a, b, c, d]"
  proof -
    have "length (octets w) = Suc (Suc (Suc (Suc 0)))" by (simp add: octets_def)
    then show ?thesis using that by (auto simp: length_Suc_conv)
  qed
  have "x \<le> 255" if "x \<in> set [a, b, c, d]" for x
    using digits_less [of 256 x 4 "unat w"] that o by (simp add: octets_def)
  then have le: "a \<le> 255" "b \<le> 255" "c \<le> 255" "d \<le> 255" by auto
  have "Split CHR ''.'' (show4 w) = map itoa (octets w)"
    unfolding show4_def by (rule Split_Join) (auto simp: o itoa_free)
  then show ?thesis
    using of_octets_octets [of w] le by (simp add: parse4_def o parse_octet_itoa)
qed

subsection \<open>IPv6\<close>

lemma show_groups_Nil [simp]: "show_groups [] = []"
  by (simp add: show_groups_def)

lemma show_groups_Cons:
  "show_groups (g # gs) = itox g @ (if gs = [] then [] else '':'' @ show_groups gs)"
  by (cases gs) (auto simp: show_groups_def)

lemma show_groups_chars:
  "c \<in> set (show_groups gs) \<Longrightarrow> is_hex c \<or> c = CHR '':''"
  by (induction gs) (auto simp: show_groups_Cons dest: show_base_hex split: if_splits)

lemma hex_span:
  assumes "rest = [] \<or> \<not> is_hex (hd rest)"
  shows "takeWhile is_hex (itox g @ rest) = itox g" "dropWhile is_hex (itox g @ rest) = rest"
  using assms show_base_hex [of _ g]
  by (cases rest; simp add: takeWhile_append dropWhile_append)+

lemma length_itox: "g < 65536 \<Longrightarrow> length (itox g) \<le> 4"
  using length_show_base [of 16 g 4] by simp

lemma itox_hd:
  assumes "xs = itox g @ rest"
  shows "\<exists>d ds. xs = d # ds \<and> d \<noteq> CHR '':'' \<and> d \<noteq> CHR ''.''"
proof -
  obtain d ds where d: "itox g = d # ds" using show_base_not_Nil [of 16 g] by (cases "itox g") auto
  then have "is_hex d" using show_base_hex [of d g] by simp
  then show ?thesis using d assms by auto
qed

lemma hex_span_end: "takeWhile is_hex (itox g) = itox g" "dropWhile is_hex (itox g) = []"
  using hex_span [of "[]" g] by simp_all

lemma hex_span_sep:
  "takeWhile is_hex (itox g @ CHR '':'' # s) = itox g"
  "dropWhile is_hex (itox g @ CHR '':'' # s) = CHR '':'' # s"
  using hex_span [of "CHR '':'' # s" g] by simp_all

lemma parse6_loop_last:
  assumes "g < 65536"
  shows "parse6_loop (Suc r) acc ell (itox g) = Some (acc @ [g], ell, [])"
  using length_itox [OF assms] by (simp add: hex_span_end read_show_base)

lemma parse6_loop_ell:
  assumes "g < 65536"
  shows "parse6_loop (Suc r) acc None (itox g @ ''::'' @ rest) =
    (if rest = [] then Some (acc @ [g], Some (Suc (length acc)), [])
     else parse6_loop r (acc @ [g]) (Some (Suc (length acc))) rest)"
  using length_itox [OF assms] by (simp add: hex_span_sep read_show_base)

lemma parse6_loop_next:
  assumes "g < 65536"
  shows "parse6_loop (Suc r) acc ell (itox g @ CHR '':'' # itox h @ rest) =
      parse6_loop r (acc @ [g]) ell (itox h @ rest)"
proof -
  obtain d ds where d: "itox h @ rest = d # ds" "d \<noteq> CHR '':''"
    using itox_hd [of "itox h @ rest" h rest] by auto
  have "parse6_loop (Suc r) acc ell (itox g @ CHR '':'' # d # ds) = parse6_loop r (acc @ [g]) ell (d # ds)"
    using length_itox [OF assms] d(2) by (simp add: hex_span_sep read_show_base)
  then show ?thesis by (simp add: d(1) del: parse6_loop.simps)
qed

lemma parse6_loop_groups:
  assumes "gs \<noteq> []" and "\<forall>g \<in> set gs. g < 65536"
  shows "parse6_loop (length gs + r) acc ell (show_groups gs) = Some (acc @ gs, ell, [])"
  using assms
proof (induction gs arbitrary: acc)
  case (Cons g gs)
  show ?case
  proof (cases gs)
    case Nil
    then show ?thesis using Cons.prems by (simp add: show_groups_Cons parse6_loop_last del: parse6_loop.simps)
  next
    case (Cons h hs)
    then show ?thesis
      using Cons.IH [of "acc @ [g]"] Cons.prems
      by (simp add: show_groups_Cons parse6_loop_next del: parse6_loop.simps)
  qed
qed simp

lemma parse6_loop_groups_ell:
  assumes "gs \<noteq> []" and "\<forall>g \<in> set gs. g < 65536"
  shows "parse6_loop (length gs + r) acc None (show_groups gs @ ''::'' @ rest) =
    (if rest = [] then Some (acc @ gs, Some (length acc + length gs), [])
     else parse6_loop r (acc @ gs) (Some (length acc + length gs)) rest)"
  using assms
proof (induction gs arbitrary: acc)
  case (Cons g gs)
  show ?case
  proof (cases gs)
    case Nil
    then show ?thesis using Cons.prems parse6_loop_ell [of g r acc rest]
      by (simp add: show_groups_Cons del: parse6_loop.simps)
  next
    case (Cons h hs)
    then show ?thesis
      using Cons.IH [of "acc @ [g]"] Cons.prems
      by (simp add: show_groups_Cons parse6_loop_next del: parse6_loop.simps)
  qed
qed simp

lemma zero_run_run:
  assumes "snd (zero_run gs) \<noteq> 0"
  shows "fst (zero_run gs) + snd (zero_run gs) \<le> length gs"
    and "take (snd (zero_run gs)) (drop (fst (zero_run gs)) gs) = replicate (snd (zero_run gs)) 0"
proof -
  let ?P = "\<lambda>r. snd r \<noteq> 0 \<longrightarrow> fst r + snd r \<le> length gs \<and> take (snd r) (drop (fst r) gs) = replicate (snd r) 0"
  have step: "?P (zero_run_step gs i r)" if P: "?P r" for i r
  proof -
    let ?t = "takeWhile (\<lambda>g. g = 0) (drop i gs)"
    have "take (length ?t) (drop i gs) = ?t" by (rule takeWhile_eq_take [symmetric])
    also have "\<dots> = replicate (length ?t) 0" by (rule replicate_eqI) (auto dest: set_takeWhileD)
    finally have run: "take (length ?t) (drop i gs) = replicate (length ?t) 0" .
    have "i + length ?t \<le> length gs" if "2 \<le> length ?t"
      using that length_takeWhile_le [of "\<lambda>g. g = 0" "drop i gs"] by simp
    then show ?thesis using P run by (auto simp: zero_run_step_def Let_def)
  qed
  have "?P (zero_run gs)"
    unfolding zero_run_def
    by (rule fold_invariant [where Q = "\<lambda>_. True"]) (use step in auto)
  then show "fst (zero_run gs) + snd (zero_run gs) \<le> length gs"
    and "take (snd (zero_run gs)) (drop (fst (zero_run gs)) gs) = replicate (snd (zero_run gs)) 0"
    using assms by simp_all
qed

lemma show_groups_eq_Nil [simp]: "show_groups gs = [] \<longleftrightarrow> gs = []"
  by (cases gs) (auto simp: show_groups_Cons)

lemma show_groups_no_lead:
  assumes "gs \<noteq> []"
  shows "\<not> HasPrefix (show_groups gs @ s) ''::''"
proof -
  obtain g hs where "gs = g # hs" using assms by (cases gs) auto
  then obtain d ds where "show_groups gs @ s = d # ds" "d \<noteq> CHR '':''"
    using itox_hd [of "show_groups gs @ s" g] by (auto simp: show_groups_Cons)
  then show ?thesis by (simp add: HasPrefix_def)
qed

lemma show_groups_no_zone: "CHR ''%'' \<notin> set (show_groups gs)"
  using show_groups_chars by fastforce

lemma show6_chars: "c \<in> set (show6 w) \<Longrightarrow> is_hex c \<or> c = CHR '':''"
  by (auto simp: show6_def Let_def dest: show_groups_chars split: if_splits)

lemma show6_no_zone: "CHR ''%'' \<notin> set (show6 w)"
  using show6_chars by fastforce

lemma show6_cases:
  obtains (plain) "show6 w = show_groups (groups w)"
  | (run) st ln where "0 < ln" "st + ln \<le> 8"
      "groups w = take st (groups w) @ replicate ln 0 @ drop (st + ln) (groups w)"
      "show6 w = show_groups (take st (groups w)) @ ''::'' @ show_groups (drop (st + ln) (groups w))"
proof (cases "snd (zero_run (groups w)) = 0")
  case True
  then show ?thesis using plain by (simp add: show6_def Let_def)
next
  case False
  let ?st = "fst (zero_run (groups w))" and ?ln = "snd (zero_run (groups w))"
  have "groups w = take ?st (groups w) @ take ?ln (drop ?st (groups w)) @ drop ?ln (drop ?st (groups w))"
    by (simp only: append_take_drop_id)
  then have "groups w = take ?st (groups w) @ replicate ?ln 0 @ drop (?st + ?ln) (groups w)"
    unfolding zero_run_run(2) [OF False] drop_drop by (simp only: add.commute)
  then show ?thesis
    using False zero_run_run(1) [OF False] by (intro run [of ?ln ?st]) (simp_all add: show6_def Let_def)
qed

lemma parse6_no_zone:
  assumes "CHR ''%'' \<notin> set s"
  shows "parse6 s =
    (let lead = HasPrefix s ''::''; s' = (if lead then drop 2 s else s) in
     if lead \<and> s' = [] then Some (Addr6 0 [])
     else case parse6_loop 8 [] (if lead then Some 0 else None) s' of
         None \<Rightarrow> None
       | Some (gs, ell, rest) \<Rightarrow>
           if rest \<noteq> [] then None
           else map_option (\<lambda>g. Addr6 (word_of_nat (undigits 65536 g)) []) (expand6 gs ell))"
proof -
  have "takeWhile (\<lambda>c. c \<noteq> CHR ''%'') s = s" "dropWhile (\<lambda>c. c \<noteq> CHR ''%'') s = []"
    using assms by (auto simp: takeWhile_eq_all_conv dropWhile_eq_Nil_conv)
  then show ?thesis unfolding parse6_def by (simp only: Let_def list.simps simp_thms list.sel if_False)
qed

lemma parse6_loop_plain:
  assumes "parse6_loop 8 [] None s = Some (gs, ell, [])" and "expand6 gs ell = Some (groups w)"
    and "CHR ''%'' \<notin> set s" and "\<not> HasPrefix s ''::''"
  shows "parse6 s = Some (Addr6 w [])"
  using assms by (simp add: parse6_no_zone)

lemma parse6_loop_lead:
  assumes "parse6_loop 8 [] (Some 0) s = Some (gs, ell, [])" and "expand6 gs ell = Some (groups w)"
    and "CHR ''%'' \<notin> set s" and "s \<noteq> []"
  shows "parse6 (''::'' @ s) = Some (Addr6 w [])"
proof -
  have "HasPrefix (''::'' @ s) ''::''" by (simp add: HasPrefix_def)
  then show ?thesis using assms by (simp add: parse6_no_zone)
qed

lemma parse6_show6: "parse6 (show6 w) = Some (Addr6 w [])"
proof (cases w rule: show6_cases)
  case plain
  have "parse6_loop 8 [] None (show6 w) = Some (groups w, None, [])"
    using parse6_loop_groups [of "groups w" 0 "[]" None] groups_less plain by auto
  then show ?thesis
    by (rule parse6_loop_plain)
      (use show_groups_no_lead [OF groups_not_Nil, of w "[]"] show6_no_zone [of w] plain
       in \<open>simp_all add: expand6_def\<close>)
next
  case (run st ln)
  let ?a = "take st (groups w)" and ?b = "drop (st + ln) (groups w)"
  have less: "\<forall>g \<in> set ?a. g < 65536" "\<forall>g \<in> set ?b. g < 65536"
    using groups_less by (auto dest: in_set_takeD in_set_dropD)
  have len: "length ?a = st" "length ?b = 8 - st - ln" using run(2) by simp_all
  have ex: "expand6 (?a @ ?b) (Some st) = Some (groups w)"
    using run(1,2) by (simp add: expand6_def flip: run(3))
  have b: "parse6_loop (8 - st) ?a (Some st) (show_groups ?b) = Some (?a @ ?b, Some st, [])" if "?b \<noteq> []"
    using parse6_loop_groups [OF that less(2), of ln ?a "Some st"] run(2) len(2) by simp
  show ?thesis
  proof (cases "st = 0")
    case True
    show ?thesis
    proof (cases "?b = []")
      case True
      then have "ln = 8" using \<open>st = 0\<close> run(2) by simp
      note run(3)
      also have "take st (groups w) @ replicate ln 0 @ ?b = replicate 8 0"
        using True \<open>st = 0\<close> \<open>ln = 8\<close> by simp
      finally have "groups w = replicate 8 0" .
      then have "undigits 65536 (groups w) = 0" by (simp only: undigits_zeros)
      then have "w = 0" using of_groups_groups [of w] by simp
      moreover have "show6 w = ''::''" using \<open>st = 0\<close> True run(4) by simp
      ultimately show ?thesis by (simp add: parse6_def HasPrefix_def)
    next
      case False
      then show ?thesis
        using b [OF False] ex \<open>st = 0\<close> run(4) show_groups_no_zone
          parse6_loop_lead [of "show_groups ?b" ?b "Some 0" w] by simp
    qed
  next
    case False
    then have a: "?a \<noteq> []" by simp
    have "parse6_loop 8 [] None (show6 w) = Some (?a @ ?b, Some st, [])"
      using parse6_loop_groups_ell [OF a less(1), of "8 - st" "[]" "show_groups ?b"] run(2,4) len b
      by (auto split: if_splits)
    then show ?thesis
      by (rule parse6_loop_plain)
        (use ex show_groups_no_lead [OF a] show6_no_zone [of w] run(4) in simp_all)
  qed
qed

subsection \<open>Addresses and prefixes\<close>

lemma first_sep:
  assumes "\<forall>c \<in> set p. c \<notin> {CHR ''.'', CHR '':'', CHR ''%''}" and "x \<in> {CHR ''.'', CHR '':'', CHR ''%''}"
  shows "dropWhile (\<lambda>c. c \<notin> {CHR ''.'', CHR '':'', CHR ''%''}) (p @ x # s) = x # s"
  using assms by (auto simp: dropWhile_append3)

lemma ParseAddr_show4: "ParseAddr (show4 w) = Some (Addr4 w)"
proof -
  obtain a rest where "octets w = a # rest" and "rest \<noteq> []"
    by (cases "octets w"; cases "tl (octets w)") (auto simp: octets_def dest: arg_cong [of _ _ length])
  then have s: "show4 w = itoa a @ CHR ''.'' # Join ''.'' (map itoa rest)"
    by (cases rest) (auto simp: show4_def)
  have "c \<notin> {CHR ''.'', CHR '':'', CHR ''%''}" if "c \<in> set (itoa a)" for c
    using show_base_dec [OF that] by auto
  then show ?thesis
    using parse4_show4 [of w] unfolding ParseAddr_def by (simp add: s first_sep)
qed

lemma ParseAddr_hex_colon:
  assumes "\<forall>c \<in> set s. is_hex c \<or> c = CHR '':''" and "CHR '':'' \<in> set s"
  shows "ParseAddr s = parse6 s"
proof -
  obtain p t where s: "s = p @ CHR '':'' # t" and p: "CHR '':'' \<notin> set p"
    using assms(2) by (auto dest: split_list_first)
  have "\<forall>c \<in> set p. c \<notin> {CHR ''.'', CHR '':'', CHR ''%''}"
    using assms(1) p s not_hex_sep by (metis Un_iff insert_iff set_append singletonD empty_iff)
  then show ?thesis
    unfolding ParseAddr_def by (simp add: s first_sep)
qed

lemma show6_colon: "CHR '':'' \<in> set (show6 w)"
proof (cases w rule: show6_cases)
  case plain
  obtain g h gs where "groups w = g # h # gs"
    by (cases "groups w"; cases "tl (groups w)") (auto dest: arg_cong [of _ _ length] simp: groups_def)
  then show ?thesis by (simp add: plain show_groups_Cons)
next
  case (run st ln)
  then show ?thesis by simp
qed

text \<open>Printing an address and parsing it back gives the address.\<close>

theorem ParseAddr_String:
  assumes "case a of AddrZero \<Rightarrow> False | Addr4 w \<Rightarrow> True | Addr6 w z \<Rightarrow> z = [] \<and> \<not> is4in6 w"
  shows "ParseAddr (addr_String a) = Some a"
proof (cases a)
  case (Addr6 w z)
  then have "addr_String a = show6 w" and z: "z = []" using assms by simp_all
  then show ?thesis
    using ParseAddr_hex_colon [of "show6 w"] show6_chars [of _ w] show6_colon [of w] parse6_show6 [of w]
    by (auto simp: Addr6)
qed (use assms in \<open>simp_all add: ParseAddr_show4\<close>)

lemma addr_String_no_slash:
  assumes "case a of AddrZero \<Rightarrow> False | Addr4 w \<Rightarrow> True | Addr6 w z \<Rightarrow> z = [] \<and> \<not> is4in6 w"
  shows "CHR ''/'' \<notin> set (addr_String a)"
proof (cases a)
  case (Addr4 w)
  have "CHR ''/'' \<notin> set (Join ''.'' (map itoa ds))" for ds
    by (induction ds rule: induct_list012) (auto simp: itoa_free)
  then show ?thesis by (simp add: Addr4 show4_def)
next
  case (Addr6 w z)
  then show ?thesis using assms show6_chars [of "CHR ''/''" w] by auto
qed (use assms in simp_all)

theorem ParsePrefix_String:
  assumes "case a of AddrZero \<Rightarrow> False | Addr4 w \<Rightarrow> True | Addr6 w z \<Rightarrow> z = [] \<and> \<not> is4in6 w"
    and "int n \<le> BitLen a"
  shows "ParsePrefix (addr_String a @ ''/'' @ itoa n) = Some (Prefix a (int n))"
proof -
  let ?s = "addr_String a @ ''/'' @ itoa n"
  have no: "CHR ''/'' \<notin> set (itoa n)" by (simp add: itoa_free)
  have "takeWhile (\<lambda>c. c \<noteq> CHR ''/'') (rev ?s) = rev (itoa n)"
    and "dropWhile (\<lambda>c. c \<noteq> CHR ''/'') (rev ?s) = CHR ''/'' # rev (addr_String a)"
    using no by (auto simp: takeWhile_append dropWhile_append3)
  moreover have "list_all is_dec (itoa n)" by (auto simp: list_all_iff show_base_dec)
  moreover have "hd (itoa n) \<noteq> CHR ''0''" if "1 < length (itoa n)"
    using that by (rule itoa_no_leading_zero)
  moreover have "\<not> (case a of Addr6 _ z \<Rightarrow> z \<noteq> [] | _ \<Rightarrow> False)" using assms(1) by (cases a) auto
  ultimately show ?thesis
    using ParseAddr_String [OF assms(1)] assms(2)
    by (auto simp: ParsePrefix_def Let_def read_show_base)
qed

end
