(* ===== verification/CidrSet.thy ===== *)
theory CidrSet
  imports GoNetText
begin

text \<open>
  \<^verbatim>\<open>pkg/nodeipam/ipam/cidrset/cidr_set.go\<close>: a pool of equally sized node CIDRs cut out of one
  cluster CIDR, with a bitmap of the blocks in use, a count of them and a rotating candidate.

  The mutex of the source makes \<^verbatim>\<open>AllocateNext\<close> and the loops of \<^verbatim>\<open>Release\<close> and \<^verbatim>\<open>Occupy\<close>
  atomic, so every method is one function on the state. The Prometheus series of the set's
  label are part of the state; the usage gauge is kept as the fraction whose floating point
  quotient the source stores.
\<close>

section \<open>State\<close>

datatype cidr_error =
    ErrCIDRRangeNoCIDRsRemaining
  | ErrCIDRSetSubNetTooBig
  | ErrCidrNil IPNet
  | ErrOutOfClusterRange IPNet IPNet
  | ErrOutOfAllocatorRange IP int
  | ErrInvalidIP IP

record cidr_metrics =
  allocations_total :: nat
  releases_total :: nat
  max_cidrs :: int
  usage_cidrs :: "int \<times> int"
  tries_per_request :: "nat list"

record CidrSet =
  clusterCIDR :: IPNet
  clusterMaskSize :: int
  nodeMask :: IPMask
  nodeMaskSize :: int
  maxCIDRs :: int
  allocatedCIDRs :: int
  nextCandidate :: int
  used :: nat
  label :: string
  cs_metrics :: cidr_metrics

definition clusterSubnetMaxDiff :: int where
  "clusterSubnetMaxDiff = 16"

definition halfIPv6Len :: int where
  "halfIPv6Len = 8"

section \<open>Operations\<close>

definition getMaxCIDRs :: "int \<Rightarrow> int \<Rightarrow> int" where
  "getMaxCIDRs subNetMaskSize clusterMaskSz =
     sint (shl (1::u64) (to_u32 (subNetMaskSize - clusterMaskSz)))"

definition NewCIDRSet :: "IPNet \<Rightarrow> int \<Rightarrow> (cidr_error, CidrSet) outcome" where
  "NewCIDRSet cluster subNetMaskSize =
     (let (clusterMaskSz, bits) = mask_Size (net_Mask cluster) in
      if To4 (net_IP cluster) = None \<and> subNetMaskSize - clusterMaskSz > clusterSubnetMaxDiff
      then Err ErrCIDRSetSubNetTooBig
      else let maxC = getMaxCIDRs subNetMaskSize clusterMaskSz in
        Ret \<lparr>clusterCIDR = cluster, clusterMaskSize = clusterMaskSz,
             nodeMask = CIDRMask subNetMaskSize bits, nodeMaskSize = subNetMaskSize,
             maxCIDRs = maxC, allocatedCIDRs = 0, nextCandidate = 0, used = 0,
             label = net_String cluster,
             cs_metrics = \<lparr>allocations_total = 0, releases_total = 0, max_cidrs = maxC,
                           usage_cidrs = (0, 1), tries_per_request = []\<rparr>\<rparr>)"

text \<open>\<^verbatim>\<open>64 - bits.LeadingZeros64(x)\<close>.\<close>

definition bits_Len64 :: "u64 \<Rightarrow> nat" where
  "bits_Len64 x = length (dropWhile Not (map (bit x) (rev [0..<64])))"

definition indexToCIDRBlock :: "CidrSet \<Rightarrow> int \<Rightarrow> IPNet" where
  "indexToCIDRBlock s index =
     (let v4 = (\<lambda>c. IP4 (c OR shl (word_of_int index) (to_u32 (32 - nodeMaskSize s))));
          v6 = (\<lambda>leftClusterIP rightClusterIP.
            if nodeMaskSize s \<le> 64 then
              IP16 (join64 (leftClusterIP OR shl (word_of_int index) (to_u64 (64 - nodeMaskSize s)))
                           rightClusterIP)
            else
              let btl = to_u64 (nodeMaskSize s - 64);
                  indexMaxBit = bits_Len64 (word_of_int index);
                  left = (if clusterMaskSize s < 64 \<and> indexMaxBit > btl
                          then leftClusterIP OR shr (word_of_int index) btl else leftClusterIP);
                  right = rightClusterIP OR shl (word_of_int index) (to_u64 (128 - nodeMaskSize s))
              in IP16 (join64 left right));
          ip = (case net_IP (clusterCIDR s) of
                  IP4 c \<Rightarrow> v4 c
                | IP16 c \<Rightarrow> if is4in6 c then v4 (ucast (drop_bit 96 c)) else v6 (hi64 c) (lo64 c)
                | IPnil \<Rightarrow> IPnil)
      in \<lparr>net_IP = ip, net_Mask = nodeMask s\<rparr>)"

text \<open>
  The search of \<^verbatim>\<open>AllocateNext\<close>: at most \<^verbatim>\<open>maxCIDRs\<close> probes, starting at the candidate and
  wrapping around; the result is the candidate it stops at and the number of probes that failed.
\<close>

fun find_free :: "nat \<Rightarrow> nat \<Rightarrow> int \<Rightarrow> int \<Rightarrow> nat \<Rightarrow> (int \<times> nat) option" where
  "find_free 0 u m candidate i = Some (candidate, i)"
| "find_free (Suc r) u m candidate i =
     (if \<not> bit u (nat candidate) then Some (candidate, i)
      else case go_rem (candidate + 1) m of
        None \<Rightarrow> None
      | Some c \<Rightarrow> find_free r u m c (Suc i))"

definition AllocateNext :: "CidrSet \<Rightarrow> (cidr_error, IPNet \<times> CidrSet) outcome" where
  "AllocateNext s =
     (if allocatedCIDRs s = maxCIDRs s then Err ErrCIDRRangeNoCIDRsRemaining
      else bind_out (or_panic (find_free (nat (maxCIDRs s)) (used s) (maxCIDRs s) (nextCandidate s) 0))
        (\<lambda>(candidate, i). bind_out (or_panic (go_rem (candidate + 1) (maxCIDRs s))) (\<lambda>nxt.
          let m = cs_metrics s;
              s' = s\<lparr>nextCandidate := nxt,
                     used := set_bit (nat candidate) (used s),
                     allocatedCIDRs := allocatedCIDRs s + 1,
                     cs_metrics := m\<lparr>allocations_total := allocations_total m + 1,
                                     tries_per_request := tries_per_request m @ [i],
                                     usage_cidrs := (allocatedCIDRs s + 1, maxCIDRs s)\<rparr>\<rparr>
          in Ret (indexToCIDRBlock s' candidate, s'))))"

definition getIndexForIP :: "CidrSet \<Rightarrow> IP \<Rightarrow> (cidr_error, int) outcome" where
  "getIndexForIP s ip =
     (case To4 ip of
        Some a \<Rightarrow>
          bind_out (or_panic (ip_Uint32 (net_IP (clusterCIDR s)))) (\<lambda>c.
            let cidrIndex = shr (c XOR a) (to_u32 (32 - nodeMaskSize s)) in
            if cidrIndex \<ge> word_of_int (maxCIDRs s) then Err (ErrOutOfAllocatorRange ip (nodeMaskSize s))
            else Ret (uint cidrIndex))
      | None \<Rightarrow>
          (case To16 ip of
             Some _ \<Rightarrow>
               let bigIP = ip_big (net_IP (clusterCIDR s)) XOR ip_big ip;
                   cidrIndexBig = drop_bit (to_u64 (128 - nodeMaskSize s)) bigIP;
                   cidrIndex = (word_of_nat cidrIndexBig :: u64)
               in if cidrIndex \<ge> word_of_int (maxCIDRs s)
                  then Err (ErrOutOfAllocatorRange ip (nodeMaskSize s))
                  else Ret (sint cidrIndex)
           | None \<Rightarrow> Err (ErrInvalidIP ip)))"

text \<open>The last address of a network, as \<^verbatim>\<open>getBeginningAndEndIndices\<close> computes it.\<close>

definition lastIP :: "IPNet \<Rightarrow> IP option" where
  "lastIP cidr =
     (case To4 (net_IP cidr) of
        Some _ \<Rightarrow>
          (case (ip_Uint32 (net_IP cidr), mask_Uint32 (net_Mask cidr)) of
             (Some a, Some m) \<Rightarrow> Some (IP4 (a OR NOT m))
           | _ \<Rightarrow> None)
      | None \<Rightarrow>
          (case (ip_halves (net_IP cidr), mask_halves (net_Mask cidr)) of
             (Some (l, r), Some (ml, mr)) \<Rightarrow> Some (IP16 (join64 (l OR NOT ml) (r OR NOT mr)))
           | _ \<Rightarrow> None))"

definition getBeginningAndEndIndices :: "CidrSet \<Rightarrow> IPNet option \<Rightarrow> (cidr_error, int \<times> int) outcome"
where
  "getBeginningAndEndIndices s cidrp =
     (case cidrp of
        None \<Rightarrow> Err (ErrCidrNil (clusterCIDR s))
      | Some cidr \<Rightarrow>
          let (maskSize, _) = mask_Size (net_Mask cidr); cluster = clusterCIDR s in
          if \<not> net_Contains cluster (ip_Mask (net_IP cidr) (net_Mask cluster)) \<and>
             \<not> net_Contains cidr (ip_Mask (net_IP cluster) (net_Mask cidr))
          then Err (ErrOutOfClusterRange cidr cluster)
          else if clusterMaskSize s < maskSize then
            bind_out (getIndexForIP s (ip_Mask (net_IP cidr) (nodeMask s))) (\<lambda>bgn.
              bind_out (or_panic (lastIP cidr)) (\<lambda>ip.
                bind_out (getIndexForIP s (ip_Mask ip (nodeMask s))) (\<lambda>lst. Ret (bgn, lst))))
          else Ret (0, maxCIDRs s - 1))"

fun release_loop :: "nat \<Rightarrow> int \<Rightarrow> CidrSet \<Rightarrow> CidrSet" where
  "release_loop 0 i s = s"
| "release_loop (Suc r) i s =
     release_loop r (i + 1)
       (if bit (used s) (nat i) then
          s\<lparr>used := unset_bit (nat i) (used s), allocatedCIDRs := allocatedCIDRs s - 1,
            cs_metrics := (cs_metrics s)\<lparr>releases_total := releases_total (cs_metrics s) + 1\<rparr>\<rparr>
        else s)"

fun occupy_loop :: "nat \<Rightarrow> int \<Rightarrow> CidrSet \<Rightarrow> CidrSet" where
  "occupy_loop 0 i s = s"
| "occupy_loop (Suc r) i s =
     occupy_loop r (i + 1)
       (if \<not> bit (used s) (nat i) then
          s\<lparr>used := set_bit (nat i) (used s), allocatedCIDRs := allocatedCIDRs s + 1,
            cs_metrics := (cs_metrics s)\<lparr>allocations_total := allocations_total (cs_metrics s) + 1\<rparr>\<rparr>
        else s)"

definition set_usage :: "CidrSet \<Rightarrow> CidrSet" where
  "set_usage s = s\<lparr>cs_metrics := (cs_metrics s)\<lparr>usage_cidrs := (allocatedCIDRs s, maxCIDRs s)\<rparr>\<rparr>"

definition Release :: "CidrSet \<Rightarrow> IPNet option \<Rightarrow> (cidr_error, CidrSet) outcome" where
  "Release s cidr =
     bind_out (getBeginningAndEndIndices s cidr) (\<lambda>(bgn, lst).
       Ret (set_usage (release_loop (nat (lst - bgn + 1)) bgn s)))"

definition Occupy :: "CidrSet \<Rightarrow> IPNet option \<Rightarrow> (cidr_error, CidrSet) outcome" where
  "Occupy s cidr =
     bind_out (getBeginningAndEndIndices s cidr) (\<lambda>(bgn, lst).
       Ret (set_usage (occupy_loop (nat (lst - bgn + 1)) bgn s)))"

text \<open>\<^verbatim>\<open>%d\<close> of an \<^verbatim>\<open>int\<close>.\<close>

definition show_int :: "int \<Rightarrow> string" where
  "show_int i = (if i < 0 then ''-'' @ itoa (nat (- i)) else itoa (nat i))"

definition cidrset_String :: "CidrSet \<Rightarrow> string" where
  "cidrset_String s =
     ''CIDRSet{used: '' @ show_int (allocatedCIDRs s) @ '', max: '' @ show_int (maxCIDRs s) @ ''}''"

end
