(* ===== verification/CidrGeometry.thy ===== *)
theory CidrGeometry
  imports CidrSet
begin

text \<open>
  The address arithmetic of \<^verbatim>\<open>cidr_set.go\<close>: the 32-bit and the two-halves code computes the
  reference functions of \<open>PrefixSpec\<close>, for IPv4 and for IPv6 clusters of any mask. The
  conclusions are then stated without mentioning the family, with the code's own
  \<^verbatim>\<open>IPNet.Contains\<close> as the meaning of a network: the blocks of a set partition the cluster
  CIDR, and the indices that \<^verbatim>\<open>Occupy\<close> and \<^verbatim>\<open>Release\<close> work on are those of the blocks that
  overlap the given CIDR.
\<close>

section \<open>Well-formed sets\<close>

abbreviation net4 :: "u32 \<Rightarrow> nat \<Rightarrow> IPNet" where
  "net4 v m \<equiv> \<lparr>net_IP = IP4 v, net_Mask = Mask4 (prefix_mask m)\<rparr>"

abbreviation net6 :: "u128 \<Rightarrow> nat \<Rightarrow> IPNet" where
  "net6 v m \<equiv> \<lparr>net_IP = IP16 v, net_Mask = Mask16 (prefix_mask m)\<rparr>"

text \<open>
  A network as \<^verbatim>\<open>net.ParseCIDR\<close> returns it: a prefix mask, no host bits, and the 4-byte form
  for IPv4.
\<close>

definition canon_net :: "IPNet \<Rightarrow> bool" where
  "canon_net n =
     (case (net_IP n, net_Mask n) of
        (IP4 v, Mask4 k) \<Rightarrow> (case simpleMaskLength k of Some m \<Rightarrow> net_base v m | None \<Rightarrow> False)
      | (IP16 v, Mask16 k) \<Rightarrow>
          (case simpleMaskLength k of Some m \<Rightarrow> net_base v m \<and> \<not> is4in6 v | None \<Rightarrow> False)
      | _ \<Rightarrow> False)"

text \<open>An IPv6 network without IPv4-mapped addresses.\<close>

definition no4in6 :: "u128 \<Rightarrow> nat \<Rightarrow> bool" where
  "no4in6 w c \<longleftrightarrow> \<not> is4in6 w \<and> drop_bit (128 - c) (push_bit 32 0xffff) \<noteq> drop_bit (128 - c) w"

definition geom4 :: "CidrSet \<Rightarrow> u32 \<Rightarrow> nat \<Rightarrow> nat \<Rightarrow> bool" where
  "geom4 s w c n \<longleftrightarrow>
     clusterCIDR s = net4 w c \<and> net_base w c \<and> c \<le> n \<and> n \<le> 32 \<and> n - c < 32 \<and>
     clusterMaskSize s = int c \<and> nodeMaskSize s = int n \<and> nodeMask s = Mask4 (prefix_mask n) \<and>
     maxCIDRs s = 2 ^ (n - c)"

definition geom6 :: "CidrSet \<Rightarrow> u128 \<Rightarrow> nat \<Rightarrow> nat \<Rightarrow> bool" where
  "geom6 s w c n \<longleftrightarrow>
     clusterCIDR s = net6 w c \<and> net_base w c \<and> no4in6 w c \<and> c \<le> n \<and> n \<le> 128 \<and> n - c \<le> 16 \<and>
     clusterMaskSize s = int c \<and> nodeMaskSize s = int n \<and> nodeMask s = Mask16 (prefix_mask n) \<and>
     maxCIDRs s = 2 ^ (n - c)"

definition cidr_geom :: "CidrSet \<Rightarrow> bool" where
  "cidr_geom s =
     (case net_IP (clusterCIDR s) of
        IP4 w \<Rightarrow> geom4 s w (nat (clusterMaskSize s)) (nat (nodeMaskSize s))
      | IP16 w \<Rightarrow> geom6 s w (nat (clusterMaskSize s)) (nat (nodeMaskSize s))
      | IPnil \<Rightarrow> False)"

text \<open>Two networks overlap when some address is in both.\<close>

definition overlap :: "IPNet \<Rightarrow> IPNet \<Rightarrow> bool" where
  "overlap a b \<longleftrightarrow> (\<exists>ip. net_Contains a ip \<and> net_Contains b ip)"

lemma cidr_geom_cases:
  assumes "cidr_geom s"
  obtains (v4) w c n where "geom4 s w c n" | (v6) w c n where "geom6 s w c n"
  using assms by (auto simp: cidr_geom_def split: IP.splits)

lemma cidr_geomI4: "geom4 s w c n \<Longrightarrow> cidr_geom s"
  by (simp add: cidr_geom_def geom4_def)

lemma cidr_geomI6: "geom6 s w c n \<Longrightarrow> cidr_geom s"
  by (simp add: cidr_geom_def geom6_def)

lemma simpleMaskLength_Some:
  assumes "simpleMaskLength (k::'a::len word) = Some m"
  shows "k = prefix_mask m" and "m \<le> LENGTH('a)"
proof -
  obtain i where i: "i < length [0..<LENGTH('a) + 1]" "prefix_mask ([0..<LENGTH('a) + 1] ! i) = k"
    "m = [0..<LENGTH('a) + 1] ! i"
    using assms unfolding simpleMaskLength_def find_Some_iff by blast
  then have "m = i" by (simp del: upt_Suc)
  then show "k = prefix_mask m" and "m \<le> LENGTH('a)" using i by auto
qed

lemma canon_net_cases:
  assumes "canon_net n"
  obtains (v4) v m where "n = net4 v m" "net_base v m" "m \<le> 32"
  | (v6) v m where "n = net6 v m" "net_base v m" "m \<le> 128" "\<not> is4in6 v"
proof (cases "net_IP n")
  case (IP4 v)
  then obtain k m where "n = \<lparr>net_IP = IP4 v, net_Mask = Mask4 k\<rparr>" "simpleMaskLength k = Some m" "net_base v m"
    using assms by (cases n) (auto simp: canon_net_def split: IPMask.splits option.splits)
  then show ?thesis using v4 simpleMaskLength_Some [of k m] by simp
next
  case (IP16 v)
  then obtain k m where "n = \<lparr>net_IP = IP16 v, net_Mask = Mask16 k\<rparr>" "simpleMaskLength k = Some m"
    "net_base v m" "\<not> is4in6 v"
    using assms by (cases n) (auto simp: canon_net_def split: IPMask.splits option.splits)
  then show ?thesis using v6 simpleMaskLength_Some [of k m] by simp
qed (use assms in \<open>simp add: canon_net_def\<close>)

lemma canon_net4 [simp]: "m \<le> 32 \<Longrightarrow> canon_net (net4 v m) \<longleftrightarrow> net_base v m"
  by (simp add: canon_net_def)

lemma canon_net6 [simp]: "m \<le> 128 \<Longrightarrow> canon_net (net6 v m) \<longleftrightarrow> net_base v m \<and> \<not> is4in6 v"
  by (simp add: canon_net_def)

lemma no4in6_addr:
  assumes "no4in6 w c" and "a \<in> net_addrs w c"
  shows "\<not> is4in6 a"
proof
  assume "is4in6 a"
  then have a: "drop_bit 32 a = 0xffff" by (simp add: is4in6_def)
  let ?b = "push_bit 32 0xffff :: u128"
  have b: "drop_bit 32 ?b = 0xffff" by simp
  show False
  proof (cases "c \<le> 96")
    case True
    have "?b \<in> net_addrs a 96" using a b by (simp add: net_addrs_def)
    then have "?b \<in> net_addrs w c"
      using net_addrs_mono [OF True, of a] net_addrs_cong [OF assms(2)] by auto
    then show False using assms(1) by (simp add: no4in6_def net_addrs_def)
  next
    case False
    then have "w \<in> net_addrs a 96"
      using assms(2) net_addrs_mono [of 96 c w] net_addrs_cong [of a w 96] by fastforce
    then have "is4in6 w" using a by (simp add: net_addrs_def is4in6_def)
    then show False using assms(1) by (simp add: no4in6_def net_addrs_def)
  qed
qed

section \<open>The meaning of a network\<close>

lemma net_Contains4:
  "net_Contains (net4 v m) ip \<longleftrightarrow> (\<exists>a. To4 ip = Some a \<and> a \<in> net_addrs v m)"
  by (cases ip) (auto simp: net_Contains_def networkNumberAndMask_def and_prefix_mask_eq_iff)

lemma net_Contains6:
  assumes "\<not> is4in6 v"
  shows "net_Contains (net6 v m) ip \<longleftrightarrow> (\<exists>a. ip = IP16 a \<and> \<not> is4in6 a \<and> a \<in> net_addrs v m)"
  using assms
  by (cases ip) (auto simp: net_Contains_def networkNumberAndMask_def and_prefix_mask_eq_iff)

lemma overlap4: "overlap (net4 v m) (net4 u k) \<longleftrightarrow> net_addrs v m \<inter> net_addrs u k \<noteq> {}"
proof -
  have "To4 (IP4 a) = Some a" for a by simp
  then show ?thesis unfolding overlap_def net_Contains4 by (metis disjoint_iff option.inject)
qed

lemma overlap6:
  assumes "no4in6 v m" and "\<not> is4in6 u"
  shows "overlap (net6 v m) (net6 u k) \<longleftrightarrow> net_addrs v m \<inter> net_addrs u k \<noteq> {}"
proof -
  have "\<not> is4in6 v" using assms(1) by (simp add: no4in6_def)
  then show ?thesis
    unfolding overlap_def net_Contains6 [OF \<open>\<not> is4in6 v\<close>] net_Contains6 [OF assms(2)]
    using no4in6_addr [OF assms(1)] by blast
qed

lemma overlap46:
  assumes "\<not> is4in6 u"
  shows "\<not> overlap (net4 v m) (net6 u k)" and "\<not> overlap (net6 u k) (net4 v m)"
  unfolding overlap_def net_Contains4 net_Contains6 [OF assms] by auto

section \<open>Blocks\<close>

lemma length_dropWhile_hit:
  "k < length xs \<Longrightarrow> xs ! k \<Longrightarrow> length xs - k \<le> length (dropWhile Not xs)"
proof (induction xs arbitrary: k)
  case (Cons x xs)
  then show ?case by (cases k) fastforce+
qed simp

lemma bit_bits_Len64: "bit x k \<Longrightarrow> k < bits_Len64 x"
proof -
  assume b: "bit x k"
  then have k: "k < 64" by (auto dest: bit_imp_le_length)
  let ?xs = "rev [0..<64] :: nat list"
  have len: "length ?xs = 64" by simp
  have "?xs ! (63 - k) = k"
    using k by (subst rev_nth) simp_all
  then have "map (bit x) ?xs ! (63 - k)" using b k len by (subst nth_map) simp_all
  then show ?thesis
    using length_dropWhile_hit [of "63 - k" "map (bit x) ?xs"] k
    unfolding bits_Len64_def length_map len by (auto simp: Suc_le_eq)
qed

lemma join_left_half:
  assumes "n \<le> 64"
  shows "join64 (hi64 w OR push_bit (64 - n) (word_of_nat i)) (lo64 w) = sub_base w n i"
proof (rule bit_word_eqI)
  fix k assume k: "k < LENGTH(128)"
  have "bit (join64 (hi64 w OR push_bit (64 - n) (word_of_nat i)) (lo64 w)) k =
      (bit w k \<or> (128 - n \<le> k \<and> bit i (k - (128 - n))))"
  proof (cases "k < 64")
    case True
    then have "\<not> 128 - n \<le> k" using assms by simp
    then show ?thesis using True by (simp add: bit_facts)
  next
    case False
    then have "k - 64 - (64 - n) = k - (128 - n)" "64 - n \<le> k - 64 \<longleftrightarrow> 128 - n \<le> k" "64 + (k - 64) = k"
      using assms by auto
    then show ?thesis using False k by (auto simp: bit_facts bit_simps)
  qed
  then show "bit (join64 (hi64 w OR push_bit (64 - n) (word_of_nat i)) (lo64 w)) k = bit (sub_base w n i) k"
    using k by (simp add: bit_sub_base)
qed

lemma join_both_halves:
  assumes n: "64 < n" "n \<le> 128" and i: "i < 2 ^ 64"
  shows "join64 (hi64 w OR drop_bit (n - 64) (word_of_nat i)) (lo64 w OR push_bit (128 - n) (word_of_nat i)) =
    sub_base w n i"
    (is "?j = _")
proof (rule bit_word_eqI)
  fix k assume k: "k < LENGTH(128)"
  have "bit ?j k = (bit w k \<or> (128 - n \<le> k \<and> bit i (k - (128 - n))))"
  proof (cases "k < 64")
    case True
    then show ?thesis using n by (auto simp: bit_facts bit_simps)
  next
    case False
    have idx: "n - 64 + (k - 64) = k - (128 - n)" "128 - n \<le> k" using False n by auto
    have "bit (drop_bit (n - 64) (word_of_nat i :: u64)) (k - 64) = bit i (k - (128 - n))"
      using bit_nat_bound [OF _ i] unfolding bit_drop_bit_eq comp_def idx(1) by (auto simp: bit_simps)
    moreover have "k - 64 < 64" "64 + (k - 64) = k" using False k by auto
    ultimately show ?thesis using False k idx(2) by (simp add: bit_facts bit_or_iff)
  qed
  then show "bit ?j k = bit (sub_base w n i) k" using k by (simp add: bit_sub_base)
qed

lemma block4:
  assumes "geom4 s w c n"
  shows "indexToCIDRBlock s (int i) = net4 (sub_base w n i) n"
  using assms by (simp add: geom4_def indexToCIDRBlock_def sub_base_def nat_diff_distrib)

lemma block6:
  assumes g: "geom6 s w c n" and i: "i < 2 ^ (n - c)"
  shows "indexToCIDRBlock s (int i) = net6 (sub_base w n i) n"
proof -
  have n: "c \<le> n" "n \<le> 128" and ms: "nodeMaskSize s = int n" "clusterMaskSize s = int c"
    using g by (simp_all add: geom6_def)
  have not46: "\<not> is4in6 w" using g by (simp add: geom6_def no4in6_def)
  have high: "\<not> bit i k" if "n - c \<le> k" for k
    using bit_nat_bound [OF _ i, of k] that by auto
  have "(2::nat) ^ (n - c) \<le> 2 ^ 16" using g by (intro power_increasing) (simp_all add: geom6_def)
  then have i64: "i < 2 ^ 64" using i by simp
  have "net_IP (indexToCIDRBlock s (int i)) = IP16 (sub_base w n i)"
  proof (cases "n \<le> 64")
    case True
    then show ?thesis
      using g ms not46 join_left_half [OF True, of w i]
      by (simp add: geom6_def indexToCIDRBlock_def nat_diff_distrib)
  next
    case False
    then have shifts: "to_u64 (int n - 64) = n - 64" "to_u64 (128 - int n) = 128 - n"
      using n by (simp_all add: nat_diff_distrib)
    have left: "(if c < 64 \<and> n - 64 < bits_Len64 (word_of_nat i)
        then hi64 w OR shr (word_of_int (int i)) (n - 64) else hi64 w)
        = hi64 w OR drop_bit (n - 64) (word_of_nat i)"
    proof (cases "c < 64 \<and> n - 64 < bits_Len64 (word_of_nat i)")
      case no: False
      have "drop_bit (n - 64) (word_of_nat i :: u64) = 0"
      proof (rule bit_word_eqI)
        fix k
        have "\<not> bit (word_of_nat i :: u64) (n - 64 + k)"
          using no bit_bits_Len64 [of "word_of_nat i" "n - 64 + k"] high [of "n - 64 + k"] n
          by (auto simp: bit_simps)
        then show "bit (drop_bit (n - 64) (word_of_nat i :: u64)) k = bit (0::u64) k"
          by (simp add: bit_simps)
      qed
      then show ?thesis using no by simp
    qed simp
    have "net_IP (indexToCIDRBlock s (int i)) =
        IP16 (join64 (hi64 w OR drop_bit (n - 64) (word_of_nat i)) (lo64 w OR push_bit (128 - n) (word_of_nat i)))"
      using g ms not46 False
      by (simp add: geom6_def indexToCIDRBlock_def shifts Let_def left split del: if_split)
    also have "join64 (hi64 w OR drop_bit (n - 64) (word_of_nat i)) (lo64 w OR push_bit (128 - n) (word_of_nat i))
        = sub_base w n i"
      using False n i64 by (intro join_both_halves) auto
    finally show ?thesis .
  qed
  moreover have "net_Mask (indexToCIDRBlock s (int i)) = Mask16 (prefix_mask n)"
    using g by (simp add: indexToCIDRBlock_def geom6_def Let_def)
  ultimately show ?thesis by simp
qed

section \<open>Indices\<close>

lemma unat_exp_int: "d < LENGTH('a) \<Longrightarrow> unat (word_of_int (2 ^ d) :: 'a::len word) = 2 ^ d"
  by (rule bit_eqI) (auto simp: bit_simps)

lemma index4:
  assumes g: "geom4 s w c n" and a: "To4 ip = Some a"
  shows "getIndexForIP s ip =
    (if a \<in> net_addrs w c then Ret (int (sub_index w n a)) else Err (ErrOutOfAllocatorRange ip (int n)))"
proof -
  have n: "c \<le> n" "n \<le> 32" "n - c < 32" using g by (simp_all add: geom4_def)
  have "word_of_int (2 ^ (n - c)) \<le> (x :: u32) \<longleftrightarrow> \<not> unat x < 2 ^ (n - c)" for x
    unfolding word_le_nat_alt using n by (subst unat_exp_int) auto
  moreover have "unat (drop_bit (32 - n) (w XOR a)) < 2 ^ (n - c) \<longleftrightarrow> a \<in> net_addrs w c"
    using sub_index_bound_iff [OF n(1), of w a] n by (simp add: sub_index_def)
  moreover have "maxCIDRs s = 2 ^ (n - c)" "net_IP (clusterCIDR s) = IP4 w" "nodeMaskSize s = int n"
    using g by (simp_all add: geom4_def)
  ultimately show ?thesis
    using a n unfolding getIndexForIP_def sub_index_def Let_def
    by (simp add: nat_diff_distrib del: of_int_power)
qed

lemma index6:
  assumes g: "geom6 s w c n" and a: "a \<in> net_addrs w c"
  shows "getIndexForIP s (IP16 a) = Ret (int (sub_index w n a))"
proof -
  have n: "c \<le> n" "n \<le> 128" "n - c \<le> 16" and w: "no4in6 w c" using g by (simp_all add: geom6_def)
  let ?i = "sub_index w n a"
  have i: "?i < 2 ^ (n - c)" using sub_index_bound [OF n(1) _ a] n by simp
  have "(2::nat) ^ (n - c) \<le> 2 ^ 16" using n by (intro power_increasing) simp_all
  then have i16: "?i < 2 ^ 16" using i by linarith
  have "drop_bit (128 - n) (unat w XOR unat a) = ?i"
    by (simp add: sub_index_def unat_drop_bit_eq unsigned_xor_eq)
  moreover have "sint (word_of_nat ?i :: u64) = int ?i"
    using i16 by (simp add: signed_of_nat signed_take_bit_int_eq_self)
  moreover have "\<not> word_of_int (2 ^ (n - c)) \<le> (word_of_nat ?i :: u64)"
  proof -
    have "unat (word_of_nat ?i :: u64) = ?i"
      using i16 by (simp add: unsigned_of_nat take_bit_nat_eq_self)
    then show ?thesis unfolding word_le_nat_alt using i n by (subst unat_exp_int) auto
  qed
  moreover have "maxCIDRs s = 2 ^ (n - c)" "net_IP (clusterCIDR s) = IP16 w" "nodeMaskSize s = int n"
    using g by (simp_all add: geom6_def)
  ultimately show ?thesis
    using no4in6_addr [OF w a] n unfolding getIndexForIP_def Let_def
    by (simp add: nat_diff_distrib del: of_int_power)
qed

lemma sub_index_mask [simp]: "n \<le> LENGTH('a) \<Longrightarrow> sub_index w n (a AND prefix_mask n) = sub_index (w::'a::len word) n a"
  by (rule bit_eqI) (auto simp: bit_sub_index bit_facts bit_and_iff dest: bit_imp_le_length)

lemma mask_in_net_addrs [simp]:
  "c \<le> n \<Longrightarrow> a AND prefix_mask n \<in> net_addrs w c \<longleftrightarrow> a \<in> net_addrs (w::'a::len word) c"
  by (auto simp: in_net_addrs_bits bit_facts bit_and_iff)

lemma is4in6_mask: "is4in6 (v AND prefix_mask m) \<Longrightarrow> is4in6 v"
proof -
  assume a: "is4in6 (v AND prefix_mask m)"
  then have "bit (drop_bit 32 (v AND prefix_mask m)) 0 = bit (0xffff::u128) 0" by (simp add: is4in6_def)
  then have m: "128 - m \<le> 32" by (simp add: bit_facts bit_simps)
  have "drop_bit 32 (v AND prefix_mask m) = drop_bit 32 v"
    using m by (intro bit_word_eqI) (auto simp: bit_facts bit_simps dest: bit_imp_le_length)
  then show ?thesis using a by (simp add: is4in6_def)
qed

section \<open>A new set\<close>

text \<open>The cluster CIDR and node mask size that a set is meant for.\<close>

definition cluster_ok :: "IPNet \<Rightarrow> int \<Rightarrow> bool" where
  "cluster_ok cluster sz =
     (canon_net cluster \<and>
      (let (c, bits) = mask_Size (net_Mask cluster) in
       c \<le> sz \<and> sz \<le> bits \<and>
       (case net_IP cluster of
          IP4 w \<Rightarrow> sz - c < 32
        | IP16 w \<Rightarrow> sz - c \<le> clusterSubnetMaxDiff \<and> no4in6 w (nat c)
        | IPnil \<Rightarrow> False)))"

lemma getMaxCIDRs_exp:
  assumes "c \<le> n" and "n - c < 63"
  shows "getMaxCIDRs (int n) (int c) = 2 ^ (n - c)"
proof -
  have "sint (push_bit (n - c) (1::u64)) = 2 ^ (n - c)"
  proof (rule bit_eqI)
    fix k show "bit (sint (push_bit (n - c) (1::u64))) k = bit (2 ^ (n - c) :: int) k"
      using assms by (auto simp: bit_simps min_def not_le)
  qed
  then show ?thesis using assms by (simp add: getMaxCIDRs_def nat_diff_distrib)
qed

lemma NewCIDRSet_geom4:
  assumes "net_base w c" and "c \<le> n" and "n \<le> 32" and "n - c < 32" and "NewCIDRSet (net4 w c) (int n) = Ret s"
  shows "geom4 s w c n"
  using assms by (auto simp: NewCIDRSet_def geom4_def CIDRMask_def getMaxCIDRs_exp Let_def)

lemma NewCIDRSet_geom6:
  assumes "net_base w c" and "no4in6 w c" and "c \<le> n" and "n \<le> 128" and "n - c \<le> 16"
    and "NewCIDRSet (net6 w c) (int n) = Ret s"
  shows "geom6 s w c n"
  using assms by (auto simp: NewCIDRSet_def geom6_def no4in6_def CIDRMask_def getMaxCIDRs_exp Let_def split: if_splits)

lemma NewCIDRSet_total:
  assumes "cluster_ok cluster sz"
  shows "\<exists>s. NewCIDRSet cluster sz = Ret s"
  using assms by (auto simp: cluster_ok_def NewCIDRSet_def Let_def split: prod.splits IP.splits)

lemma NewCIDRSet_geom:
  assumes ok: "cluster_ok cluster sz" and s: "NewCIDRSet cluster sz = Ret s"
  shows "cidr_geom s"
proof -
  have "canon_net cluster" using ok by (simp add: cluster_ok_def)
  then show ?thesis
  proof (cases rule: canon_net_cases)
    case (v4 w c)
    then obtain n where "sz = int n" "c \<le> n" "n \<le> 32" "n - c < 32"
      using ok by (cases sz) (auto simp: cluster_ok_def)
    then show ?thesis using v4 s NewCIDRSet_geom4 [of w c n s] cidr_geomI4 by blast
  next
    case (v6 w c)
    then obtain n where "sz = int n" "c \<le> n" "n \<le> 128" "n - c \<le> 16" "no4in6 w c"
      using ok by (cases sz) (auto simp: cluster_ok_def clusterSubnetMaxDiff_def)
    then show ?thesis using v6 s NewCIDRSet_geom6 [of w c n s] cidr_geomI6 by blast
  qed
qed

section \<open>Blocks and indices, for both families\<close>

lemma geom_max:
  assumes "cidr_geom s"
  shows "maxCIDRs s = int (nat (maxCIDRs s))" and "0 < maxCIDRs s" and "maxCIDRs s < 2 ^ 63"
proof -
  have "\<exists>d < 63. maxCIDRs s = 2 ^ d"
    using assms by (cases rule: cidr_geom_cases) (fastforce simp: geom4_def geom6_def)+
  then obtain d where d: "d < 63" "maxCIDRs s = 2 ^ d" by blast
  then show "maxCIDRs s = int (nat (maxCIDRs s))" and "0 < maxCIDRs s" by simp_all
  show "maxCIDRs s < 2 ^ 63" unfolding d(2) using d(1) by (intro power_strict_increasing) simp_all
qed

lemma block_contains4:
  assumes g: "geom4 s w c n" and i: "i < 2 ^ (n - c)"
  shows "net_Contains (indexToCIDRBlock s (int i)) ip \<longleftrightarrow>
    net_Contains (clusterCIDR s) ip \<and> getIndexForIP s ip = Ret (int i)"
proof -
  have n: "net_base w c" "c \<le> n" "n \<le> 32" and cl: "clusterCIDR s = net4 w c"
    using g by (simp_all add: geom4_def)
  show ?thesis
    unfolding block4 [OF g] cl net_Contains4
    using in_subnet_iff [OF n(1,2) _ i] n(3) index4 [OF g, of ip] by auto
qed

lemma block_contains6:
  assumes g: "geom6 s w c n" and i: "i < 2 ^ (n - c)"
  shows "net_Contains (indexToCIDRBlock s (int i)) ip \<longleftrightarrow>
    net_Contains (clusterCIDR s) ip \<and> getIndexForIP s ip = Ret (int i)"
proof -
  have n: "net_base w c" "c \<le> n" "n \<le> 128" "no4in6 w c" "\<not> is4in6 w" and cl: "clusterCIDR s = net6 w c"
    using g by (simp_all add: geom6_def no4in6_def)
  have "sub_base w n i \<in> net_addrs w c" using sub_base_in_net [OF n(2) _ i, of w] n(3) by simp
  then have "\<not> is4in6 (sub_base w n i)" using no4in6_addr [OF n(4)] by simp
  note b = net_Contains6 [OF this] and c = net_Contains6 [OF n(5)]
  show ?thesis
    unfolding block6 [OF g i] cl b c
    using in_subnet_iff [OF n(1,2) _ i] n(3) index6 [OF g] by auto
qed

lemma block_contains:
  assumes g: "cidr_geom s" and i: "0 \<le> i" "i < maxCIDRs s"
  shows "net_Contains (indexToCIDRBlock s i) ip \<longleftrightarrow>
    net_Contains (clusterCIDR s) ip \<and> getIndexForIP s ip = Ret i"
proof -
  obtain j where j: "i = int j" using i(1) nonneg_int_cases by blast
  have bound: "j < 2 ^ d" if "maxCIDRs s = 2 ^ d" for d
    using i(2) that j by (simp flip: of_nat_power)
  show ?thesis
    using g
  proof (cases rule: cidr_geom_cases)
    case (v4 w c n)
    then show ?thesis unfolding j by (intro block_contains4) (auto simp: geom4_def intro: bound)
  next
    case (v6 w c n)
    then show ?thesis unfolding j by (intro block_contains6) (auto simp: geom6_def intro: bound)
  qed
qed

lemma index_total:
  assumes g: "cidr_geom s" and ip: "net_Contains (clusterCIDR s) ip"
  obtains i where "getIndexForIP s ip = Ret i" "0 \<le> i" "i < maxCIDRs s"
  using g
proof (cases rule: cidr_geom_cases)
  case (v4 w c n)
  then obtain a where a: "To4 ip = Some a" "a \<in> net_addrs w c"
    using ip by (auto simp: geom4_def net_Contains4)
  have "sub_index w n a < 2 ^ (n - c)" using sub_index_bound [of c n a w] a v4 by (simp add: geom4_def)
  then show ?thesis using that index4 [OF v4 a(1)] a v4 by (simp add: geom4_def flip: of_nat_power)
next
  case (v6 w c n)
  then have "\<not> is4in6 w" by (simp add: geom6_def no4in6_def)
  then obtain a where a: "ip = IP16 a" "a \<in> net_addrs w c"
    using ip v6 by (auto simp: geom6_def net_Contains6)
  have "sub_index w n a < 2 ^ (n - c)" using sub_index_bound [of c n a w] a v6 by (simp add: geom6_def)
  then show ?thesis using that index6 [OF v6 a(2)] a v6 by (simp add: geom6_def flip: of_nat_power)
qed

section \<open>The indices of a CIDR\<close>

lemma no4in6_sub:
  assumes "no4in6 w c" and "a \<in> net_addrs w c" and "c \<le> n"
  shows "no4in6 a n"
proof -
  have "net_addrs a n \<subseteq> net_addrs w c"
    using net_addrs_mono [OF assms(3), of a] net_addrs_cong [OF assms(2)] by simp
  then have "push_bit 32 0xffff \<notin> net_addrs a n"
    using assms(1) by (auto simp: no4in6_def net_addrs_def)
  then show ?thesis using no4in6_addr [OF assms(1,2)] by (simp add: no4in6_def net_addrs_def)
qed

lemma join_or_not_halves: "join64 (hi64 v OR NOT (hi64 k)) (lo64 v OR NOT (lo64 k)) = v OR NOT k"
  by (rule bit_word_eqI) (auto simp: bit_facts bit_simps)

lemma lastIP4 [simp]: "lastIP (net4 v m) = Some (IP4 (net_last v m))"
  by (simp add: lastIP_def or_not_prefix_mask)

lemma lastIP6 [simp]: "\<not> is4in6 v \<Longrightarrow> lastIP (net6 v m) = Some (IP16 (net_last v m))"
  by (simp add: lastIP_def join_or_not_halves or_not_prefix_mask)

text \<open>
  What \<^verbatim>\<open>getBeginningAndEndIndices\<close> promises: the first and last index of the blocks that
  overlap the CIDR, or the out-of-range error when the cluster does not overlap it.
\<close>

definition range_post :: "CidrSet \<Rightarrow> IPNet \<Rightarrow> bool" where
  "range_post s cidr \<longleftrightarrow>
     (if overlap (clusterCIDR s) cidr
      then \<exists>b e. getBeginningAndEndIndices s (Some cidr) = Ret (int b, int e) \<and>
             {i. int i < maxCIDRs s \<and> overlap (indexToCIDRBlock s (int i)) cidr} = {b..e}
      else getBeginningAndEndIndices s (Some cidr) = Err (ErrOutOfClusterRange cidr (clusterCIDR s)))"

lemma int_less_exp: "int i < 2 ^ d \<longleftrightarrow> i < 2 ^ d"
  by (simp flip: of_nat_power)

lemma net_last_in: "net_base v m \<Longrightarrow> net_last v m \<in> net_addrs v m"
  using net_base_self [of v m] by (auto simp: net_interval)

lemma range44:
  assumes g: "geom4 s w c n" and v: "net_base v m" "m \<le> 32"
  shows "getBeginningAndEndIndices s (Some (net4 v m)) =
    (if net_addrs w c \<inter> net_addrs v m \<noteq> {}
     then Ret (int (fst (sub_range w c n v m)), int (snd (sub_range w c n v m)))
     else Err (ErrOutOfClusterRange (net4 v m) (clusterCIDR s)))"
proof -
  have n: "c \<le> n" "n \<le> LENGTH(32)" "c \<le> 32" and cl: "clusterCIDR s = net4 w c"
    and fields: "clusterMaskSize s = int c" "nodeMask s = Mask4 (prefix_mask n)" "maxCIDRs s = 2 ^ (n - c)"
    using g by (simp_all add: geom4_def)
  have guard: "net_Contains (net4 w c) (IP4 (v AND prefix_mask c)) \<or> net_Contains (net4 v m) (IP4 (w AND prefix_mask m)) \<longleftrightarrow>
      net_addrs w c \<inter> net_addrs v m \<noteq> {}"
    by (simp add: net_Contains4 net_overlap_iff)
  have "v \<in> net_addrs w c" "net_last v m \<in> net_addrs w c" if "net_addrs w c \<inter> net_addrs v m \<noteq> {}" "c < m"
    using net_overlap_inside [OF _ that(1)] that(2) net_last_in [OF v(1)] by auto
  note ends = this
  show ?thesis
  proof (cases "net_addrs w c \<inter> net_addrs v m \<noteq> {} \<and> c < m")
    case True
    then show ?thesis
      using guard v n ends by (simp add: getBeginningAndEndIndices_def cl fields sub_range_def index4 [OF g] Let_def)
  next
    case False
    then show ?thesis
      using guard v by (auto simp: getBeginningAndEndIndices_def cl fields sub_range_def of_nat_diff)
  qed
qed

lemma range66:
  assumes g: "geom6 s w c n" and v: "net_base v m" "m \<le> 128" "\<not> is4in6 v"
  shows "getBeginningAndEndIndices s (Some (net6 v m)) =
    (if net_addrs w c \<inter> net_addrs v m \<noteq> {}
     then Ret (int (fst (sub_range w c n v m)), int (snd (sub_range w c n v m)))
     else Err (ErrOutOfClusterRange (net6 v m) (clusterCIDR s)))"
proof -
  have n: "c \<le> n" "n \<le> LENGTH(128)" "c \<le> 128" "\<not> is4in6 w" and cl: "clusterCIDR s = net6 w c"
    and fields: "clusterMaskSize s = int c" "nodeMask s = Mask16 (prefix_mask n)" "maxCIDRs s = 2 ^ (n - c)"
    using g by (simp_all add: geom6_def no4in6_def)
  have guard: "net_Contains (net6 w c) (IP16 (v AND prefix_mask c)) \<or> net_Contains (net6 v m) (IP16 (w AND prefix_mask m)) \<longleftrightarrow>
      net_addrs w c \<inter> net_addrs v m \<noteq> {}"
    using is4in6_mask [of v c] is4in6_mask [of w m] v(3) n(4) by (auto simp: net_Contains6 net_overlap_iff)
  have "v \<in> net_addrs w c" "net_last v m \<in> net_addrs w c" if "net_addrs w c \<inter> net_addrs v m \<noteq> {}" "c < m"
    using net_overlap_inside [OF _ that(1)] that(2) net_last_in [OF v(1)] by auto
  note ends = this
  show ?thesis
  proof (cases "net_addrs w c \<inter> net_addrs v m \<noteq> {} \<and> c < m")
    case True
    then show ?thesis
      using guard v n ends by (simp add: getBeginningAndEndIndices_def cl fields sub_range_def index6 [OF g] Let_def)
  next
    case False
    then show ?thesis
      using guard v by (auto simp: getBeginningAndEndIndices_def cl fields sub_range_def of_nat_diff)
  qed
qed

lemma range_mixed:
  assumes "\<not> is4in6 w"
  shows "\<lbrakk>geom4 s v c n; m \<le> 128\<rbrakk> \<Longrightarrow> getBeginningAndEndIndices s (Some (net6 w m)) = Err (ErrOutOfClusterRange (net6 w m) (clusterCIDR s))"
    and "\<lbrakk>geom6 s w c n; m \<le> 32\<rbrakk> \<Longrightarrow> getBeginningAndEndIndices s (Some (net4 v m)) = Err (ErrOutOfClusterRange (net4 v m) (clusterCIDR s))"
  using assms
  by (auto simp: getBeginningAndEndIndices_def geom4_def geom6_def net_Contains4 net_Contains6)

lemma range_overlap:
  assumes g: "cidr_geom s" and cidr: "canon_net cidr"
  shows "range_post s cidr"
  using g
proof (cases rule: cidr_geom_cases)
  case (v4 w c n)
  then have n: "net_base w c" "c \<le> n" "n \<le> LENGTH(32)" and cl: "clusterCIDR s = net4 w c" "maxCIDRs s = 2 ^ (n - c)"
    by (simp_all add: geom4_def)
  from cidr show ?thesis
  proof (cases rule: canon_net_cases)
    case c4: (v4 v m)
    then show ?thesis
      unfolding range_post_def c4(1) range44 [OF v4 c4(2,3)] block4 [OF v4] cl overlap4 int_less_exp
      using sub_range_meeting [OF n c4(2)] by auto
  next
    case c6: (v6 v m)
    then show ?thesis
      using range_mixed(1) [OF c6(4) v4 c6(3)] overlap46(1) [OF c6(4)] by (simp add: range_post_def cl)
  qed
next
  case (v6 w c n)
  then have n: "net_base w c" "c \<le> n" "n \<le> LENGTH(128)" "no4in6 w c" "\<not> is4in6 w"
    and cl: "clusterCIDR s = net6 w c" "maxCIDRs s = 2 ^ (n - c)"
    by (simp_all add: geom6_def no4in6_def)
  from cidr show ?thesis
  proof (cases rule: canon_net_cases)
    case c4: (v4 v m)
    then show ?thesis
      using range_mixed(2) [OF n(5) v6 c4(3)] overlap46(2) [OF n(5)] by (simp add: range_post_def cl)
  next
    case c6: (v6 v m)
    have blk: "i < 2 ^ (n - c) \<and> overlap (indexToCIDRBlock s (int i)) (net6 v m) \<longleftrightarrow>
        i < 2 ^ (n - c) \<and> net_addrs (sub_base w n i) n \<inter> net_addrs v m \<noteq> {}" for i
      by (rule conj_cong)
        (simp_all only: block6 [OF v6] overlap6 [OF no4in6_sub [OF n(4) sub_base_in_net [OF n(2,3)] n(2)] c6(4)])
    show ?thesis
      unfolding range_post_def c6(1) range66 [OF v6 c6(2,3,4)] cl int_less_exp blk overlap6 [OF n(4) c6(4)]
      using sub_range_meeting [OF n(1-3) c6(2)] by auto
  qed
qed

end
