(* ===== verification/CidrPool.thy ===== *)
theory CidrPool
  imports CidrGeometry
begin

text \<open>
  The contract of a pool of CIDRs, as a locale: what the allocators rely on when they call
  \<^verbatim>\<open>AllocateNext\<close>, \<^verbatim>\<open>Occupy\<close> and \<^verbatim>\<open>Release\<close>, and the consequences that only need the contract.
  \<open>CidrSetAlloc\<close> interprets it on the model of \<^verbatim>\<open>cidr_set.go\<close>.
\<close>

text \<open>Calling an operation \<open>k\<close> times, collecting its results; the first error stops.\<close>

fun repeat_out :: "('s \<Rightarrow> ('e, 'a \<times> 's) outcome) \<Rightarrow> nat \<Rightarrow> 's \<Rightarrow> ('e, 'a list \<times> 's) outcome" where
  "repeat_out f 0 s = Ret ([], s)"
| "repeat_out f (Suc k) s =
     bind_out (f s) (\<lambda>(x, s'). bind_out (repeat_out f k s') (\<lambda>(xs, s''). Ret (x # xs, s'')))"

text \<open>The blocks of a pool that overlap a CIDR.\<close>

definition hits :: "(nat \<Rightarrow> IPNet) \<Rightarrow> nat \<Rightarrow> IPNet \<Rightarrow> nat set" where
  "hits blk cap cidr = {i. i < cap \<and> overlap (blk i) cidr}"

lemma overlap_commute: "overlap a b = overlap b a"
  by (auto simp: overlap_def)

locale cidr_pool =
  fixes inv :: "'s \<Rightarrow> bool"
    and cap :: "'s \<Rightarrow> nat"
    and taken :: "'s \<Rightarrow> nat set"
    and block :: "'s \<Rightarrow> nat \<Rightarrow> IPNet"
    and alloc :: "'s \<Rightarrow> (cidr_error, IPNet \<times> 's) outcome"
    and occupy :: "'s \<Rightarrow> IPNet option \<Rightarrow> (cidr_error, 's) outcome"
    and release :: "'s \<Rightarrow> IPNet option \<Rightarrow> (cidr_error, 's) outcome"
  assumes taken_bound: "inv s \<Longrightarrow> taken s \<subseteq> {..<cap s}"
    and block_canon: "inv s \<Longrightarrow> i < cap s \<Longrightarrow> canon_net (block s i)"
    and block_hits: "inv s \<Longrightarrow> i < cap s \<Longrightarrow> hits (block s) (cap s) (block s i) = {i}"
    and alloc_full: "inv s \<Longrightarrow> taken s = {..<cap s} \<Longrightarrow> alloc s = Err ErrCIDRRangeNoCIDRsRemaining"
    and alloc_free: "inv s \<Longrightarrow> taken s \<noteq> {..<cap s} \<Longrightarrow>
      \<exists>i s'. alloc s = Ret (block s i, s') \<and> i < cap s \<and> i \<notin> taken s \<and>
        inv s' \<and> cap s' = cap s \<and> block s' = block s \<and> taken s' = insert i (taken s)"
    and occupy_hit: "inv s \<Longrightarrow> canon_net c \<Longrightarrow> hits (block s) (cap s) c \<noteq> {} \<Longrightarrow>
      \<exists>s'. occupy s (Some c) = Ret s' \<and> inv s' \<and> cap s' = cap s \<and> block s' = block s \<and>
        taken s' = taken s \<union> hits (block s) (cap s) c"
    and occupy_miss: "inv s \<Longrightarrow> canon_net c \<Longrightarrow> hits (block s) (cap s) c = {} \<Longrightarrow>
      \<exists>e. occupy s (Some c) = Err e"
    and release_hit: "inv s \<Longrightarrow> canon_net c \<Longrightarrow> hits (block s) (cap s) c \<noteq> {} \<Longrightarrow>
      \<exists>s'. release s (Some c) = Ret s' \<and> inv s' \<and> cap s' = cap s \<and> block s' = block s \<and>
        taken s' = taken s - hits (block s) (cap s) c"
    and release_miss: "inv s \<Longrightarrow> canon_net c \<Longrightarrow> hits (block s) (cap s) c = {} \<Longrightarrow>
      \<exists>e. release s (Some c) = Err e"
begin

lemma blocks_disjoint:
  assumes "inv s" "i < cap s" "j < cap s" "i \<noteq> j"
  shows "\<not> overlap (block s i) (block s j)"
  using block_hits [of s j] assms by (auto simp: hits_def)

lemma taken_finite: "inv s \<Longrightarrow> finite (taken s)"
  using taken_bound finite_subset by blast

lemma card_taken: "inv s \<Longrightarrow> card (taken s) \<le> cap s"
  using card_mono [OF _ taken_bound] by fastforce

lemma free_iff: "inv s \<Longrightarrow> taken s \<noteq> {..<cap s} \<longleftrightarrow> card (taken s) < cap s"
  using card_subset_eq [OF finite_lessThan taken_bound, of s] card_taken [of s] by (metis card_lessThan order_less_le)

lemma alloc_iff: "inv s \<Longrightarrow> (\<exists>c s'. alloc s = Ret (c, s')) \<longleftrightarrow> card (taken s) < cap s"
  using alloc_full [of s] alloc_free [of s] free_iff [of s] by fastforce

text \<open>Releasing what was just allocated gives back exactly that block.\<close>

lemma alloc_release:
  assumes "inv s" and "alloc s = Ret (c, s')"
  shows "\<exists>s''. release s' (Some c) = Ret s'' \<and> inv s'' \<and> taken s'' = taken s \<and>
    cap s'' = cap s \<and> block s'' = block s"
proof -
  have "taken s \<noteq> {..<cap s}" using assms alloc_full by fastforce
  then obtain i where i: "c = block s i" "i < cap s" "i \<notin> taken s" "inv s'" "cap s' = cap s"
    "block s' = block s" "taken s' = insert i (taken s)"
    using alloc_free [OF assms(1)] assms(2) by auto
  have "hits (block s') (cap s') c = {i}" using block_hits [of s' i] i by simp
  then show ?thesis
    using release_hit [of s' c] block_canon [of s i] assms(1) i by (auto simp: insert_Diff_if)
qed

text \<open>Occupying a CIDR twice is the same as once, and releasing undoes a fresh occupation.\<close>

lemma occupy_twice:
  assumes "inv s" and "canon_net c" and "occupy s (Some c) = Ret s'"
  shows "\<exists>s''. occupy s' (Some c) = Ret s'' \<and> taken s'' = taken s'"
proof -
  have h: "hits (block s) (cap s) c \<noteq> {}" using occupy_miss [OF assms(1,2)] assms(3) by auto
  then have s': "inv s'" "cap s' = cap s" "block s' = block s" "taken s' = taken s \<union> hits (block s) (cap s) c"
    using occupy_hit [OF assms(1,2)] assms(3) by auto
  then show ?thesis using occupy_hit [of s' c] assms(2) h by auto
qed

lemma occupy_release:
  assumes "inv s" and "canon_net c" and "occupy s (Some c) = Ret s'" and "taken s \<inter> hits (block s) (cap s) c = {}"
  shows "\<exists>s''. release s' (Some c) = Ret s'' \<and> taken s'' = taken s"
proof -
  have h: "hits (block s) (cap s) c \<noteq> {}" using occupy_miss [OF assms(1,2)] assms(3) by auto
  then have s': "inv s'" "cap s' = cap s" "block s' = block s" "taken s' = taken s \<union> hits (block s) (cap s) c"
    using occupy_hit [OF assms(1,2)] assms(3) by auto
  then show ?thesis using release_hit [of s' c] assms(2,4) h by auto
qed

text \<open>
  Allocating \<open>k\<close> times in a row succeeds exactly as long as blocks are free; the results do
  not overlap each other, and none overlaps a block that was taken before.
\<close>

lemma alloc_many:
  assumes "inv s" and "card (taken s) + k \<le> cap s"
  shows "\<exists>is s'. repeat_out alloc k s = Ret (map (block s) is, s') \<and> inv s' \<and> cap s' = cap s \<and>
    block s' = block s \<and> distinct is \<and> length is = k \<and> set is \<subseteq> {..<cap s} - taken s \<and>
    taken s' = taken s \<union> set is"
  using assms
proof (induction k arbitrary: s)
  case 0
  then show ?case by simp
next
  case (Suc k)
  then have "taken s \<noteq> {..<cap s}" using free_iff [of s] by simp
  then obtain i s1 where i: "alloc s = Ret (block s i, s1)" "i < cap s" "i \<notin> taken s"
    "inv s1" "cap s1 = cap s" "block s1 = block s" "taken s1 = insert i (taken s)"
    using alloc_free [OF Suc.prems(1)] by blast
  then have "card (taken s1) + k \<le> cap s1" using Suc.prems taken_finite [of s] by simp
  then obtain "is" s' where "is": "repeat_out alloc k s1 = Ret (map (block s) is, s')" "inv s'"
    "cap s' = cap s" "block s' = block s" "distinct is" "length is = k"
    "set is \<subseteq> {..<cap s} - taken s1" "taken s' = taken s1 \<union> set is"
    using Suc.IH [OF i(4)] i(5,6) by metis
  then show ?case using i by (intro exI [of _ "i # is"] exI [of _ s']) auto
qed

lemma alloc_many_disjoint:
  assumes "inv s" and "card (taken s) + k \<le> cap s"
  shows "\<exists>cs s'. repeat_out alloc k s = Ret (cs, s') \<and> inv s' \<and> length cs = k \<and>
    (\<forall>a<k. \<forall>b<k. a \<noteq> b \<longrightarrow> \<not> overlap (cs ! a) (cs ! b)) \<and>
    (\<forall>a<k. \<forall>j\<in>taken s. \<not> overlap (cs ! a) (block s j))"
proof -
  obtain "is" s' where r: "repeat_out alloc k s = Ret (map (block s) is, s')" "inv s'" "distinct is"
    "length is = k" "set is \<subseteq> {..<cap s} - taken s"
    using alloc_many [OF assms] by blast
  have "is ! a < cap s" "is ! a \<notin> taken s" if "a < k" for a
    using r(4) that subsetD [OF r(5) nth_mem [of a "is"]] by auto
  moreover have "is ! a \<noteq> j \<and> j < cap s" if "a < k" "j \<in> taken s" for a j
    using taken_bound [OF assms(1)] calculation(2) that by auto
  ultimately show ?thesis
    using r(1-4) blocks_disjoint [OF assms(1)]
    by (intro exI [of _ "map (block s) is"] exI [of _ s']) (auto simp: nth_eq_iff_index_eq)
qed

lemma alloc_exhausts:
  assumes "inv s" and "cap s < card (taken s) + k"
  shows "repeat_out alloc k s = Err ErrCIDRRangeNoCIDRsRemaining"
  using assms
proof (induction k arbitrary: s)
  case 0
  then show ?case using card_taken [of s] by simp
next
  case (Suc k)
  show ?case
  proof (cases "taken s = {..<cap s}")
    case True
    then show ?thesis using alloc_full [OF Suc.prems(1)] by simp
  next
    case False
    then obtain i s1 where i: "alloc s = Ret (block s i, s1)" "i \<notin> taken s"
      "inv s1" "cap s1 = cap s" "taken s1 = insert i (taken s)"
      using alloc_free [OF Suc.prems(1)] by blast
    then show ?thesis using Suc.IH [of s1] Suc.prems taken_finite [of s] by simp
  qed
qed

end

end
