(* ===== verification/CidrSetAlloc.thy ===== *)
theory CidrSetAlloc
  imports CidrPool
begin

text \<open>
  The state invariant of a \<^verbatim>\<open>CidrSet\<close>, the functional behaviour of \<^verbatim>\<open>NewCIDRSet\<close>, \<^verbatim>\<open>AllocateNext\<close>,
  \<^verbatim>\<open>Occupy\<close> and \<^verbatim>\<open>Release\<close> in terms of the set of blocks in use, and the interpretation of the
  pool contract on them.
\<close>

section \<open>Invariant\<close>

definition used_set :: "CidrSet \<Rightarrow> nat set" where
  "used_set s = {i. bit (used s) i}"

definition capacity :: "CidrSet \<Rightarrow> nat" where
  "capacity s = nat (maxCIDRs s)"

definition used_count :: "CidrSet \<Rightarrow> nat" where
  "used_count s = length (filter (bit (used s)) [0..<capacity s])"

abbreviation nth_block :: "CidrSet \<Rightarrow> nat \<Rightarrow> IPNet" where
  "nth_block s i \<equiv> indexToCIDRBlock s (int i)"

text \<open>
  No bit is set beyond the capacity, the counter is the number of set bits, the candidate is an
  index, and the counters of the metrics differ by the number of blocks in use.
\<close>

definition cidr_inv :: "CidrSet \<Rightarrow> bool" where
  "cidr_inv s \<longleftrightarrow>
     cidr_geom s \<and> used s < 2 ^ capacity s \<and> allocatedCIDRs s = int (used_count s) \<and>
     0 \<le> nextCandidate s \<and> nextCandidate s < maxCIDRs s \<and>
     int (allocations_total (cs_metrics s)) - int (releases_total (cs_metrics s)) = allocatedCIDRs s"

lemma used_set_bound: "used s < 2 ^ capacity s \<Longrightarrow> used_set s \<subseteq> {..<capacity s}"
  using bit_nat_bound by (auto simp: used_set_def)

lemma used_count_card: "used s < 2 ^ capacity s \<Longrightarrow> used_count s = card (used_set s)"
proof -
  assume "used s < 2 ^ capacity s"
  then have "used_set s = set (filter (bit (used s)) [0..<capacity s])"
    using bit_nat_bound by (auto simp: used_set_def)
  then show ?thesis
    unfolding used_count_def by (metis distinct_card distinct_filter distinct_upt)
qed

lemma used_setI: "used_set s \<subseteq> {..<m} \<Longrightarrow> used s < 2 ^ m"
proof -
  assume a: "used_set s \<subseteq> {..<m}"
  have "take_bit m (used s) = used s"
    by (rule bit_eqI) (use a in \<open>auto simp: bit_take_bit_iff used_set_def\<close>)
  then show ?thesis by (simp add: take_bit_nat_eq_self_iff)
qed

lemma cidr_inv_alt:
  "cidr_inv s \<longleftrightarrow> cidr_geom s \<and> used_set s \<subseteq> {..<capacity s} \<and> allocatedCIDRs s = int (card (used_set s)) \<and>
     0 \<le> nextCandidate s \<and> nextCandidate s < maxCIDRs s \<and>
     int (allocations_total (cs_metrics s)) - int (releases_total (cs_metrics s)) = allocatedCIDRs s"
  unfolding cidr_inv_def using used_count_card [of s] used_set_bound [of s] used_setI [of s] by auto

lemma capacity_geom: "cidr_geom s \<Longrightarrow> maxCIDRs s = int (capacity s)" "cidr_geom s \<Longrightarrow> 0 < capacity s"
  using geom_max [of s] by (simp_all add: capacity_def)

text \<open>The fields that fix the blocks are the same before and after.\<close>

definition same_blocks :: "CidrSet \<Rightarrow> CidrSet \<Rightarrow> bool" where
  "same_blocks s t \<longleftrightarrow>
     clusterCIDR t = clusterCIDR s \<and> clusterMaskSize t = clusterMaskSize s \<and> nodeMask t = nodeMask s \<and>
     nodeMaskSize t = nodeMaskSize s \<and> maxCIDRs t = maxCIDRs s \<and> label t = label s"

lemma same_blocks_refl [simp]: "same_blocks s s"
  by (simp add: same_blocks_def)

lemma same_blocks_trans [trans]: "same_blocks s t \<Longrightarrow> same_blocks t u \<Longrightarrow> same_blocks s u"
  by (simp add: same_blocks_def)

lemma same_blocksD [set_frame]:
  assumes "same_blocks s t"
  shows "cidr_geom t = cidr_geom s" "capacity t = capacity s" "indexToCIDRBlock t = indexToCIDRBlock s"
    "getBeginningAndEndIndices t = getBeginningAndEndIndices s" "getIndexForIP t = getIndexForIP s"
    "clusterCIDR t = clusterCIDR s" "maxCIDRs t = maxCIDRs s"
proof -
  have eqs: "clusterCIDR t = clusterCIDR s" "clusterMaskSize t = clusterMaskSize s" "nodeMask t = nodeMask s"
    "nodeMaskSize t = nodeMaskSize s" "maxCIDRs t = maxCIDRs s"
    using assms by (simp_all add: same_blocks_def)
  show "indexToCIDRBlock t = indexToCIDRBlock s" unfolding fun_eq_iff indexToCIDRBlock_def eqs by simp
  show ix: "getIndexForIP t = getIndexForIP s" unfolding fun_eq_iff getIndexForIP_def eqs by simp
  show "getBeginningAndEndIndices t = getBeginningAndEndIndices s"
    unfolding fun_eq_iff getBeginningAndEndIndices_def eqs ix by simp
  show "cidr_geom t = cidr_geom s" unfolding cidr_geom_def geom4_def geom6_def eqs by simp
qed (use assms in \<open>simp_all add: same_blocks_def capacity_def\<close>)

section \<open>Loops\<close>

lemma find_free_spec:
  assumes "0 \<le> c" "c < m"
  shows "\<exists>k\<le>r. find_free r u m c i = Some ((c + int k) mod m, i + k) \<and>
    (\<forall>j<k. bit u (nat ((c + int j) mod m))) \<and> (k < r \<longrightarrow> \<not> bit u (nat ((c + int k) mod m)))"
  using assms
proof (induction r arbitrary: c i)
  case 0
  then show ?case by simp
next
  case (Suc r)
  show ?case
  proof (cases "bit u (nat c)")
    case False
    then show ?thesis using Suc.prems by (intro exI [of _ 0]) simp
  next
    case True
    let ?c = "(c + 1) mod m"
    have "0 \<le> ?c" "?c < m" using Suc.prems by simp_all
    then obtain k where k: "k \<le> r" "find_free r u m ?c (Suc i) = Some ((?c + int k) mod m, Suc i + k)"
      "\<forall>j<k. bit u (nat ((?c + int j) mod m))" "k < r \<longrightarrow> \<not> bit u (nat ((?c + int k) mod m))"
      using Suc.IH by blast
    have shift: "(?c + int j) mod m = (c + int (Suc j)) mod m" for j
      by (simp add: mod_simps algebra_simps)
    have "\<forall>j<Suc k. bit u (nat ((c + int j) mod m))"
      using k(3) True Suc.prems unfolding shift by (auto simp: less_Suc_eq_0_disj)
    then show ?thesis
      using k True Suc.prems unfolding shift by (intro exI [of _ "Suc k"]) (simp add: go_rem_nonneg)
  qed
qed

lemma bit_set_bit_nat [bit_facts]: "bit (set_bit k (u::nat)) i \<longleftrightarrow> i = k \<or> bit u i"
  by (auto simp: bit_set_bit_iff possible_bit_def)

lemma bit_unset_bit_nat [bit_facts]: "bit (unset_bit k (u::nat)) i \<longleftrightarrow> i \<noteq> k \<and> bit u i"
  by (auto simp: bit_unset_bit_iff)

lemma occupy_loop_frame:
  "same_blocks s (occupy_loop r b s)" "nextCandidate (occupy_loop r b s) = nextCandidate s"
  by (induction r b s rule: occupy_loop.induct) (auto simp: same_blocks_def)

lemma release_loop_frame:
  "same_blocks s (release_loop r b s)" "nextCandidate (release_loop r b s) = nextCandidate s"
  by (induction r b s rule: release_loop.induct) (auto simp: same_blocks_def)

lemma occupy_loop_used:
  "0 \<le> b \<Longrightarrow> bit (used (occupy_loop r b s)) i \<longleftrightarrow> bit (used s) i \<or> (nat b \<le> i \<and> i < nat b + r)"
  by (induction r b s rule: occupy_loop.induct) (auto simp: bit_facts nat_add_distrib Suc_le_eq le_eq_less_or_eq)

lemma release_loop_used:
  "0 \<le> b \<Longrightarrow> bit (used (release_loop r b s)) i \<longleftrightarrow> bit (used s) i \<and> \<not> (nat b \<le> i \<and> i < nat b + r)"
  by (induction r b s rule: release_loop.induct) (auto simp: bit_facts nat_add_distrib Suc_le_eq le_eq_less_or_eq)

text \<open>What the counters keep of the bitmap, one loop step at a time.\<close>

definition counted :: "CidrSet \<Rightarrow> bool" where
  "counted s \<longleftrightarrow> finite (used_set s) \<and> allocatedCIDRs s = int (card (used_set s)) \<and>
     int (allocations_total (cs_metrics s)) - int (releases_total (cs_metrics s)) = allocatedCIDRs s"

lemma used_set_upd [simp]:
  "used_set (s\<lparr>used := set_bit k (used s), allocatedCIDRs := a, cs_metrics := m\<rparr>) = insert k (used_set s)"
  "used_set (s\<lparr>used := unset_bit k (used s), allocatedCIDRs := a, cs_metrics := m\<rparr>) = used_set s - {k}"
  by (auto simp: used_set_def bit_facts)

lemma occupy_loop_counted: "counted s \<Longrightarrow> counted (occupy_loop r b s)"
proof (induction r b s rule: occupy_loop.induct)
  case (2 r i s)
  have "nat i \<notin> used_set s \<longleftrightarrow> \<not> bit (used s) (nat i)" by (simp add: used_set_def)
  then show ?case using 2 by (auto simp: counted_def)
qed simp

lemma release_loop_counted: "counted s \<Longrightarrow> counted (release_loop r b s)"
proof (induction r b s rule: release_loop.induct)
  case (2 r i s)
  let ?s = "s\<lparr>used := unset_bit (nat i) (used s), allocatedCIDRs := allocatedCIDRs s - 1,
    cs_metrics := (cs_metrics s)\<lparr>releases_total := releases_total (cs_metrics s) + 1\<rparr>\<rparr>"
  have "counted ?s" if "bit (used s) (nat i)"
  proof -
    have "nat i \<in> used_set s" using that by (simp add: used_set_def)
    then have "int (card (used_set s - {nat i})) = int (card (used_set s)) - 1"
      using 2(2) by (simp add: counted_def card_Suc_Diff1 [symmetric] del: card_Diff_insert)
    then show ?thesis using 2(2) by (simp add: counted_def)
  qed
  then show ?case using 2 by simp
qed simp

lemma counted_inv: "cidr_inv s \<Longrightarrow> counted s"
  by (auto simp: cidr_inv_alt counted_def intro: finite_subset)

lemma cidr_invI:
  assumes "cidr_inv s" and "same_blocks s t" and "counted t" and "used_set t \<subseteq> {..<capacity s}"
    and "0 \<le> nextCandidate t" and "nextCandidate t < maxCIDRs s"
  shows "cidr_inv t"
  using assms same_blocksD [OF assms(2)] by (simp add: cidr_inv_alt counted_def)

section \<open>AllocateNext\<close>

text \<open>The state after handing out block \<open>i\<close> at the \<open>k\<close>-th further probe.\<close>

definition alloc_state :: "CidrSet \<Rightarrow> nat \<Rightarrow> nat \<Rightarrow> CidrSet" where
  "alloc_state s i k =
     s\<lparr>nextCandidate := (int i + 1) mod maxCIDRs s, used := set_bit i (used s),
       allocatedCIDRs := allocatedCIDRs s + 1,
       cs_metrics := (cs_metrics s)\<lparr>allocations_total := allocations_total (cs_metrics s) + 1,
         tries_per_request := tries_per_request (cs_metrics s) @ [k],
         usage_cidrs := (allocatedCIDRs s + 1, maxCIDRs s)\<rparr>\<rparr>"

lemma alloc_state_frame:
  "same_blocks s (alloc_state s i k)" "used_set (alloc_state s i k) = insert i (used_set s)"
  "nextCandidate (alloc_state s i k) = (int i + 1) mod maxCIDRs s"
  by (auto simp: alloc_state_def same_blocks_def used_set_def bit_facts)

lemma alloc_state_counted: "counted s \<Longrightarrow> i \<notin> used_set s \<Longrightarrow> counted (alloc_state s i k)"
  by (simp add: counted_def alloc_state_frame) (simp add: alloc_state_def)

lemma alloc_state_inv:
  assumes "cidr_inv s" and "i < capacity s" and "i \<notin> used_set s"
  shows "cidr_inv (alloc_state s i k)"
  using assms alloc_state_counted [OF counted_inv] alloc_state_frame [of s i k]
  by (intro cidr_invI [OF assms(1)]) (auto simp: cidr_inv_alt capacity_geom)

lemma full_iff:
  assumes "cidr_inv s"
  shows "allocatedCIDRs s = maxCIDRs s \<longleftrightarrow> used_set s = {..<capacity s}"
proof -
  have b: "used_set s \<subseteq> {..<capacity s}" and c: "allocatedCIDRs s = int (card (used_set s))"
    and m: "maxCIDRs s = int (capacity s)"
    using assms capacity_geom by (simp_all add: cidr_inv_alt)
  then show ?thesis using card_subset_eq [OF finite_lessThan b] by (metis card_lessThan of_nat_eq_iff)
qed

lemma AllocateNext_free:
  assumes inv: "cidr_inv s" and free: "used_set s \<noteq> {..<capacity s}"
  obtains i k where "k < capacity s" "int i = (nextCandidate s + int k) mod maxCIDRs s" "i < capacity s"
    "i \<notin> used_set s" "\<And>j. j < k \<Longrightarrow> nat ((nextCandidate s + int j) mod maxCIDRs s) \<in> used_set s"
    "AllocateNext s = Ret (nth_block s i, alloc_state s i k)"
proof -
  let ?m = "maxCIDRs s" and ?c = "nextCandidate s"
  have m: "0 < ?m" "?m = int (capacity s)" and c: "0 \<le> ?c" "?c < ?m" and b: "used_set s \<subseteq> {..<capacity s}"
    using inv capacity_geom [of s] by (simp_all add: cidr_inv_alt)
  obtain k where k: "k \<le> nat ?m" "find_free (nat ?m) (used s) ?m ?c 0 = Some ((?c + int k) mod ?m, 0 + k)"
    "\<forall>j<k. bit (used s) (nat ((?c + int j) mod ?m))"
    "k < nat ?m \<longrightarrow> \<not> bit (used s) (nat ((?c + int k) mod ?m))"
    using find_free_spec [OF c, of "nat ?m" "used s" 0] by blast
  obtain f where f: "f < capacity s" "f \<notin> used_set s" using free b by auto
  have "k < nat ?m"
  proof (rule ccontr)
    assume "\<not> k < nat ?m"
    moreover have "0 \<le> (int f - ?c) mod ?m" "(int f - ?c) mod ?m < ?m" using m by simp_all
    ultimately have "nat ((int f - ?c) mod ?m) < k" by linarith
    then have "bit (used s) (nat ((?c + (int f - ?c) mod ?m) mod ?m))" using k(3) m by fastforce
    moreover have "(?c + (int f - ?c) mod ?m) mod ?m = int f" using f m by (simp add: mod_simps)
    ultimately show False using f by (simp add: used_set_def)
  qed
  moreover define i where "i = nat ((?c + int k) mod ?m)"
  ultimately have i: "int i = (?c + int k) mod ?m" "i < capacity s" "i \<notin> used_set s"
    using m k(4) by (simp_all add: used_set_def nat_less_iff)
  have "find_free (nat ?m) (used s) ?m ?c 0 = Some (int i, k)" using k(2) i(1) by simp
  then have "AllocateNext s = Ret (indexToCIDRBlock (alloc_state s i k) (int i), alloc_state s i k)"
    using free full_iff [OF inv] m by (simp add: AllocateNext_def go_rem_nonneg Let_def alloc_state_def)
  then show ?thesis
    using that [of k i] \<open>k < nat ?m\<close> i k(3) same_blocksD(3) [OF alloc_state_frame(1)] m
    by (simp add: used_set_def)
qed

lemma AllocateNext_full:
  "cidr_inv s \<Longrightarrow> used_set s = {..<capacity s} \<Longrightarrow> AllocateNext s = Err ErrCIDRRangeNoCIDRsRemaining"
  using full_iff by (simp add: AllocateNext_def)

section \<open>The indices of any argument\<close>

text \<open>Whatever network it is given, the index range that the code computes lies inside the bitmap.\<close>

lemma uint_below: "unat c < 2 ^ d \<Longrightarrow> uint c < 2 ^ d"
proof -
  assume "unat c < 2 ^ d"
  then have "int (unat c) < int (2 ^ d)" by (simp only: of_nat_less_iff)
  then show ?thesis by (simp only: uint_nat of_nat_power of_nat_numeral)
qed

lemma below_exp: "c < (word_of_int (2 ^ d) :: 'a::len word) \<Longrightarrow> d < LENGTH('a) \<Longrightarrow> uint c < 2 ^ d"
  by (rule uint_below) (simp only: word_less_nat_alt unat_exp_int)

lemma below_u64:
  assumes "c < (word_of_int (2 ^ d) :: u64)" and "d < 32"
  shows "0 \<le> sint c \<and> sint c < 2 ^ d"
proof -
  have u: "uint c < 2 ^ d" using below_exp [OF assms(1)] assms(2) by simp
  also have "(2::int) ^ d \<le> 2 ^ 63" using assms(2) by (intro power_increasing) simp_all
  finally have "uint c < 2 ^ 63" .
  moreover have "- (2 ^ 63) \<le> uint c" by (rule order_trans [OF _ uint_ge_0]) simp
  ultimately have "signed_take_bit 63 (uint c) = uint c" by (intro signed_take_bit_int_eq_self)
  then have "sint c = uint c" by (simp add: sint_uint)
  then show ?thesis using u by simp
qed

lemma getIndexForIP_bounds:
  assumes g: "cidr_geom s" and r: "getIndexForIP s ip = Ret i"
  shows "0 \<le> i \<and> i < maxCIDRs s"
proof -
  obtain d where m: "maxCIDRs s = 2 ^ d" "d < 32"
    using g by (rule cidr_geom_cases) (auto simp: geom4_def geom6_def)
  show ?thesis
  proof (cases "To4 ip")
    case (Some a)
    obtain b where "ip_Uint32 (net_IP (clusterCIDR s)) = Some b"
      using r Some by (cases "ip_Uint32 (net_IP (clusterCIDR s))") (simp_all add: getIndexForIP_def)
    then have "\<exists>c. c < (word_of_int (maxCIDRs s) :: u32) \<and> i = uint c"
      using r Some unfolding getIndexForIP_def by (simp only: option.case or_panic_simps bind_out.simps Let_def not_le split: if_split_asm) auto
    then show ?thesis using below_exp m by fastforce
  next
    case None
    obtain b where "To16 ip = Some b"
      using r None by (cases "To16 ip") (simp_all add: getIndexForIP_def)
    then have "\<exists>c. c < (word_of_int (maxCIDRs s) :: u64) \<and> i = sint c"
      using r None unfolding getIndexForIP_def by (simp only: option.case Let_def not_le split: if_split_asm) auto
    then show ?thesis using below_u64 m by auto
  qed
qed

lemma range_bounds:
  assumes g: "cidr_geom s" and r: "getBeginningAndEndIndices s c = Ret (b, l)"
  shows "0 \<le> b \<and> l < maxCIDRs s"
proof -
  obtain cidr where c: "c = Some cidr" using r by (cases c) (simp_all add: getBeginningAndEndIndices_def)
  have "(b = 0 \<and> l = maxCIDRs s - 1) \<or> (\<exists>ip ip'. getIndexForIP s ip = Ret b \<and> getIndexForIP s ip' = Ret l)"
    using r unfolding getBeginningAndEndIndices_def c
    by (cases "lastIP cidr") (auto simp: go_out Let_def split: prod.splits if_splits)
  then show ?thesis using getIndexForIP_bounds [OF g] geom_max [OF g] by auto
qed

section \<open>Occupy and Release\<close>

lemma hits_cluster:
  assumes "cidr_geom s"
  shows "overlap (clusterCIDR s) cidr \<longleftrightarrow> hits (nth_block s) (capacity s) cidr \<noteq> {}"
proof
  assume "overlap (clusterCIDR s) cidr"
  then obtain ip where ip: "net_Contains (clusterCIDR s) ip" "net_Contains cidr ip" by (auto simp: overlap_def)
  then obtain i where i: "getIndexForIP s ip = Ret i" "0 \<le> i" "i < maxCIDRs s" using index_total [OF assms] by blast
  then have "net_Contains (nth_block s (nat i)) ip" using block_contains [OF assms] ip by simp
  then have "nat i \<in> hits (nth_block s) (capacity s) cidr"
    using ip i by (auto simp: hits_def overlap_def capacity_def)
  then show "hits (nth_block s) (capacity s) cidr \<noteq> {}" by auto
next
  assume "hits (nth_block s) (capacity s) cidr \<noteq> {}"
  then show "overlap (clusterCIDR s) cidr"
    using block_contains [OF assms] assms by (auto simp: hits_def overlap_def capacity_def)
qed

lemma range_hits:
  assumes "cidr_geom s" and "canon_net cidr" and "hits (nth_block s) (capacity s) cidr \<noteq> {}"
  obtains b e where "getBeginningAndEndIndices s (Some cidr) = Ret (int b, int e)"
    "hits (nth_block s) (capacity s) cidr = {b..e}" "b \<le> e"
proof -
  have "overlap (clusterCIDR s) cidr" using hits_cluster assms by blast
  then obtain b e where "getBeginningAndEndIndices s (Some cidr) = Ret (int b, int e)"
      "{i. int i < maxCIDRs s \<and> overlap (nth_block s i) cidr} = {b..e}"
    using range_overlap [OF assms(1,2)] by (auto simp: range_post_def)
  moreover have "int i < maxCIDRs s \<longleftrightarrow> i < capacity s" for i
    using capacity_geom(1) [OF assms(1)] by linarith
  ultimately show ?thesis using that [of b e] assms(3) by (auto simp: hits_def)
qed

lemma set_usage_frame:
  "same_blocks s (set_usage s)" "used_set (set_usage s) = used_set s" "nextCandidate (set_usage s) = nextCandidate s"
  "counted (set_usage s) = counted s"
  by (simp_all add: set_usage_def same_blocks_def used_set_def counted_def)

lemma Occupy_hit:
  assumes inv: "cidr_inv s" and cidr: "canon_net cidr" and h: "hits (nth_block s) (capacity s) cidr \<noteq> {}"
  obtains s' where "Occupy s (Some cidr) = Ret s'" "cidr_inv s'" "same_blocks s s'"
    "used_set s' = used_set s \<union> hits (nth_block s) (capacity s) cidr" "nextCandidate s' = nextCandidate s"
proof -
  have g: "cidr_geom s" and b: "used_set s \<subseteq> {..<capacity s}" and n: "0 \<le> nextCandidate s" "nextCandidate s < maxCIDRs s"
    using inv by (simp_all add: cidr_inv_alt)
  obtain bg e where r: "getBeginningAndEndIndices s (Some cidr) = Ret (int bg, int e)"
    "hits (nth_block s) (capacity s) cidr = {bg..e}" "bg \<le> e"
    using range_hits [OF g cidr h] by blast
  let ?t = "occupy_loop (nat (int e - int bg + 1)) (int bg) s"
  have "used_set ?t = used_set s \<union> {bg..e}"
    using r(3) by (auto simp: used_set_def occupy_loop_used nat_diff_distrib)
  moreover have "{bg..e} \<subseteq> {..<capacity s}" using r(2) by (auto simp: hits_def)
  moreover have "same_blocks s (set_usage ?t)"
    using same_blocks_trans [OF occupy_loop_frame(1) set_usage_frame(1)] .
  ultimately show ?thesis
    using that [of "set_usage ?t"] r b n occupy_loop_frame(2) occupy_loop_counted [OF counted_inv [OF inv]]
    by (simp add: Occupy_def set_usage_frame cidr_invI [OF inv])
qed

lemma Release_hit:
  assumes inv: "cidr_inv s" and cidr: "canon_net cidr" and h: "hits (nth_block s) (capacity s) cidr \<noteq> {}"
  obtains s' where "Release s (Some cidr) = Ret s'" "cidr_inv s'" "same_blocks s s'"
    "used_set s' = used_set s - hits (nth_block s) (capacity s) cidr" "nextCandidate s' = nextCandidate s"
proof -
  have g: "cidr_geom s" and b: "used_set s \<subseteq> {..<capacity s}" and n: "0 \<le> nextCandidate s" "nextCandidate s < maxCIDRs s"
    using inv by (simp_all add: cidr_inv_alt)
  obtain bg e where r: "getBeginningAndEndIndices s (Some cidr) = Ret (int bg, int e)"
    "hits (nth_block s) (capacity s) cidr = {bg..e}" "bg \<le> e"
    using range_hits [OF g cidr h] by blast
  let ?t = "release_loop (nat (int e - int bg + 1)) (int bg) s"
  have "used_set ?t = used_set s - {bg..e}"
    using r(3) by (auto simp: used_set_def release_loop_used nat_diff_distrib)
  moreover from this have "used_set ?t \<subseteq> {..<capacity s}" using b by auto
  moreover have "same_blocks s (set_usage ?t)"
    using same_blocks_trans [OF release_loop_frame(1) set_usage_frame(1)] .
  ultimately show ?thesis
    using that [of "set_usage ?t"] r n release_loop_frame(2) release_loop_counted [OF counted_inv [OF inv]]
    by (simp add: Release_def set_usage_frame cidr_invI [OF inv])
qed

lemma Occupy_Release_miss:
  assumes "cidr_inv s" and "canon_net cidr" and "hits (nth_block s) (capacity s) cidr = {}"
  shows "Occupy s (Some cidr) = Err (ErrOutOfClusterRange cidr (clusterCIDR s))"
    and "Release s (Some cidr) = Err (ErrOutOfClusterRange cidr (clusterCIDR s))"
proof -
  have g: "cidr_geom s" using assms(1) by (simp add: cidr_inv_def)
  then have "getBeginningAndEndIndices s (Some cidr) = Err (ErrOutOfClusterRange cidr (clusterCIDR s))"
    using range_overlap [OF g assms(2)] hits_cluster [OF g] assms(3) by (simp add: range_post_def)
  then show "Occupy s (Some cidr) = Err (ErrOutOfClusterRange cidr (clusterCIDR s))"
    and "Release s (Some cidr) = Err (ErrOutOfClusterRange cidr (clusterCIDR s))"
    by (simp_all add: Occupy_def Release_def)
qed

section \<open>The contract holds\<close>

lemma block_canon_net:
  assumes "cidr_geom s" and "i < capacity s"
  shows "canon_net (nth_block s i)"
  using assms(1)
proof (cases rule: cidr_geom_cases)
  case (v4 w c n)
  then show ?thesis using net_base_sub_base [of w c n i] by (simp add: block4 [OF v4] geom4_def)
next
  case (v6 w c n)
  then have i: "i < 2 ^ (n - c)" using assms by (simp add: capacity_def geom6_def nat_power_eq)
  have "sub_base w n i \<in> net_addrs w c" using sub_base_in_net [of c n i w] v6 i by (simp add: geom6_def)
  then have "\<not> is4in6 (sub_base w n i)" using no4in6_addr v6 by (auto simp: geom6_def)
  then show ?thesis using v6 net_base_sub_base [of w c n i] by (simp add: block6 [OF v6 i] geom6_def)
qed

lemma block_nonempty:
  assumes "canon_net n"
  shows "net_Contains n (net_IP n)"
  using assms by (cases rule: canon_net_cases) (auto simp: net_Contains4 net_Contains6)

lemma block_hits_self:
  assumes g: "cidr_geom s" and i: "i < capacity s"
  shows "hits (nth_block s) (capacity s) (nth_block s i) = {i}"
proof -
  have "overlap (nth_block s j) (nth_block s i) \<longleftrightarrow> j = i" if "j < capacity s" for j
    using block_contains [OF g, of "int j"] block_contains [OF g, of "int i"] i that
      block_nonempty [OF block_canon_net [OF assms]] capacity_geom(1) [OF g]
    by (auto simp: overlap_def)
  then show ?thesis using i by (auto simp: hits_def)
qed

lemma AllocateNext_contract:
  assumes inv: "cidr_inv s" and free: "used_set s \<noteq> {..<capacity s}"
  shows "\<exists>i s'. AllocateNext s = Ret (nth_block s i, s') \<and> i < capacity s \<and> i \<notin> used_set s \<and> cidr_inv s' \<and>
    capacity s' = capacity s \<and> nth_block s' = nth_block s \<and> used_set s' = insert i (used_set s)"
proof -
  obtain i k where i: "i < capacity s" "i \<notin> used_set s" "AllocateNext s = Ret (nth_block s i, alloc_state s i k)"
    by (rule AllocateNext_free [OF inv free])
  then show ?thesis
    using alloc_state_inv [OF inv i(1,2)] same_blocksD(2,3) [OF alloc_state_frame(1)] alloc_state_frame(2)
    by (intro exI [of _ i] exI [of _ "alloc_state s i k"]) simp
qed

lemma Occupy_contract:
  assumes "cidr_inv s" and "canon_net c" and "hits (nth_block s) (capacity s) c \<noteq> {}"
  shows "\<exists>s'. Occupy s (Some c) = Ret s' \<and> cidr_inv s' \<and> capacity s' = capacity s \<and> nth_block s' = nth_block s \<and>
    used_set s' = used_set s \<union> hits (nth_block s) (capacity s) c"
proof -
  obtain s' where s': "Occupy s (Some c) = Ret s'" "cidr_inv s'" "same_blocks s s'"
    "used_set s' = used_set s \<union> hits (nth_block s) (capacity s) c"
    by (rule Occupy_hit [OF assms])
  then show ?thesis using same_blocksD(2,3) [OF s'(3)] by (intro exI [of _ s']) simp
qed

lemma Release_contract:
  assumes "cidr_inv s" and "canon_net c" and "hits (nth_block s) (capacity s) c \<noteq> {}"
  shows "\<exists>s'. Release s (Some c) = Ret s' \<and> cidr_inv s' \<and> capacity s' = capacity s \<and> nth_block s' = nth_block s \<and>
    used_set s' = used_set s - hits (nth_block s) (capacity s) c"
proof -
  obtain s' where s': "Release s (Some c) = Ret s'" "cidr_inv s'" "same_blocks s s'"
    "used_set s' = used_set s - hits (nth_block s) (capacity s) c"
    by (rule Release_hit [OF assms])
  then show ?thesis using same_blocksD(2,3) [OF s'(3)] by (intro exI [of _ s']) simp
qed

lemma cidr_inv_geom: "cidr_inv s \<Longrightarrow> cidr_geom s"
  by (simp add: cidr_inv_def)

interpretation cs: cidr_pool cidr_inv capacity used_set nth_block AllocateNext Occupy Release
proof unfold_locales
  show "\<exists>e. Occupy s (Some c) = Err e" "\<exists>e. Release s (Some c) = Err e"
    if "cidr_inv s" "canon_net c" "hits (nth_block s) (capacity s) c = {}" for s c
    using Occupy_Release_miss [OF that] by auto
qed (use AllocateNext_full AllocateNext_contract Occupy_contract Release_contract block_canon_net
  block_hits_self cidr_inv_geom in \<open>simp_all add: cidr_inv_alt\<close>)

section \<open>Properties\<close>

text \<open>
  The specification of \<^verbatim>\<open>AllocateNext\<close>: the first index at or after \<open>start\<close>, wrapping around,
  that is not busy.
\<close>

definition first_free :: "nat \<Rightarrow> nat \<Rightarrow> (nat \<Rightarrow> bool) \<Rightarrow> nat option" where
  "first_free cap start busy = find (\<lambda>i. \<not> busy i) (map (\<lambda>k. (start + k) mod cap) [0..<cap])"

lemma first_freeI:
  assumes "k < cap" and "\<not> busy ((start + k) mod cap)" and "\<And>j. j < k \<Longrightarrow> busy ((start + j) mod cap)"
  shows "first_free cap start busy = Some ((start + k) mod cap)"
  unfolding first_free_def find_Some_iff using assms by (intro exI [of _ k]) auto

lemma first_free_full: "(\<And>i. i < cap \<Longrightarrow> busy i) \<Longrightarrow> first_free cap start busy = None"
  by (cases "cap = 0") (auto simp: first_free_def find_None_iff)

text \<open>The concrete sets that the witnesses run on: a small IPv4 and a small IPv6 cluster.\<close>

definition demo4 :: IPNet where
  "demo4 = net4 0x0AF40000 16"

definition demo6 :: IPNet where
  "demo6 = net6 0xfd000000000000000000000000000000 64"

definition set_of :: "(cidr_error, CidrSet) outcome \<Rightarrow> CidrSet" where
  "set_of r = (case r of Ret s \<Rightarrow> s | _ \<Rightarrow> undefined)"

definition demo_set4 :: CidrSet where
  "demo_set4 = set_of (NewCIDRSet demo4 24)"

definition demo_set6 :: CidrSet where
  "demo_set6 = set_of (NewCIDRSet demo6 80)"

lemma NewCIDRSet_inv:
  assumes ok: "cluster_ok cluster sz" and s: "NewCIDRSet cluster sz = Ret s"
  shows "cidr_inv s" and "used_set s = {}"
proof -
  have "used s = 0" "allocatedCIDRs s = 0" "nextCandidate s = 0" "allocations_total (cs_metrics s) = 0"
    "releases_total (cs_metrics s) = 0"
    using s by (auto simp: NewCIDRSet_def Let_def split: prod.splits if_splits)
  then show "cidr_inv s" "used_set s = {}"
    using NewCIDRSet_geom [OF assms] geom_max [of s] by (auto simp: cidr_inv_alt used_set_def)
qed

lemma demo_ok: "cluster_ok demo4 24" "cluster_ok demo6 80"
  by (simp_all add: cluster_ok_def demo4_def demo6_def net_base_def clusterSubnetMaxDiff_def no4in6_def is4in6_def)

lemma demo_sets: "NewCIDRSet demo4 24 = Ret demo_set4" "NewCIDRSet demo6 80 = Ret demo_set6"
  using NewCIDRSet_total [OF demo_ok(1)] NewCIDRSet_total [OF demo_ok(2)]
  by (auto simp: demo_set4_def demo_set6_def set_of_def)

lemmas demo_inv = NewCIDRSet_inv [OF demo_ok(1) demo_sets(1)] NewCIDRSet_inv [OF demo_ok(2) demo_sets(2)]

lemma NewCIDRSet_fields:
  assumes "NewCIDRSet cluster sz = Ret s"
  shows "clusterCIDR s = cluster" "nodeMaskSize s = sz"
    "maxCIDRs s = getMaxCIDRs sz (fst (mask_Size (net_Mask cluster)))"
  using assms by (auto simp: NewCIDRSet_def Let_def split: prod.splits if_splits)

lemma demo_fields:
  "clusterCIDR demo_set4 = demo4" "maxCIDRs demo_set4 = 256"
  "clusterCIDR demo_set6 = demo6" "maxCIDRs demo_set6 = 65536"
  using NewCIDRSet_fields [OF demo_sets(1)] NewCIDRSet_fields [OF demo_sets(2)]
    getMaxCIDRs_exp [of 16 24] getMaxCIDRs_exp [of 64 80]
  by (simp_all add: demo4_def demo6_def)

lemma demo_capacity: "capacity demo_set4 = 256" "capacity demo_set6 = 65536"
  by (simp_all add: capacity_def demo_fields)

end
