(* ===== verification/CidrSetProps.thy ===== *)
theory CidrSetProps
  imports CidrSetAlloc
begin

text \<open>
  The properties of \<^verbatim>\<open>pkg/nodeipam/ipam/cidrset\<close>: what a new set is, which addresses its blocks
  hold, what every operation does to the set of blocks in use, and that the invariant holds in
  every state that a sequence of calls reaches.
\<close>

section \<open>New sets\<close>

lemma geom_capacity:
  assumes "cidr_geom s"
  shows "capacity s = 2 ^ nat (nodeMaskSize s - clusterMaskSize s)"
  using assms by (cases rule: cidr_geom_cases) (auto simp: geom4_def geom6_def capacity_def nat_power_eq nat_diff_distrib)

text \<open>
  For a cluster CIDR as \<^verbatim>\<open>net.ParseCIDR\<close> returns it and a node mask that is not shorter than
  the cluster mask, \<^verbatim>\<open>NewCIDRSet\<close> returns a set without used blocks that satisfies the invariant
  and has \<open>2 ^ (node mask - cluster mask)\<close> blocks.
\<close>

theorem NewCIDRSet_establishes:
  assumes "cluster_ok cluster sz"
  shows "\<exists>s. NewCIDRSet cluster sz = Ret s \<and> cidr_inv s \<and> used_set s = {} \<and> clusterCIDR s = cluster \<and>
    capacity s = 2 ^ nat (sz - fst (mask_Size (net_Mask cluster)))"
proof -
  obtain s where s: "NewCIDRSet cluster sz = Ret s" using NewCIDRSet_total [OF assms] by blast
  have "clusterMaskSize s = fst (mask_Size (net_Mask cluster))"
    using s by (auto simp: NewCIDRSet_def Let_def split: prod.splits if_splits)
  then show ?thesis
    using s NewCIDRSet_inv [OF assms s] NewCIDRSet_fields [OF s] geom_capacity [OF NewCIDRSet_geom [OF assms s]] by auto
qed

theorem NewCIDRSet_establishes_witness:
  "\<exists>s. NewCIDRSet demo6 80 = Ret s \<and> cidr_inv s \<and> used_set s = {} \<and> clusterCIDR s = demo6 \<and>
    capacity s = 2 ^ nat (80 - fst (mask_Size (net_Mask demo6)))"
  using NewCIDRSet_establishes [OF demo_ok(2)] .

text \<open>The mask size of a network is at most 128.\<close>

lemma mask_Size_bounds: "0 \<le> fst (mask_Size k)" "fst (mask_Size k) \<le> 128"
  by (cases k; auto split: option.split dest: simpleMaskLength_Some(2))+

text \<open>
  a node mask shorter than the cluster mask is not rejected; the shift count wraps around,
  the set has no blocks at all, and every allocation reports that none remain.
\<close>

theorem NewCIDRSet_inverted_masks:
  assumes "0 \<le> sz" and "sz < fst (mask_Size (net_Mask cluster))"
  shows "\<exists>s. NewCIDRSet cluster sz = Ret s \<and> maxCIDRs s = 0 \<and> AllocateNext s = Err ErrCIDRRangeNoCIDRsRemaining"
proof -
  let ?c = "fst (mask_Size (net_Mask cluster))"
  have d: "0 \<le> 2 ^ 32 + (sz - ?c)" "2 ^ 32 + (sz - ?c) < 2 ^ 32"
    using assms mask_Size_bounds(2) [of "net_Mask cluster"] by simp_all
  have "(sz - ?c) mod 2 ^ 32 = (2 ^ 32 + (sz - ?c)) mod 2 ^ 32" by (rule mod_add_self1 [symmetric])
  also have "\<dots> = 2 ^ 32 + (sz - ?c)" by (rule mod_pos_pos_trivial [OF d])
  finally have "to_u32 (sz - ?c) = nat (2 ^ 32 + (sz - ?c))" by (simp only: to_u32_def)
  moreover have "64 \<le> nat (2 ^ 32 + (sz - ?c))"
    using assms mask_Size_bounds(2) [of "net_Mask cluster"] by simp
  ultimately have "getMaxCIDRs sz ?c = 0"
    by (simp add: getMaxCIDRs_def shl_def del: shl_eq)
  moreover have "sz - ?c \<le> clusterSubnetMaxDiff" using assms by (simp add: clusterSubnetMaxDiff_def)
  ultimately show ?thesis
    by (auto simp: NewCIDRSet_def AllocateNext_def Let_def split: prod.splits)
qed

theorem NewCIDRSet_inverted_masks_witness:
  "\<exists>s. NewCIDRSet demo4 12 = Ret s \<and> maxCIDRs s = 0 \<and> AllocateNext s = Err ErrCIDRRangeNoCIDRsRemaining"
  using NewCIDRSet_inverted_masks [of 12 demo4] by (simp add: demo4_def)

section \<open>Blocks and addresses\<close>

text \<open>
  C6: the blocks of a set partition its cluster CIDR. An address is in the cluster exactly when
  one block, and only one, holds it, for IPv4 and IPv6 and every pair of mask sizes; there
  \<^verbatim>\<open>getIndexForIP\<close> finds the index of that block.
\<close>

theorem blocks_partition_cluster:
  assumes "cidr_geom s"
  shows "(net_Contains (clusterCIDR s) ip \<longleftrightarrow> (\<exists>!i. i < capacity s \<and> net_Contains (nth_block s i) ip)) \<and>
    (\<forall>i<capacity s. net_Contains (nth_block s i) ip \<longrightarrow> getIndexForIP s ip = Ret (int i))"
proof -
  have b: "net_Contains (nth_block s i) ip \<longleftrightarrow> net_Contains (clusterCIDR s) ip \<and> getIndexForIP s ip = Ret (int i)"
    if "i < capacity s" for i
    using block_contains [OF assms, of "int i"] that capacity_geom(1) [OF assms] by simp
  have "\<exists>i<capacity s. getIndexForIP s ip = Ret (int i)" if ip: "net_Contains (clusterCIDR s) ip"
  proof -
    obtain i where "getIndexForIP s ip = Ret i" "0 \<le> i" "i < maxCIDRs s" by (rule index_total [OF assms ip])
    then show ?thesis using capacity_geom(1) [OF assms] by (intro exI [of _ "nat i"]) auto
  qed
  then show ?thesis using b by (metis int_int_eq outcome.inject(1))
qed

theorem blocks_partition_cluster_witness:
  "(net_Contains (clusterCIDR demo_set6) (IP16 0xfd000000000000000000000000000001) \<longleftrightarrow>
    (\<exists>!i. i < capacity demo_set6 \<and> net_Contains (nth_block demo_set6 i) (IP16 0xfd000000000000000000000000000001)))"
  using blocks_partition_cluster [OF cidr_inv_geom [OF demo_inv(3)]] by blast

section \<open>Allocation\<close>

text \<open>
  C2: \<^verbatim>\<open>AllocateNext\<close> implements the search for the first free block at or after the candidate,
  wrapping around: it fails exactly when there is none, and otherwise returns that block, marks it,
  moves the candidate past it and keeps the invariant.
\<close>

theorem AllocateNext_first_free:
  assumes inv: "cidr_inv s"
  shows "case first_free (capacity s) (nat (nextCandidate s)) (\<lambda>i. i \<in> used_set s) of
      None \<Rightarrow> AllocateNext s = Err ErrCIDRRangeNoCIDRsRemaining
    | Some i \<Rightarrow> \<exists>s'. AllocateNext s = Ret (nth_block s i, s') \<and> cidr_inv s' \<and> same_blocks s s' \<and>
        used_set s' = insert i (used_set s) \<and> i \<notin> used_set s \<and> i < capacity s \<and>
        nextCandidate s' = int ((i + 1) mod capacity s)"
proof (cases "used_set s = {..<capacity s}")
  case True
  then show ?thesis using AllocateNext_full [OF inv] by (simp add: first_free_full)
next
  case False
  have m: "maxCIDRs s = int (capacity s)" and c: "nextCandidate s = int (nat (nextCandidate s))"
    using inv capacity_geom(1) by (simp_all add: cidr_inv_alt)
  obtain i k where k: "k < capacity s" "int i = (nextCandidate s + int k) mod maxCIDRs s" "i < capacity s"
    "i \<notin> used_set s" "\<And>j. j < k \<Longrightarrow> nat ((nextCandidate s + int j) mod maxCIDRs s) \<in> used_set s"
    "AllocateNext s = Ret (nth_block s i, alloc_state s i k)"
    by (rule AllocateNext_free [OF inv False]) blast
  have idx: "nat ((nextCandidate s + int j) mod maxCIDRs s) = (nat (nextCandidate s) + j) mod capacity s" for j
    unfolding m by (subst c) (simp only: of_nat_add [symmetric] zmod_int [symmetric] nat_int)
  have i: "i = (nat (nextCandidate s) + k) mod capacity s" using idx [of k] k(2) by simp
  have "first_free (capacity s) (nat (nextCandidate s)) (\<lambda>i. i \<in> used_set s) = Some i"
    unfolding i using k(1,4,5) idx i by (intro first_freeI) auto
  then show ?thesis
    using k(3,4,6) alloc_state_inv [OF inv k(3,4), of k] alloc_state_frame [of s i k] m
    by (simp add: zmod_int add.commute)
qed

theorem AllocateNext_first_free_witness:
  "case first_free (capacity demo_set4) (nat (nextCandidate demo_set4)) (\<lambda>i. i \<in> used_set demo_set4) of
      None \<Rightarrow> AllocateNext demo_set4 = Err ErrCIDRRangeNoCIDRsRemaining
    | Some i \<Rightarrow> \<exists>s'. AllocateNext demo_set4 = Ret (nth_block demo_set4 i, s') \<and> cidr_inv s' \<and> same_blocks demo_set4 s' \<and>
        used_set s' = insert i (used_set demo_set4) \<and> i \<notin> used_set demo_set4 \<and> i < capacity demo_set4 \<and>
        nextCandidate s' = int ((i + 1) mod capacity demo_set4)"
  using AllocateNext_first_free [OF demo_inv(1)] .

text \<open>
  as long as \<open>k\<close> blocks are free, \<open>k\<close> calls of \<^verbatim>\<open>AllocateNext\<close> in a row all succeed, the CIDRs
  they return are pairwise disjoint, and none overlaps a block that was in use before.
\<close>

theorem AllocateNext_run_disjoint:
  assumes "cidr_inv s" and "card (used_set s) + k \<le> capacity s"
  shows "\<exists>cs s'. repeat_out AllocateNext k s = Ret (cs, s') \<and> cidr_inv s' \<and> length cs = k \<and>
    (\<forall>a<k. \<forall>b<k. a \<noteq> b \<longrightarrow> \<not> overlap (cs ! a) (cs ! b)) \<and>
    (\<forall>a<k. \<forall>j\<in>used_set s. \<not> overlap (cs ! a) (nth_block s j))"
  by (rule cs.alloc_many_disjoint [OF assms])

theorem AllocateNext_run_disjoint_witness:
  "\<exists>cs s'. repeat_out AllocateNext 256 demo_set4 = Ret (cs, s') \<and> cidr_inv s' \<and> length cs = 256 \<and>
    (\<forall>a<256. \<forall>b<256. a \<noteq> b \<longrightarrow> \<not> overlap (cs ! a) (cs ! b)) \<and>
    (\<forall>a<256. \<forall>j\<in>used_set demo_set4. \<not> overlap (cs ! a) (nth_block demo_set4 j))"
  using AllocateNext_run_disjoint [OF demo_inv(1), of 256] by (simp add: demo_inv demo_capacity)

text \<open>
  More calls than there are free blocks end in the error that no CIDRs remain; in
  particular \<^verbatim>\<open>AllocateNext\<close> never hands out a block twice to get there.
\<close>

theorem AllocateNext_run_exhausts:
  assumes "cidr_inv s" and "capacity s < card (used_set s) + k"
  shows "repeat_out AllocateNext k s = Err ErrCIDRRangeNoCIDRsRemaining"
  by (rule cs.alloc_exhausts [OF assms])

theorem AllocateNext_run_exhausts_witness:
  "repeat_out AllocateNext 257 demo_set4 = Err ErrCIDRRangeNoCIDRsRemaining"
  using AllocateNext_run_exhausts [OF demo_inv(1), of 257] by (simp add: demo_inv demo_capacity)

text \<open>
  Releasing the CIDR that \<^verbatim>\<open>AllocateNext\<close> has just returned succeeds and restores the set of
  blocks in use.
\<close>

theorem AllocateNext_Release:
  assumes "cidr_inv s" and "AllocateNext s = Ret (cidr, s')"
  shows "\<exists>s''. Release s' (Some cidr) = Ret s'' \<and> cidr_inv s'' \<and> used_set s'' = used_set s \<and>
    capacity s'' = capacity s \<and> nth_block s'' = nth_block s"
  by (rule cs.alloc_release [OF assms])

theorem AllocateNext_Release_witness:
  "\<exists>cidr s' s''. AllocateNext demo_set6 = Ret (cidr, s') \<and> Release s' (Some cidr) = Ret s'' \<and>
    used_set s'' = used_set demo_set6"
proof -
  obtain cidr s' where "AllocateNext demo_set6 = Ret (cidr, s')"
    using cs.alloc_iff [OF demo_inv(3)] by (auto simp: demo_inv demo_capacity)
  then show ?thesis using AllocateNext_Release [OF demo_inv(3)] by blast
qed

section \<open>Occupy and Release\<close>

text \<open>
  C10: \<^verbatim>\<open>Occupy\<close> of a CIDR of any size marks exactly the blocks that share an address with it,
  nothing else changes in the set of blocks in use; it fails, without effect, exactly when the
  cluster shares no address with the CIDR.
\<close>

theorem Occupy_marks_overlapping:
  assumes "cidr_inv s" and "canon_net cidr"
  shows "if overlap (clusterCIDR s) cidr
    then \<exists>s'. Occupy s (Some cidr) = Ret s' \<and> cidr_inv s' \<and> same_blocks s s' \<and>
      (\<forall>i. i \<in> used_set s' \<longleftrightarrow> i \<in> used_set s \<or> (i < capacity s \<and> overlap (nth_block s i) cidr))
    else Occupy s (Some cidr) = Err (ErrOutOfClusterRange cidr (clusterCIDR s))"
proof (cases "hits (nth_block s) (capacity s) cidr = {}")
  case True
  then show ?thesis
    using hits_cluster [OF cidr_inv_geom [OF assms(1)]] Occupy_Release_miss(1) [OF assms] by simp
next
  case False
  show ?thesis
    by (rule Occupy_hit [OF assms False])
      (use hits_cluster [OF cidr_inv_geom [OF assms(1)], of cidr] False in \<open>simp add: hits_def\<close>)
qed

theorem Occupy_marks_overlapping_witness:
  "if overlap (clusterCIDR demo_set4) (net4 0x0AF40600 23)
    then \<exists>s'. Occupy demo_set4 (Some (net4 0x0AF40600 23)) = Ret s' \<and> cidr_inv s' \<and> same_blocks demo_set4 s' \<and>
      (\<forall>i. i \<in> used_set s' \<longleftrightarrow> i \<in> used_set demo_set4 \<or>
        (i < capacity demo_set4 \<and> overlap (nth_block demo_set4 i) (net4 0x0AF40600 23)))
    else Occupy demo_set4 (Some (net4 0x0AF40600 23)) =
      Err (ErrOutOfClusterRange (net4 0x0AF40600 23) (clusterCIDR demo_set4))"
  by (rule Occupy_marks_overlapping [OF demo_inv(1)]) (simp add: net_base_def)

text \<open>
  C11: \<^verbatim>\<open>Release\<close> frees exactly the blocks that share an address with the CIDR, whether or not they
  were in use, and fails exactly when the cluster shares no address with it.
\<close>

theorem Release_frees_overlapping:
  assumes "cidr_inv s" and "canon_net cidr"
  shows "if overlap (clusterCIDR s) cidr
    then \<exists>s'. Release s (Some cidr) = Ret s' \<and> cidr_inv s' \<and> same_blocks s s' \<and>
      (\<forall>i. i \<in> used_set s' \<longleftrightarrow> i \<in> used_set s \<and> \<not> overlap (nth_block s i) cidr)
    else Release s (Some cidr) = Err (ErrOutOfClusterRange cidr (clusterCIDR s))"
proof (cases "hits (nth_block s) (capacity s) cidr = {}")
  case True
  then show ?thesis
    using hits_cluster [OF cidr_inv_geom [OF assms(1)]] Occupy_Release_miss(2) [OF assms] by simp
next
  case False
  then have "overlap (clusterCIDR s) cidr" using hits_cluster [OF cidr_inv_geom [OF assms(1)]] by simp
  moreover have "used_set s - hits (nth_block s) (capacity s) cidr = {i \<in> used_set s. \<not> overlap (nth_block s i) cidr}"
    using cs.taken_bound [OF assms(1)] by (auto simp: hits_def)
  moreover obtain s' where "Release s (Some cidr) = Ret s'" "cidr_inv s'" "same_blocks s s'"
    "used_set s' = used_set s - hits (nth_block s) (capacity s) cidr"
    by (rule Release_hit [OF assms False])
  ultimately show ?thesis by auto
qed

theorem Release_frees_overlapping_witness:
  "if overlap (clusterCIDR demo_set6) (net6 0xfd000000000000000000000000000000 60)
    then \<exists>s'. Release demo_set6 (Some (net6 0xfd000000000000000000000000000000 60)) = Ret s' \<and> cidr_inv s' \<and>
      same_blocks demo_set6 s' \<and>
      (\<forall>i. i \<in> used_set s' \<longleftrightarrow> i \<in> used_set demo_set6 \<and>
        \<not> overlap (nth_block demo_set6 i) (net6 0xfd000000000000000000000000000000 60))
    else Release demo_set6 (Some (net6 0xfd000000000000000000000000000000 60)) =
      Err (ErrOutOfClusterRange (net6 0xfd000000000000000000000000000000 60) (clusterCIDR demo_set6))"
  by (rule Release_frees_overlapping [OF demo_inv(3)]) (simp add: net_base_def is4in6_def)

section \<open>Every reachable state\<close>

text \<open>
  The calls that the allocators make on a set, in any order and any number: a call that returns
  an error leaves the set as it is.
\<close>

inductive cs_reach :: "IPNet \<Rightarrow> int \<Rightarrow> CidrSet \<Rightarrow> bool" for cluster sz where
  new: "NewCIDRSet cluster sz = Ret s \<Longrightarrow> cs_reach cluster sz s"
| allocate: "cs_reach cluster sz s \<Longrightarrow> AllocateNext s = Ret (c, s') \<Longrightarrow> cs_reach cluster sz s'"
| occupy: "cs_reach cluster sz s \<Longrightarrow> canon_net c \<Longrightarrow> Occupy s (Some c) = Ret s' \<Longrightarrow> cs_reach cluster sz s'"
| release: "cs_reach cluster sz s \<Longrightarrow> canon_net c \<Longrightarrow> Release s (Some c) = Ret s' \<Longrightarrow> cs_reach cluster sz s'"

lemma AllocateNext_step:
  assumes "cidr_inv s" and "AllocateNext s = Ret (c, s')"
  shows "cidr_inv s'" and "same_blocks s s'"
proof -
  have "used_set s \<noteq> {..<capacity s}" using assms AllocateNext_full by fastforce
  then obtain i k where "i < capacity s" "i \<notin> used_set s" "s' = alloc_state s i k"
    using AllocateNext_free [OF assms(1)] assms(2) by (metis outcome.inject(1) prod.inject)
  then show "cidr_inv s'" "same_blocks s s'" using alloc_state_inv [OF assms(1)] alloc_state_frame(1) by auto
qed

lemma Occupy_step:
  assumes "cidr_inv s" and "canon_net c" and "Occupy s (Some c) = Ret s'"
  shows "cidr_inv s'" and "same_blocks s s'"
  using Occupy_hit [OF assms(1,2)] Occupy_Release_miss(1) [OF assms(1,2)] assms(3)
  by (metis outcome.distinct(1) outcome.inject(1))+

lemma Release_step:
  assumes "cidr_inv s" and "canon_net c" and "Release s (Some c) = Ret s'"
  shows "cidr_inv s'" and "same_blocks s s'"
  using Release_hit [OF assms(1,2)] Occupy_Release_miss(2) [OF assms(1,2)] assms(3)
  by (metis outcome.distinct(1) outcome.inject(1))+

lemma reach_inv:
  assumes "cluster_ok cluster sz" and "cs_reach cluster sz s"
  shows "cidr_inv s \<and> clusterCIDR s = cluster"
  using assms(2)
proof (induction rule: cs_reach.induct)
  case (new s)
  then show ?case using NewCIDRSet_inv(1) [OF assms(1)] NewCIDRSet_fields(1) by blast
next
  case (allocate s c s')
  then show ?case using AllocateNext_step [of s c s'] by (simp add: same_blocks_def)
next
  case (occupy s c s')
  then show ?case using Occupy_step [of s c s'] by (simp add: same_blocks_def)
next
  case (release s c s')
  then show ?case using Release_step [of s c s'] by (simp add: same_blocks_def)
qed

text \<open>
  C7: in every state that calls of \<^verbatim>\<open>AllocateNext\<close>, \<^verbatim>\<open>Occupy\<close> and \<^verbatim>\<open>Release\<close> reach from a new set, the
  counter of allocated CIDRs is the number of blocks in use and at most the maximum, the metrics
  counters differ by exactly that number, and none of the calls panics.
\<close>

theorem reachable_sets_consistent:
  assumes "cluster_ok cluster sz" and "cs_reach cluster sz s" and "canon_net cidr"
  shows "allocatedCIDRs s = int (card (used_set s)) \<and> allocatedCIDRs s \<le> maxCIDRs s \<and>
    int (allocations_total (cs_metrics s)) - int (releases_total (cs_metrics s)) = allocatedCIDRs s \<and>
    AllocateNext s \<noteq> Panic \<and> Occupy s (Some cidr) \<noteq> Panic \<and> Release s (Some cidr) \<noteq> Panic"
proof -
  have inv: "cidr_inv s" using reach_inv [OF assms(1,2)] by simp
  have "allocatedCIDRs s = int (card (used_set s))"
    and "int (allocations_total (cs_metrics s)) - int (releases_total (cs_metrics s)) = allocatedCIDRs s"
    using inv by (simp_all add: cidr_inv_alt)
  moreover from this have "allocatedCIDRs s \<le> maxCIDRs s"
    using cs.card_taken [OF inv] capacity_geom(1) [OF cidr_inv_geom [OF inv]] by simp
  moreover have "AllocateNext s \<noteq> Panic" using cs.alloc_full [OF inv] cs.alloc_free [OF inv] by fastforce
  moreover have "Occupy s (Some cidr) \<noteq> Panic" using cs.occupy_hit [OF inv assms(3)] cs.occupy_miss [OF inv assms(3)] by fastforce
  moreover have "Release s (Some cidr) \<noteq> Panic" using cs.release_hit [OF inv assms(3)] cs.release_miss [OF inv assms(3)] by fastforce
  ultimately show ?thesis by blast
qed

theorem reachable_sets_consistent_witness:
  "allocatedCIDRs demo_set4 = int (card (used_set demo_set4))"
  using reachable_sets_consistent [OF demo_ok(1) cs_reach.new [OF demo_sets(1)], of demo4]
  by (simp add: demo4_def net_base_def)

text \<open>
  An IPv4 set with \<open>2 ^ 32\<close> blocks (a /0 cluster cut into /32 blocks) cannot be occupied or
  released by address: the 32-bit conversion of the maximum is zero, so every index is out of range.
\<close>

theorem getIndexForIP_overflow:
  assumes "maxCIDRs s = 2 ^ 32" and "To4 ip = Some a" and "net_IP (clusterCIDR s) = IP4 w"
  shows "getIndexForIP s ip = Err (ErrOutOfAllocatorRange ip (nodeMaskSize s))"
proof -
  have "(word_of_int (maxCIDRs s) :: u32) = 0" unfolding assms(1) by simp
  then show ?thesis using assms(2,3) by (simp add: getIndexForIP_def Let_def)
qed

theorem getIndexForIP_overflow_witness:
  "getIndexForIP (demo_set4\<lparr>clusterCIDR := net4 0 0, clusterMaskSize := 0, nodeMaskSize := 32, maxCIDRs := 2 ^ 32\<rparr>) (IP4 5) =
    Err (ErrOutOfAllocatorRange (IP4 5) 32)"
  using getIndexForIP_overflow [of "demo_set4\<lparr>clusterCIDR := net4 0 0, clusterMaskSize := 0, nodeMaskSize := 32, maxCIDRs := 2 ^ 32\<rparr>"
    "IP4 5" 5 0] by simp

end
