(* ===== verification/K8sApi.thy ===== *)
theory K8sApi
  imports CidrSetProps
begin

text \<open>
  The Kubernetes objects and errors that the controllers exchange: the parts of a \<^verbatim>\<open>v1.Node\<close> the
  program reads or writes, Go error values with and without a wrapped cause, and calls that change
  a state and may fail. The helpers of \<^verbatim>\<open>pkg/utils/node\<close> and \<^verbatim>\<open>pkg/utils/controller/node\<close> and
  \<^verbatim>\<open>ipam/cidr_allocator.go\<close> that both allocators use are here too.
\<close>

section \<open>Errors\<close>

datatype api_reason = NotFound | ServerTimeout | AlreadyExists | OtherReason string

text \<open>
  An error value: an API status, an error of the CIDR set, a message, or a message around a cause
  made with \<^verbatim>\<open>%w\<close> (the cause stays reachable for \<^verbatim>\<open>errors.As\<close>) or with \<^verbatim>\<open>%v\<close> (only its text remains).
  Messages are kept without their arguments.
\<close>

datatype go_err =
    StatusError api_reason
  | CidrError cidr_error
  | Errorf string
  | Errorf_w string go_err
  | Errorf_v string go_err

text \<open>\<^verbatim>\<open>apierrors.ReasonForError\<close> looks for a status along the chain of wrapped errors.\<close>

fun ReasonForError :: "go_err \<Rightarrow> api_reason option" where
  "ReasonForError (StatusError r) = Some r"
| "ReasonForError (Errorf_w _ e) = ReasonForError e"
| "ReasonForError _ = None"

definition IsServerTimeout :: "go_err \<Rightarrow> bool" where
  "IsServerTimeout e \<longleftrightarrow> ReasonForError e = Some ServerTimeout"

definition IsNotFound :: "go_err \<Rightarrow> bool" where
  "IsNotFound e \<longleftrightarrow> ReasonForError e = Some NotFound"

section \<open>Calls that change a state\<close>

type_synonym ('s, 'a) act = "'s \<Rightarrow> (go_err, 'a) outcome \<times> 's"

definition ret_act :: "'a \<Rightarrow> ('s, 'a) act" where
  "ret_act x s = (Ret x, s)"

definition fail_act :: "go_err \<Rightarrow> ('s, 'a) act" where
  "fail_act e s = (Err e, s)"

definition panic_act :: "('s, 'a) act" where
  "panic_act s = (Panic, s)"

definition bind_act :: "('s, 'a) act \<Rightarrow> ('a \<Rightarrow> ('s, 'b) act) \<Rightarrow> ('s, 'b) act" where
  "bind_act m f s = (case m s of (Ret x, s') \<Rightarrow> f x s' | (Err e, s') \<Rightarrow> (Err e, s') | (Panic, s') \<Rightarrow> (Panic, s'))"

text \<open>A call that does not touch the state.\<close>

definition lift_act :: "(go_err, 'a) outcome \<Rightarrow> ('s, 'a) act" where
  "lift_act m s = (m, s)"

text \<open>A pair of a value and an error, of which one is nil.\<close>

definition of_sum :: "go_err + 'a \<Rightarrow> (go_err, 'a) outcome" where
  "of_sum r = (case r of Inl e \<Rightarrow> Err e | Inr x \<Rightarrow> Ret x)"

lemma of_sum_simps [simp, go_out]: "of_sum (Inl e) = Err e" "of_sum (Inr x) = Ret x"
  by (simp_all add: of_sum_def)

text \<open>\<^verbatim>\<open>if err := m; err != nil { log }\<close>: the error is dropped, a panic is not.\<close>

definition log_act :: "('s, 'a) act \<Rightarrow> ('s, unit) act" where
  "log_act m s = (case m s of (Panic, s') \<Rightarrow> (Panic, s') | (_, s') \<Rightarrow> (Ret (), s'))"

lemmas act_defs [go_out] = ret_act_def fail_act_def panic_act_def bind_act_def log_act_def lift_act_def

text \<open>An invariant of the state that a call keeps, whatever it returns.\<close>

definition keeps :: "('s \<Rightarrow> bool) \<Rightarrow> ('s, 'a) act \<Rightarrow> bool" where
  "keeps P m \<longleftrightarrow> (\<forall>s. P s \<longrightarrow> P (snd (m s)))"

lemma keepsI: "(\<And>s. P s \<Longrightarrow> P (snd (m s))) \<Longrightarrow> keeps P m"
  by (simp add: keeps_def)

lemma keepsD: "keeps P m \<Longrightarrow> P s \<Longrightarrow> P (snd (m s))"
  by (simp add: keeps_def)

lemma keeps_ret [simp, intro]: "keeps P (ret_act x)" "keeps P (fail_act e)" "keeps P panic_act" "keeps P (lift_act r)"
  by (simp_all add: keeps_def act_defs)

lemma keeps_bind [intro]:
  assumes "keeps P m" and "\<And>x. keeps P (f x)"
  shows "keeps P (bind_act m f)"
proof (rule keepsI)
  fix s assume "P s"
  obtain r s' where m: "m s = (r, s')" by (cases "m s")
  then have "P s'" using keepsD [OF assms(1) \<open>P s\<close>] by simp
  then show "P (snd (bind_act m f s))"
    using keepsD [OF assms(2)] m by (cases r) (simp_all add: bind_act_def)
qed

lemma keeps_log [intro]: "keeps P m \<Longrightarrow> keeps P (log_act m)"
  by (rule keepsI) (auto simp: log_act_def dest: keepsD split: prod.splits outcome.splits)

lemma keeps_result: "keeps P m \<Longrightarrow> m s = (x, s') \<Longrightarrow> P s \<Longrightarrow> P s'"
  using keepsD [of P m s] by simp

lemma bind_act_Ret_iff:
  "bind_act m f s = (Ret y, s') \<longleftrightarrow> (\<exists>x s1. m s = (Ret x, s1) \<and> f x s1 = (Ret y, s'))"
  by (auto simp: bind_act_def split: prod.splits outcome.splits)

lemma lift_act_Ret_iff [simp]: "lift_act r s = (Ret y, s') \<longleftrightarrow> r = Ret y \<and> s' = s"
  by (auto simp: lift_act_def)

section \<open>Nodes\<close>

record Taint =
  taint_Key :: string
  taint_Value :: string
  taint_Effect :: string

text \<open>\<^verbatim>\<open>v1.Taint.MatchTaint\<close>: the same key and effect, whatever the value.\<close>

definition MatchTaint :: "Taint \<Rightarrow> Taint \<Rightarrow> bool" where
  "MatchTaint a b \<longleftrightarrow> taint_Key a = taint_Key b \<and> taint_Effect a = taint_Effect b"

record NodeAddress =
  addr_Type :: string
  addr_Address :: string

record NodeCondition =
  cond_Type :: string
  cond_Status :: string

text \<open>
  A quantity is kept as the value of \<^verbatim>\<open>AsInt64\<close>: \<open>None\<close> when it is not an integer that fits.
\<close>

record Node =
  node_Name :: string
  node_UID :: string
  node_Deleting :: bool
  node_Labels :: "string \<rightharpoonup> string"
  node_Annotations :: "string \<rightharpoonup> string"
  spec_PodCIDR :: string
  spec_PodCIDRs :: "string list"
  spec_ProviderID :: string
  spec_Taints :: "Taint list"
  status_Addresses :: "NodeAddress list"
  status_Conditions :: "NodeCondition list"
  status_Allocatable_pods :: "int option option"
  status_Capacity_pods :: "int option option"

text \<open>A node with a name and nothing else.\<close>

definition blank_node :: "string \<Rightarrow> Node" where
  "blank_node n = \<lparr>node_Name = n, node_UID = [], node_Deleting = False, node_Labels = Map.empty,
     node_Annotations = Map.empty, spec_PodCIDR = [], spec_PodCIDRs = [], spec_ProviderID = [], spec_Taints = [],
     status_Addresses = [], status_Conditions = [], status_Allocatable_pods = None, status_Capacity_pods = None\<rparr>"

lemma blank_node_simps [simp]:
  "node_Name (blank_node n) = n" "spec_PodCIDRs (blank_node n) = []" "\<not> node_Deleting (blank_node n)"
  by (simp_all add: blank_node_def)

text \<open>\<^verbatim>\<open>GetNodeCondition\<close>: the index of the first condition of the type, or -1; \<open>None\<close> is \<^verbatim>\<open>nil\<close>.\<close>

fun condition_from :: "int \<Rightarrow> NodeCondition list \<Rightarrow> string \<Rightarrow> int \<times> NodeCondition option" where
  "condition_from i [] ty = (- 1, None)"
| "condition_from i (c # cs) ty = (if cond_Type c = ty then (i, Some c) else condition_from (i + 1) cs ty)"

definition GetNodeCondition :: "NodeCondition list option \<Rightarrow> string \<Rightarrow> int \<times> NodeCondition option" where
  "GetNodeCondition status ty = (case status of None \<Rightarrow> (- 1, None) | Some cs \<Rightarrow> condition_from 0 cs ty)"

text \<open>The event that \<^verbatim>\<open>RecordNodeStatusChange\<close> emits.\<close>

record Event =
  event_NodeName :: string
  event_NodeUID :: string
  event_Reason :: string

definition RecordNodeStatusChange :: "Node \<Rightarrow> string \<Rightarrow> Event" where
  "RecordNodeStatusChange node newStatus =
     \<lparr>event_NodeName = node_Name node, event_NodeUID = node_UID node, event_Reason = newStatus\<rparr>"

section \<open>Patching pod CIDRs\<close>

text \<open>The body of the merge patch that \<^verbatim>\<open>PatchNodeCIDRs\<close> sends.\<close>

record nodeSpecForMergePatch =
  patch_PodCIDR :: string
  patch_PodCIDRs :: "string list"

definition cidr_patch :: "string list \<Rightarrow> nodeSpecForMergePatch option" where
  "cidr_patch cidrs = (case cidrs of [] \<Rightarrow> None | c # _ \<Rightarrow> Some \<lparr>patch_PodCIDR = c, patch_PodCIDRs = cidrs\<rparr>)"

text \<open>
  \<open>send\<close> is the API server's answer to the patch. The first element of an empty list is a panic,
  and the error is wrapped with \<^verbatim>\<open>%v\<close>.
\<close>

definition PatchNodeCIDRs :: "(string \<Rightarrow> nodeSpecForMergePatch \<Rightarrow> go_err option) \<Rightarrow> string \<Rightarrow> string list \<Rightarrow>
    (go_err, unit) outcome" where
  "PatchNodeCIDRs send node cidrs =
     (case cidr_patch cidrs of
        None \<Rightarrow> Panic
      | Some p \<Rightarrow> (case send node p of
            None \<Rightarrow> Ret ()
          | Some e \<Rightarrow> Err (Errorf_v ''failed to patch node CIDR'' e)))"

text \<open>\<^verbatim>\<open>PatchNodeCIDR\<close> leaves the list out of the patch and keeps the cause of an error.\<close>

definition PatchNodeCIDR :: "(string \<Rightarrow> nodeSpecForMergePatch \<Rightarrow> go_err option) \<Rightarrow> string \<Rightarrow> string \<Rightarrow> (go_err, unit) outcome" where
  "PatchNodeCIDR send node cidr =
     (case send node \<lparr>patch_PodCIDR = cidr, patch_PodCIDRs = []\<rparr> of
        None \<Rightarrow> Ret ()
      | Some e \<Rightarrow> Err (Errorf_w ''failed to patch node CIDR'' e))"

text \<open>The patch of one condition, with the time of the heartbeat; encoding it cannot fail.\<close>

record nodeStatusForPatch =
  patch_Conditions :: "(NodeCondition \<times> nat) list"

definition SetNodeCondition :: "(string \<Rightarrow> nodeStatusForPatch \<Rightarrow> go_err option) \<Rightarrow> nat \<Rightarrow> string \<Rightarrow> NodeCondition \<Rightarrow> go_err option" where
  "SetNodeCondition send now node condition = send node \<lparr>patch_Conditions = [(condition, now)]\<rparr>"


definition cidrUpdateRetries :: nat where
  "cidrUpdateRetries = 3"

definition ipnetToStringList :: "IPNet option list \<Rightarrow> string list" where
  "ipnetToStringList inCIDRs = map netp_String inCIDRs"

text \<open>
  The loop over the retries: the attempts \<open>i\<close>, \<open>i + 1\<close>, ... until one succeeds; otherwise the error
  of the last one (the loop of no attempts keeps the error it starts with).
\<close>

fun patch_loop :: "(nat \<Rightarrow> string \<Rightarrow> nodeSpecForMergePatch \<Rightarrow> go_err option) \<Rightarrow> nat \<Rightarrow> nat \<Rightarrow> string \<Rightarrow> string list \<Rightarrow>
    (go_err, unit) outcome \<Rightarrow> (go_err, unit) outcome" where
  "patch_loop send 0 i node cidrs r = r"
| "patch_loop send (Suc k) i node cidrs r =
     (case PatchNodeCIDRs (send i) node cidrs of
        Err e \<Rightarrow> patch_loop send k (Suc i) node cidrs (Err e)
      | q \<Rightarrow> q)"

text \<open>The comparison of the proposed CIDRs with those of the node.\<close>

definition cidrs_match :: "string list \<Rightarrow> string list \<Rightarrow> bool" where
  "cidrs_match proposed current \<longleftrightarrow> length current = length proposed \<and> list_all2 (=) proposed current"

lemma cidrs_match_eq [simp]: "cidrs_match proposed current \<longleftrightarrow> proposed = current"
  by (auto simp: cidrs_match_def list.rel_eq)

lemma PatchNodeCIDRs_timeout [simp]:
  "PatchNodeCIDRs send node cidrs = Err e \<Longrightarrow> \<not> IsServerTimeout e"
  by (auto simp: PatchNodeCIDRs_def IsServerTimeout_def split: option.splits)

text \<open>
  The error of a patch is never recognised as a server timeout, because its cause is only kept as
  text; so the branch that keeps the CIDRs of a timed out request is never taken.
\<close>

lemma patch_loop_no_timeout:
  "(\<And>e. r = Err e \<Longrightarrow> \<not> IsServerTimeout e) \<Longrightarrow> patch_loop send k i node cidrs r = Err e \<Longrightarrow> \<not> IsServerTimeout e"
  by (induction send k i node cidrs r rule: patch_loop.induct) (auto split: outcome.splits)

end
