(* ===== verification/Threads.thy ===== *)
theory Threads
  imports K8sApi
begin

text \<open>
  Goroutines that share one state. A call that takes no lock between its steps can be interrupted by
  other goroutines after each of them; it is a \<open>thread\<close>, a resumption that has returned or does one
  atomic step on the shared state and goes on. Running a thread without interruption gives back the sequential call.
\<close>

datatype ('s, 'a) thread =
    Halt "(go_err, 'a) outcome"
  | Act "'s \<Rightarrow> ('s, 'a) thread \<times> 's"

text \<open>One thread after another, with the outcome of the first.\<close>

primrec then_t :: "('s, 'a) thread \<Rightarrow> ((go_err, 'a) outcome \<Rightarrow> ('s, 'b) thread) \<Rightarrow> ('s, 'b) thread" where
  "then_t (Halt res) k = k res"
| "then_t (Act g) k = Act (\<lambda>s. map_prod (\<lambda>t. then_t t k) id (g s))"

definition ret_t :: "'a \<Rightarrow> ('s, 'a) thread" where
  "ret_t x = Halt (Ret x)"

definition fail_t :: "go_err \<Rightarrow> ('s, 'a) thread" where
  "fail_t e = Halt (Err e)"

definition bind_t :: "('s, 'a) thread \<Rightarrow> ('a \<Rightarrow> ('s, 'b) thread) \<Rightarrow> ('s, 'b) thread" where
  "bind_t m f = then_t m (\<lambda>res. case res of Ret x \<Rightarrow> f x | Err e \<Rightarrow> Halt (Err e) | Panic \<Rightarrow> Halt Panic)"

definition log_t :: "('s, 'a) thread \<Rightarrow> ('s, unit) thread" where
  "log_t m = then_t m (\<lambda>res. case res of Panic \<Rightarrow> Halt Panic | _ \<Rightarrow> Halt (Ret ()))"

text \<open>A call that cannot be interrupted, because it holds a lock or is one request.\<close>

definition atom :: "('s, 'a) act \<Rightarrow> ('s, 'a) thread" where
  "atom m = Act (\<lambda>s. case m s of (res, s') \<Rightarrow> (Halt res, s'))"

text \<open>The run of a thread on its own.\<close>

primrec run :: "('s, 'a) thread \<Rightarrow> ('s, 'a) act" where
  "run (Halt res) = (\<lambda>s. (res, s))"
| "run (Act g) = (\<lambda>s. case map_prod run id (g s) of (m, s') \<Rightarrow> m s')"

lemma run_then: "run (then_t m k) s = (case run m s of (res, s') \<Rightarrow> run (k res) s')"
proof (induction m arbitrary: s)
  case (Act g)
  have "run (then_t (fst (g s)) k) s' = (case run (fst (g s)) s' of (res, s'') \<Rightarrow> run (k res) s'')" for s'
    by (rule Act [of "g s"]) (simp_all add: fsts.simps prod_eq_iff)
  then show ?case by (simp add: split_beta map_prod_def)
qed simp

lemma run_simps [simp]:
  "run (ret_t x) = ret_act x" "run (fail_t e) = fail_act e" "run (atom a) = a"
  "run (bind_t m f) = bind_act (run m) (\<lambda>x. run (f x))" "run (log_t m) = log_act (run m)"
  by (auto simp: fun_eq_iff ret_t_def fail_t_def atom_def bind_t_def log_t_def run_then act_defs split: prod.splits outcome.splits)

section \<open>What threads hold\<close>

text \<open>
  A discipline for threads that take and give back parts \<open>'c\<close> of the shared state. \<open>move H s H' s'\<close> says
  that a thread that holds \<open>H\<close> may do a step from \<open>s\<close> to \<open>s'\<close> and hold \<open>H'\<close> then, \<open>ready H s\<close> what it may rely on before. A disciplined thread
  does only such steps and returns with a result and parts that satisfy \<open>Q\<close>.
\<close>

inductive disciplined :: "('c set \<Rightarrow> 's \<Rightarrow> bool) \<Rightarrow> ('c set \<Rightarrow> 's \<Rightarrow> 'c set \<Rightarrow> 's \<Rightarrow> bool) \<Rightarrow>
    ((go_err, 'a) outcome \<Rightarrow> 'c set \<Rightarrow> bool) \<Rightarrow> 'c set \<Rightarrow> ('s, 'a) thread \<Rightarrow> bool"
  for ready move Q where
  halt: "Q res H \<Longrightarrow> disciplined ready move Q H (Halt res)"
| act: "(\<forall>s. ready H s \<longrightarrow> (\<exists>H'. move H s H' (snd (g s)) \<and> disciplined ready move Q H' (fst (g s)))) \<Longrightarrow>
    disciplined ready move Q H (Act g)"

inductive_simps disciplined_simps [simp]:
  "disciplined ready move Q H (Halt res)"
  "disciplined ready move Q H (Act g)"

lemma disciplined_then:
  assumes "disciplined ready move P H m" and "\<And>res H'. P res H' \<Longrightarrow> disciplined ready move Q H' (k res)"
  shows "disciplined ready move Q H (then_t m k)"
  using assms(1)
proof (induction rule: disciplined.induct)
  case (halt res H)
  then show ?case using assms(2) by simp
next
  case (act H g)
  then show ?case by (auto simp: fst_map_prod snd_map_prod)
qed

lemma disciplined_atom:
  assumes "\<And>s. ready H s \<Longrightarrow> \<exists>H'. move H s H' (snd (m s)) \<and> Q (fst (m s)) H'"
  shows "disciplined ready move Q H (atom m)"
  using assms by (simp add: atom_def split_beta)

lemma disciplined_mono:
  assumes "disciplined ready move P H m" and "\<And>res H'. P res H' \<Longrightarrow> Q res H'"
  shows "disciplined ready move Q H m"
  using assms(1) by (induction rule: disciplined.induct) (auto intro: assms(2))

lemma disciplined_bind:
  assumes "disciplined ready move P H m" and "\<And>x H'. P (Ret x) H' \<Longrightarrow> disciplined ready move (\<lambda>_ _. True) H' (f x)"
  shows "disciplined ready move (\<lambda>_ _. True) H (bind_t m f)"
  unfolding bind_t_def by (rule disciplined_then [OF assms(1)]) (auto intro: assms(2) split: outcome.split)

end
