(* ===== verification/RangeAllocator.thy ===== *)
theory RangeAllocator
  imports K8sApi
begin

text \<open>
  \<^verbatim>\<open>pkg/nodeipam/ipam/range_allocator.go\<close>: the allocator that keeps one CIDR set per cluster CIDR and
  gives every node one block of each.

  The outside world is the record \<open>api_env\<close>: the parser \<^verbatim>\<open>netutils.ParseCIDRSloppy\<close>, the node lister
  (its answers may differ from one read to the next, so they are numbered) and the API server's
  answers to the patches of one update, by attempt. The patches that the server accepted are kept
  in the field \<open>ra_patched\<close>, so that the effect on the cluster is part of the state.
\<close>

section \<open>State\<close>

record api_env =
  parseCIDR :: "string \<Rightarrow> IPNet option"
  lister :: "nat \<Rightarrow> string \<Rightarrow> go_err + Node"
  send_patch :: "nat \<Rightarrow> string \<Rightarrow> nodeSpecForMergePatch \<Rightarrow> go_err option"

record RangeAllocator =
  ra_clusterCIDRs :: "IPNet list"
  ra_cidrSets :: "CidrSet list"
  ra_events :: "Event list"
  ra_patched :: "(string \<times> string list) list"

record CIDRAllocatorParams =
  ClusterCIDRs :: "IPNet list"
  ServiceCIDR :: "IPNet option"
  SecondaryServiceCIDR :: "IPNet option"
  NodeCIDRMaskSizes :: "int list"

text \<open>A call on the set at an index; indexing past the end panics.\<close>

definition on_set :: "nat \<Rightarrow> (CidrSet \<Rightarrow> (cidr_error, 'a \<times> CidrSet) outcome) \<Rightarrow> (RangeAllocator, 'a) act" where
  "on_set idx f r =
     (if idx < length (ra_cidrSets r)
      then case f (ra_cidrSets r ! idx) of
          Ret (x, s) \<Rightarrow> (Ret x, r\<lparr>ra_cidrSets := (ra_cidrSets r)[idx := s]\<rparr>)
        | Err e \<Rightarrow> (Err (CidrError e), r)
        | Panic \<Rightarrow> (Panic, r)
      else (Panic, r))"

text \<open>A method without a result, as a call with one.\<close>

definition no_result :: "('e, 's) outcome \<Rightarrow> ('e, unit \<times> 's) outcome" where
  "no_result res = bind_out res (\<lambda>s. Ret ((), s))"

definition occupy_op :: "IPNet option \<Rightarrow> CidrSet \<Rightarrow> (cidr_error, unit \<times> CidrSet) outcome" where
  "occupy_op c s = no_result (Occupy s c)"

definition release_op :: "IPNet option \<Rightarrow> CidrSet \<Rightarrow> (cidr_error, unit \<times> CidrSet) outcome" where
  "release_op c s = no_result (Release s c)"

text \<open>Wrapping an error on the way out, and emitting an event before that.\<close>

definition wrap_act :: "(go_err \<Rightarrow> go_err) \<Rightarrow> ('s, 'a) act \<Rightarrow> ('s, 'a) act" where
  "wrap_act g m s = (case m s of (res, s') \<Rightarrow> (map_err g res, s'))"

definition record_on_err :: "Node \<Rightarrow> string \<Rightarrow> (RangeAllocator, 'a) act \<Rightarrow> (RangeAllocator, 'a) act" where
  "record_on_err node status m r =
     (case m r of
        (Err e, r') \<Rightarrow> (Err e, r'\<lparr>ra_events := ra_events r' @ [RecordNodeStatusChange node status]\<rparr>)
      | res \<Rightarrow> res)"

section \<open>Occupying and releasing the CIDRs of a node\<close>

fun occupy_from :: "(string \<Rightarrow> IPNet option) \<Rightarrow> nat \<Rightarrow> string list \<Rightarrow> (RangeAllocator, unit) act" where
  "occupy_from parse idx [] r = (Ret (), r)"
| "occupy_from parse idx (cidr # cidrs) r =
     (case parse cidr of
        None \<Rightarrow> (Err (Errorf ''failed to parse node, CIDR''), r)
      | Some podCIDR \<Rightarrow>
          if idx \<ge> length (ra_cidrSets r)
          then (Err (Errorf ''node has an allocated cidr that does not exist in cluster cidrs configuration''), r)
          else bind_act (wrap_act (Errorf_v ''failed to mark cidr as occupied'') (on_set idx (occupy_op (Some podCIDR))))
                 (\<lambda>_. occupy_from parse (Suc idx) cidrs) r)"

definition occupyCIDRs :: "(string \<Rightarrow> IPNet option) \<Rightarrow> Node \<Rightarrow> (RangeAllocator, unit) act" where
  "occupyCIDRs parse node = (if spec_PodCIDRs node = [] then ret_act () else occupy_from parse 0 (spec_PodCIDRs node))"

fun release_from :: "(string \<Rightarrow> IPNet option) \<Rightarrow> nat \<Rightarrow> string list \<Rightarrow> (RangeAllocator, unit) act" where
  "release_from parse idx [] r = (Ret (), r)"
| "release_from parse idx (cidr # cidrs) r =
     (case parse cidr of
        None \<Rightarrow> (Err (Errorf ''failed to parse CIDR on Node''), r)
      | Some podCIDR \<Rightarrow>
          if idx \<ge> length (ra_cidrSets r)
          then (Err (Errorf ''node has an allocated cidr that does not exist in cluster cidrs configuration''), r)
          else bind_act (wrap_act (Errorf_v ''error when releasing CIDR'') (on_set idx (release_op (Some podCIDR))))
                 (\<lambda>_. release_from parse (Suc idx) cidrs) r)"

definition ReleaseCIDR :: "(string \<Rightarrow> IPNet option) \<Rightarrow> Node option \<Rightarrow> (RangeAllocator, unit) act" where
  "ReleaseCIDR parse nodep =
     (case nodep of
        None \<Rightarrow> ret_act ()
      | Some node \<Rightarrow> if spec_PodCIDRs node = [] then ret_act () else release_from parse 0 (spec_PodCIDRs node))"

section \<open>Allocation\<close>

text \<open>One block of each of the \<open>k\<close> sets from \<open>idx\<close> on.\<close>

fun allocate_from :: "Node \<Rightarrow> nat \<Rightarrow> nat \<Rightarrow> (RangeAllocator, IPNet option list) act" where
  "allocate_from node 0 idx r = (Ret [], r)"
| "allocate_from node (Suc k) idx r =
     bind_act (record_on_err node ''CIDRNotAvailable''
         (wrap_act (Errorf_v ''failed to allocate cidr from cluster cidr'') (on_set idx AllocateNext)))
       (\<lambda>podCIDR. bind_act (allocate_from node k (Suc idx)) (\<lambda>rest. ret_act (Some podCIDR # rest))) r"

text \<open>Giving proposed blocks back: a failure is logged and the loop goes on.\<close>

fun release_proposed :: "nat \<Rightarrow> IPNet option list \<Rightarrow> (RangeAllocator, unit) act" where
  "release_proposed idx [] r = (Ret (), r)"
| "release_proposed idx (cidr # cidrs) r =
     bind_act (log_act (on_set idx (release_op cidr))) (\<lambda>_. release_proposed (Suc idx) cidrs) r"

definition updateCIDRsAllocation :: "api_env \<Rightarrow> string \<Rightarrow> IPNet option list \<Rightarrow> (RangeAllocator, unit) act" where
  "updateCIDRsAllocation env nodeName allocated r =
     (let cidrsString = ipnetToStringList allocated in
      case lister env 1 nodeName of
        Inl e \<Rightarrow> (Err e, r)
      | Inr node \<Rightarrow>
          if cidrs_match cidrsString (spec_PodCIDRs node) then (Ret (), r)
          else if spec_PodCIDRs node \<noteq> [] then release_proposed 0 allocated r
          else (case patch_loop (send_patch env) cidrUpdateRetries 0 (node_Name node) cidrsString (Ret ()) of
              Ret _ \<Rightarrow> (Ret (), r\<lparr>ra_patched := ra_patched r @ [(node_Name node, cidrsString)]\<rparr>)
            | Panic \<Rightarrow> (Panic, r)
            | Err e \<Rightarrow>
                let r' = r\<lparr>ra_events := ra_events r @ [RecordNodeStatusChange node ''CIDRAssignmentFailed'']\<rparr> in
                if \<not> IsServerTimeout e
                then bind_act (release_proposed 0 allocated) (\<lambda>_. fail_act e) r'
                else (Err e, r')))"

definition AllocateOrOccupyCIDR :: "api_env \<Rightarrow> Node option \<Rightarrow> (RangeAllocator, unit) act" where
  "AllocateOrOccupyCIDR env nodep r =
     (case nodep of
        None \<Rightarrow> (Ret (), r)
      | Some node \<Rightarrow>
          if spec_PodCIDRs node \<noteq> [] then occupyCIDRs (parseCIDR env) node r
          else bind_act (allocate_from node (length (ra_cidrSets r)) 0)
                 (\<lambda>allocated. updateCIDRsAllocation env (node_Name node) allocated) r)"

definition syncNode :: "api_env \<Rightarrow> string \<Rightarrow> (RangeAllocator, unit) act" where
  "syncNode env key r =
     (case lister env 0 key of
        Inl e \<Rightarrow> if IsNotFound e then (Ret (), r) else (Err e, r)
      | Inr node \<Rightarrow>
          if node_Deleting node then ReleaseCIDR (parseCIDR env) (Some node) r
          else AllocateOrOccupyCIDR env (Some node) r)"

section \<open>Construction\<close>

fun filter_from :: "nat \<Rightarrow> IPNet list \<Rightarrow> IPNet \<Rightarrow> (RangeAllocator, unit) act" where
  "filter_from idx [] serviceCIDR r = (Ret (), r)"
| "filter_from idx (cidr # cidrs) serviceCIDR r =
     bind_act
       (if \<not> net_Contains cidr (ip_Mask (net_IP serviceCIDR) (net_Mask cidr)) \<and>
           \<not> net_Contains serviceCIDR (ip_Mask (net_IP cidr) (net_Mask serviceCIDR))
        then ret_act () else log_act (on_set idx (occupy_op (Some serviceCIDR))))
       (\<lambda>_. filter_from (Suc idx) cidrs serviceCIDR) r"

definition filterOutServiceRange :: "IPNet option \<Rightarrow> (RangeAllocator, unit) act" where
  "filterOutServiceRange service r =
     (case service of None \<Rightarrow> (Ret (), r) | Some c \<Rightarrow> filter_from 0 (ra_clusterCIDRs r) c r)"

fun new_sets :: "IPNet list \<Rightarrow> int list \<Rightarrow> (go_err, CidrSet list) outcome" where
  "new_sets [] ms = Ret []"
| "new_sets (c # cs) [] = Panic"
| "new_sets (c # cs) (m # ms) =
     bind_out (map_err CidrError (NewCIDRSet c m)) (\<lambda>s. bind_out (new_sets cs ms) (\<lambda>ss. Ret (s # ss)))"

fun occupy_nodes :: "(string \<Rightarrow> IPNet option) \<Rightarrow> Node list \<Rightarrow> (RangeAllocator, unit) act" where
  "occupy_nodes parse [] r = (Ret (), r)"
| "occupy_nodes parse (node # nodes) r =
     (if spec_PodCIDRs node = [] then occupy_nodes parse nodes r
      else bind_act (occupyCIDRs parse node) (\<lambda>_. occupy_nodes parse nodes) r)"

definition NewCIDRRangeAllocator :: "(string \<Rightarrow> IPNet option) \<Rightarrow> CIDRAllocatorParams \<Rightarrow> Node list option \<Rightarrow>
    (go_err, RangeAllocator) outcome" where
  "NewCIDRRangeAllocator parse params nodeList =
     bind_out (new_sets (ClusterCIDRs params) (NodeCIDRMaskSizes params)) (\<lambda>sets.
       let ra = \<lparr>ra_clusterCIDRs = ClusterCIDRs params, ra_cidrSets = sets, ra_events = [], ra_patched = []\<rparr> in
       case bind_act (filterOutServiceRange (ServiceCIDR params)) (\<lambda>_.
            bind_act (filterOutServiceRange (SecondaryServiceCIDR params)) (\<lambda>_.
              case nodeList of None \<Rightarrow> ret_act () | Some nodes \<Rightarrow> occupy_nodes parse nodes)) ra
       of (res, ra') \<Rightarrow> bind_out res (\<lambda>_. Ret ra'))"

section \<open>Event handlers and the work queue\<close>

text \<open>An object of the informer's delete event: the node, or a tombstone with its last known state.\<close>

datatype informer_obj = ObjNode Node | Tombstone string "Node option"

datatype queue_call = q_Add string | q_Done string | q_Forget string | q_AddRateLimited string

text \<open>
  The delete handler. \<^verbatim>\<open>obj.(*v1.Node)\<close> panics for a tombstone; the key of a tombstone would be known.
\<close>

definition onDelete :: "(string \<Rightarrow> IPNet option) \<Rightarrow> informer_obj \<Rightarrow> (RangeAllocator, queue_call list) act" where
  "onDelete parse obj r =
     (case obj of
        Tombstone key lastState \<Rightarrow> (Panic, r)
      | ObjNode node \<Rightarrow> bind_act (log_act (ReleaseCIDR parse (Some node))) (\<lambda>_. ret_act [q_Add (node_Name node)]) r)"

datatype queue_obj = KeyObj string | OtherObj string

text \<open>
  One item of the queue; \<open>None\<close> is the shutdown of the queue. The result is whether the worker goes
  on, and the calls on the queue in order (the deferred \<^verbatim>\<open>Done\<close> last).
\<close>

definition processNextNodeWorkItem :: "api_env \<Rightarrow> queue_obj option \<Rightarrow> (RangeAllocator, bool \<times> queue_call list) act" where
  "processNextNodeWorkItem env item r =
     (case item of
        None \<Rightarrow> (Ret (False, []), r)
      | Some (OtherObj x) \<Rightarrow> (Ret (True, [q_Forget x, q_Done x]), r)
      | Some (KeyObj key) \<Rightarrow>
          (case syncNode env key r of
             (Ret _, r') \<Rightarrow> (Ret (True, [q_Forget key, q_Done key]), r')
           | (Err e, r') \<Rightarrow> (Ret (True, [q_AddRateLimited key, q_Done key]), r')
           | (Panic, r') \<Rightarrow> (Panic, r')))"

end
