(* ===== verification/RangeThreads.thy ===== *)
theory RangeThreads
  imports Threads RangeAllocator
begin

text \<open>
  The goroutines of the range allocator. \<^verbatim>\<open>Run\<close> starts \<^verbatim>\<open>cidrUpdateWorkers\<close> workers, and the informer calls the
  delete handler beside them. The allocator has no lock of its own: each method of a \<^verbatim>\<open>CidrSet\<close> locks that set,
  so between two such calls other goroutines may run. Here every method call and the patch of a node
  is one atomic step; each operation is the sequential one of theory \<open>RangeAllocator\<close> cut at these points.
\<close>

section \<open>Operations in atomic steps\<close>

fun occupy_from_t :: "(string \<Rightarrow> IPNet option) \<Rightarrow> nat \<Rightarrow> string list \<Rightarrow> (RangeAllocator, unit) thread" where
  "occupy_from_t parse idx [] = ret_t ()"
| "occupy_from_t parse idx (cidr # cidrs) =
     (case parse cidr of
        None \<Rightarrow> fail_t (Errorf ''failed to parse node, CIDR'')
      | Some podCIDR \<Rightarrow> bind_t
          (atom (\<lambda>r. if idx \<ge> length (ra_cidrSets r)
             then (Err (Errorf ''node has an allocated cidr that does not exist in cluster cidrs configuration''), r)
             else wrap_act (Errorf_v ''failed to mark cidr as occupied'') (on_set idx (occupy_op (Some podCIDR))) r))
          (\<lambda>_. occupy_from_t parse (Suc idx) cidrs))"

definition occupyCIDRs_t :: "(string \<Rightarrow> IPNet option) \<Rightarrow> Node \<Rightarrow> (RangeAllocator, unit) thread" where
  "occupyCIDRs_t parse node = (if spec_PodCIDRs node = [] then ret_t () else occupy_from_t parse 0 (spec_PodCIDRs node))"

fun release_from_t :: "(string \<Rightarrow> IPNet option) \<Rightarrow> nat \<Rightarrow> string list \<Rightarrow> (RangeAllocator, unit) thread" where
  "release_from_t parse idx [] = ret_t ()"
| "release_from_t parse idx (cidr # cidrs) =
     (case parse cidr of
        None \<Rightarrow> fail_t (Errorf ''failed to parse CIDR on Node'')
      | Some podCIDR \<Rightarrow> bind_t
          (atom (\<lambda>r. if idx \<ge> length (ra_cidrSets r)
             then (Err (Errorf ''node has an allocated cidr that does not exist in cluster cidrs configuration''), r)
             else wrap_act (Errorf_v ''error when releasing CIDR'') (on_set idx (release_op (Some podCIDR))) r))
          (\<lambda>_. release_from_t parse (Suc idx) cidrs))"

definition ReleaseCIDR_t :: "(string \<Rightarrow> IPNet option) \<Rightarrow> Node option \<Rightarrow> (RangeAllocator, unit) thread" where
  "ReleaseCIDR_t parse nodep =
     (case nodep of
        None \<Rightarrow> ret_t ()
      | Some node \<Rightarrow> if spec_PodCIDRs node = [] then ret_t () else release_from_t parse 0 (spec_PodCIDRs node))"

fun allocate_from_t :: "Node \<Rightarrow> nat \<Rightarrow> nat \<Rightarrow> (RangeAllocator, IPNet option list) thread" where
  "allocate_from_t node 0 idx = ret_t []"
| "allocate_from_t node (Suc k) idx =
     bind_t (atom (record_on_err node ''CIDRNotAvailable''
         (wrap_act (Errorf_v ''failed to allocate cidr from cluster cidr'') (on_set idx AllocateNext))))
       (\<lambda>podCIDR. bind_t (allocate_from_t node k (Suc idx)) (\<lambda>rest. ret_t (Some podCIDR # rest)))"

fun release_proposed_t :: "nat \<Rightarrow> IPNet option list \<Rightarrow> (RangeAllocator, unit) thread" where
  "release_proposed_t idx [] = ret_t ()"
| "release_proposed_t idx (cidr # cidrs) =
     bind_t (log_t (atom (on_set idx (release_op cidr)))) (\<lambda>_. release_proposed_t (Suc idx) cidrs)"

text \<open>The attempts to patch the node: at most one of them has an effect, so they are one step.\<close>

definition patch_node :: "api_env \<Rightarrow> Node \<Rightarrow> string list \<Rightarrow> (RangeAllocator, unit) act" where
  "patch_node env node cidrsString r =
     (case patch_loop (send_patch env) cidrUpdateRetries 0 (node_Name node) cidrsString (Ret ()) of
        Ret _ \<Rightarrow> (Ret (), r\<lparr>ra_patched := ra_patched r @ [(node_Name node, cidrsString)]\<rparr>)
      | Panic \<Rightarrow> (Panic, r)
      | Err e \<Rightarrow> (Err e, r\<lparr>ra_events := ra_events r @ [RecordNodeStatusChange node ''CIDRAssignmentFailed'']\<rparr>))"

definition updateCIDRsAllocation_t :: "api_env \<Rightarrow> string \<Rightarrow> IPNet option list \<Rightarrow> (RangeAllocator, unit) thread" where
  "updateCIDRsAllocation_t env nodeName allocated =
     (let cidrsString = ipnetToStringList allocated in
      case lister env 1 nodeName of
        Inl e \<Rightarrow> fail_t e
      | Inr node \<Rightarrow>
          if cidrs_match cidrsString (spec_PodCIDRs node) then ret_t ()
          else if spec_PodCIDRs node \<noteq> [] then release_proposed_t 0 allocated
          else then_t (atom (patch_node env node cidrsString)) (\<lambda>res. case res of
              Err e \<Rightarrow> if \<not> IsServerTimeout e then bind_t (release_proposed_t 0 allocated) (\<lambda>_. fail_t e) else fail_t e
            | _ \<Rightarrow> Halt res))"

definition AllocateOrOccupyCIDR_t :: "api_env \<Rightarrow> Node option \<Rightarrow> (RangeAllocator, unit) thread" where
  "AllocateOrOccupyCIDR_t env nodep =
     (case nodep of
        None \<Rightarrow> ret_t ()
      | Some node \<Rightarrow>
          if spec_PodCIDRs node \<noteq> [] then occupyCIDRs_t (parseCIDR env) node
          else bind_t (atom (\<lambda>r. (Ret (length (ra_cidrSets r)), r))) (\<lambda>n. bind_t (allocate_from_t node n 0)
                 (\<lambda>allocated. updateCIDRsAllocation_t env (node_Name node) allocated)))"

definition syncNode_t :: "api_env \<Rightarrow> string \<Rightarrow> (RangeAllocator, unit) thread" where
  "syncNode_t env key =
     (case lister env 0 key of
        Inl e \<Rightarrow> if IsNotFound e then ret_t () else fail_t e
      | Inr node \<Rightarrow>
          if node_Deleting node then ReleaseCIDR_t (parseCIDR env) (Some node)
          else AllocateOrOccupyCIDR_t env (Some node))"

definition onDelete_t :: "(string \<Rightarrow> IPNet option) \<Rightarrow> informer_obj \<Rightarrow> (RangeAllocator, queue_call list) thread" where
  "onDelete_t parse obj =
     (case obj of
        Tombstone key lastState \<Rightarrow> Halt Panic
      | ObjNode node \<Rightarrow> bind_t (log_t (ReleaseCIDR_t parse (Some node))) (\<lambda>_. ret_t [q_Add (node_Name node)]))"

definition processNextNodeWorkItem_t :: "api_env \<Rightarrow> queue_obj option \<Rightarrow> (RangeAllocator, bool \<times> queue_call list) thread" where
  "processNextNodeWorkItem_t env item =
     (case item of
        None \<Rightarrow> ret_t (False, [])
      | Some (OtherObj x) \<Rightarrow> ret_t (True, [q_Forget x, q_Done x])
      | Some (KeyObj key) \<Rightarrow> then_t (syncNode_t env key) (\<lambda>res. case res of
            Ret _ \<Rightarrow> ret_t (True, [q_Forget key, q_Done key])
          | Err e \<Rightarrow> ret_t (True, [q_AddRateLimited key, q_Done key])
          | Panic \<Rightarrow> Halt Panic))"

section \<open>Uninterrupted, they are the sequential operations\<close>

lemma run_occupy_from: "run (occupy_from_t parse idx cidrs) r = occupy_from parse idx cidrs r"
  by (induction cidrs arbitrary: idx r) (auto simp: act_defs split: option.splits prod.splits outcome.splits)

lemma run_release_from: "run (release_from_t parse idx cidrs) r = release_from parse idx cidrs r"
  by (induction cidrs arbitrary: idx r) (auto simp: act_defs split: option.splits prod.splits outcome.splits)

lemma run_allocate_from: "run (allocate_from_t node k idx) r = allocate_from node k idx r"
  by (induction k arbitrary: idx r) (auto simp: act_defs split: prod.splits outcome.splits)

lemma run_release_proposed: "run (release_proposed_t idx cs) r = release_proposed idx cs r"
  by (induction cs arbitrary: idx r) (auto simp: act_defs split: prod.splits outcome.splits)

lemma run_update: "run (updateCIDRsAllocation_t env n cs) r = updateCIDRsAllocation env n cs r"
  by (auto simp: updateCIDRsAllocation_t_def updateCIDRsAllocation_def Let_def run_then patch_node_def act_defs run_release_proposed
      split: sum.split outcome.split)

lemma run_allocate_or_occupy: "run (AllocateOrOccupyCIDR_t env nodep) r = AllocateOrOccupyCIDR env nodep r"
  by (auto simp: AllocateOrOccupyCIDR_t_def AllocateOrOccupyCIDR_def occupyCIDRs_t_def occupyCIDRs_def run_occupy_from
      run_allocate_from run_update act_defs split: option.split prod.split outcome.split)

lemma run_ReleaseCIDR: "run (ReleaseCIDR_t parse nodep) r = ReleaseCIDR parse nodep r"
  by (auto simp: ReleaseCIDR_t_def ReleaseCIDR_def run_release_from act_defs split: option.split)

lemma run_syncNode: "run (syncNode_t env key) r = syncNode env key r"
  by (auto simp: syncNode_t_def syncNode_def run_ReleaseCIDR run_allocate_or_occupy act_defs split: sum.split)

lemma run_work: "run (processNextNodeWorkItem_t env item) r = RangeAllocator.processNextNodeWorkItem env item r"
  by (auto simp: processNextNodeWorkItem_t_def RangeAllocator.processNextNodeWorkItem_def run_then run_syncNode act_defs
      split: option.split queue_obj.split prod.split outcome.split)

lemma run_onDelete: "run (onDelete_t parse obj) r = RangeAllocator.onDelete parse obj r"
  by (auto simp: onDelete_t_def RangeAllocator.onDelete_def run_ReleaseCIDR act_defs split: informer_obj.split prod.split outcome.split)

text \<open>
  The goroutines of the range allocator are its sequential operations, cut into atomic steps: a work item or a
  delete event that no other goroutine interrupts has the result and the effect of the sequential call.
\<close>

theorem uninterrupted_is_sequential:
  "run (processNextNodeWorkItem_t env item) r = RangeAllocator.processNextNodeWorkItem env item r \<and>
   run (onDelete_t parse obj) r = RangeAllocator.onDelete parse obj r"
  by (simp add: run_work run_onDelete)

end
