(* ===== verification/RangeAllocatorLemmas.thy ===== *)
theory RangeAllocatorLemmas
  imports RangeAllocator
begin

text \<open>
  What the operations of the range allocator do to its list of CIDR sets: a locale for the methods
  of one set, that every operation keeps the sets well-formed whatever the API server answers, and
  the exact effect of the loops over the sets.
\<close>

section \<open>Well-formed allocators\<close>

definition ra_inv :: "RangeAllocator \<Rightarrow> bool" where
  "ra_inv r \<longleftrightarrow> list_all2 (\<lambda>c s. cidr_inv s \<and> clusterCIDR s = c) (ra_clusterCIDRs r) (ra_cidrSets r)"

text \<open>
  An allocator that came from another one by operations on its sets, each of which relates the
  state of its set before and after by \<open>R\<close>.
\<close>

definition ra_via :: "(CidrSet \<Rightarrow> CidrSet \<Rightarrow> bool) \<Rightarrow> RangeAllocator \<Rightarrow> RangeAllocator \<Rightarrow> bool" where
  "ra_via R r0 r \<longleftrightarrow> ra_clusterCIDRs r = ra_clusterCIDRs r0 \<and> ra_patched r = ra_patched r0 \<and>
     list_all2 (\<lambda>s0 s. cidr_inv s \<and> same_blocks s0 s \<and> R s0 s) (ra_cidrSets r0) (ra_cidrSets r)"

abbreviation ra_from :: "RangeAllocator \<Rightarrow> RangeAllocator \<Rightarrow> bool" where
  "ra_from \<equiv> ra_via (\<lambda>_ _. True)"

text \<open>No block is freed, or none becomes used.\<close>

definition grows :: "CidrSet \<Rightarrow> CidrSet \<Rightarrow> bool" where
  "grows s t \<longleftrightarrow> used_set s \<subseteq> used_set t"

definition shrinks :: "CidrSet \<Rightarrow> CidrSet \<Rightarrow> bool" where
  "shrinks s t \<longleftrightarrow> used_set t \<subseteq> used_set s"

lemma grows_refl [simp]: "grows s s"
  by (simp add: grows_def)

lemma ra_inv_nth: "ra_inv r \<longleftrightarrow> length (ra_cidrSets r) = length (ra_clusterCIDRs r) \<and>
    (\<forall>i<length (ra_cidrSets r). cidr_inv (ra_cidrSets r ! i) \<and> clusterCIDR (ra_cidrSets r ! i) = ra_clusterCIDRs r ! i)"
  by (auto simp: ra_inv_def list_all2_conv_all_nth)

lemma ra_via_nth: "ra_via R r0 r \<longleftrightarrow> ra_clusterCIDRs r = ra_clusterCIDRs r0 \<and> ra_patched r = ra_patched r0 \<and>
    length (ra_cidrSets r) = length (ra_cidrSets r0) \<and>
    (\<forall>i<length (ra_cidrSets r0). cidr_inv (ra_cidrSets r ! i) \<and>
      same_blocks (ra_cidrSets r0 ! i) (ra_cidrSets r ! i) \<and> R (ra_cidrSets r0 ! i) (ra_cidrSets r ! i))"
  by (auto simp: ra_via_def list_all2_conv_all_nth)

lemma ra_via_refl: "ra_inv r \<Longrightarrow> (\<And>s. R s s) \<Longrightarrow> ra_via R r r"
  by (simp add: ra_inv_nth ra_via_nth)

lemma ra_via_inv: "ra_inv r0 \<Longrightarrow> ra_via R r0 r \<Longrightarrow> ra_inv r"
  by (simp add: ra_inv_nth ra_via_nth same_blocks_def)

lemma ra_via_events [simp]: "ra_via R r0 (r\<lparr>ra_events := e\<rparr>) = ra_via R r0 r"
  by (simp add: ra_via_def)

section \<open>Methods of one set\<close>

locale set_method =
  fixes f :: "'p \<Rightarrow> CidrSet \<Rightarrow> (cidr_error, 'a \<times> CidrSet) outcome" and ok :: "'p \<Rightarrow> bool"
    and R :: "CidrSet \<Rightarrow> CidrSet \<Rightarrow> bool"
  assumes step: "ok p \<Longrightarrow> cidr_inv s \<Longrightarrow> f p s = Ret (x, s') \<Longrightarrow> cidr_inv s' \<and> same_blocks s s' \<and> R s s'"
    and R_trans: "R s t \<Longrightarrow> R t u \<Longrightarrow> R s u"
begin

lemma on_set_keeps:
  assumes "ok p"
  shows "keeps (ra_via R r0) (on_set idx (f p))"
proof (rule keepsI)
  fix r assume r: "ra_via R r0 r"
  show "ra_via R r0 (snd (on_set idx (f p) r))"
  proof (cases "idx < length (ra_cidrSets r)")
    case idx: True
    show ?thesis
    proof (cases "f p (ra_cidrSets r ! idx)")
      case (Ret y)
      obtain x s where y: "y = (x, s)" by (cases y)
      have i: "cidr_inv (ra_cidrSets r ! idx)" and b: "same_blocks (ra_cidrSets r0 ! idx) (ra_cidrSets r ! idx)"
        and R: "R (ra_cidrSets r0 ! idx) (ra_cidrSets r ! idx)"
        using r idx by (simp_all add: ra_via_nth)
      have "cidr_inv s" "same_blocks (ra_cidrSets r0 ! idx) s" "R (ra_cidrSets r0 ! idx) s"
        using step [OF assms i] same_blocks_trans [OF b] R_trans [OF R] Ret y by auto
      then show ?thesis using r idx Ret y by (simp add: on_set_def ra_via_nth nth_list_update)
    qed (use r in \<open>simp_all add: on_set_def\<close>)
  qed (use r in \<open>simp add: on_set_def\<close>)
qed

end

abbreviation cidr_arg :: "IPNet option \<Rightarrow> bool" where
  "cidr_arg c \<equiv> (\<forall>n. c = Some n \<longrightarrow> canon_net n)"

lemma no_result_Ret: "no_result m = Ret (x, s') \<longleftrightarrow> m = Ret s'"
  by (cases m) (auto simp: no_result_def)

text \<open>The methods keep a set well-formed whatever network they are given.\<close>

lemma Occupy_any:
  assumes inv: "cidr_inv s" and r: "Occupy s c = Ret s'"
  shows "cidr_inv s' \<and> same_blocks s s' \<and> grows s s'"
proof -
  obtain b l where bl: "getBeginningAndEndIndices s c = Ret (b, l)" "s' = set_usage (occupy_loop (nat (l - b + 1)) b s)"
    using r by (auto simp: Occupy_def go_out)
  let ?t = "occupy_loop (nat (l - b + 1)) b s"
  have b: "0 \<le> b" "l < int (capacity s)"
    using range_bounds [OF cidr_inv_geom [OF inv] bl(1)] capacity_geom(1) [OF cidr_inv_geom [OF inv]] by simp_all
  have u: "used_set ?t = used_set s \<union> {i. nat b \<le> i \<and> i < nat b + nat (l - b + 1)}"
    using b by (auto simp: used_set_def occupy_loop_used)
  have "used_set ?t \<subseteq> {..<capacity s}" using inv b unfolding u by (auto simp: cidr_inv_alt)
  moreover have "same_blocks s s'" unfolding bl(2) using same_blocks_trans [OF occupy_loop_frame(1) set_usage_frame(1)] .
  moreover have "0 \<le> nextCandidate s" "nextCandidate s < maxCIDRs s" using inv by (simp_all add: cidr_inv_alt)
  ultimately show ?thesis
    using u occupy_loop_frame(2) occupy_loop_counted [OF counted_inv [OF inv]] unfolding bl(2)
    by (simp add: set_usage_frame grows_def cidr_invI [OF inv])
qed

lemma Release_any:
  assumes inv: "cidr_inv s" and r: "Release s c = Ret s'"
  shows "cidr_inv s' \<and> same_blocks s s' \<and> shrinks s s'"
proof -
  obtain b l where bl: "getBeginningAndEndIndices s c = Ret (b, l)" "s' = set_usage (release_loop (nat (l - b + 1)) b s)"
    using r by (auto simp: Release_def go_out)
  let ?t = "release_loop (nat (l - b + 1)) b s"
  have b: "0 \<le> b" using range_bounds [OF cidr_inv_geom [OF inv] bl(1)] by simp
  have u: "used_set ?t \<subseteq> used_set s" using b by (auto simp: used_set_def release_loop_used)
  then have "used_set ?t \<subseteq> {..<capacity s}" using inv by (auto simp: cidr_inv_alt)
  moreover have "same_blocks s s'" unfolding bl(2) using same_blocks_trans [OF release_loop_frame(1) set_usage_frame(1)] .
  moreover have "0 \<le> nextCandidate s" "nextCandidate s < maxCIDRs s" using inv by (simp_all add: cidr_inv_alt)
  ultimately show ?thesis
    using u release_loop_frame(2) release_loop_counted [OF counted_inv [OF inv]] unfolding bl(2)
    by (simp add: set_usage_frame shrinks_def cidr_invI [OF inv])
qed

lemma occupy_op_step: "cidr_inv s \<Longrightarrow> occupy_op c s = Ret (x, s') \<Longrightarrow> cidr_inv s' \<and> same_blocks s s' \<and> grows s s'"
  using Occupy_any by (auto simp: occupy_op_def no_result_Ret)

lemma release_op_step: "cidr_inv s \<Longrightarrow> release_op c s = Ret (x, s') \<Longrightarrow> cidr_inv s' \<and> same_blocks s s' \<and> shrinks s s'"
  using Release_any by (auto simp: release_op_def no_result_Ret)

lemma wrap_act_Ret_iff: "wrap_act g m r = (Ret x, r') \<longleftrightarrow> m r = (Ret x, r')"
  by (cases "m r") (simp add: wrap_act_def)

lemma AllocateNext_grows:
  assumes "cidr_inv s" and "AllocateNext s = Ret (c, s')"
  shows "cidr_inv s' \<and> same_blocks s s' \<and> grows s s'"
proof -
  have "used_set s \<noteq> {..<capacity s}" using assms AllocateNext_full by fastforce
  then have "grows s s'" using cs.alloc_free [OF assms(1)] assms(2) by (auto simp: grows_def)
  then show ?thesis using AllocateNext_step [OF assms] by simp
qed

interpretation allocate_m: set_method "\<lambda>_::unit. AllocateNext" "\<lambda>_. True" grows
  by unfold_locales (use AllocateNext_grows in \<open>auto simp: grows_def\<close>)

interpretation occupy_m: set_method occupy_op cidr_arg grows
  by unfold_locales (use occupy_op_step in \<open>auto simp: grows_def\<close>)

interpretation release_m: set_method release_op cidr_arg shrinks
  by unfold_locales (use release_op_step in \<open>auto simp: shrinks_def\<close>)

lemma keeps_wrap [intro]: "keeps P m \<Longrightarrow> keeps P (wrap_act g m)"
  by (rule keepsI) (auto simp: wrap_act_def dest: keepsD split: prod.splits)

lemma keeps_record [intro]: "keeps (ra_via R r0) m \<Longrightarrow> keeps (ra_via R r0) (record_on_err node status m)"
  by (rule keepsI) (auto simp: record_on_err_def dest: keepsD split: prod.splits outcome.splits)

lemmas keeps_method = allocate_m.on_set_keeps [simplified] occupy_m.on_set_keeps release_m.on_set_keeps

section \<open>Every operation keeps the sets well-formed\<close>

text \<open>Pod CIDRs that parse to networks as \<^verbatim>\<open>net.ParseCIDR\<close> returns them.\<close>

definition cidrs_ok :: "(string \<Rightarrow> IPNet option) \<Rightarrow> string list \<Rightarrow> bool" where
  "cidrs_ok parse cidrs \<longleftrightarrow> (\<forall>c\<in>set cidrs. \<forall>n. parse c = Some n \<longrightarrow> canon_net n)"

lemma keeps_occupy_from: "cidrs_ok parse cidrs \<Longrightarrow> keeps (ra_via grows r0) (occupy_from parse idx cidrs)"
proof (induction cidrs arbitrary: idx)
  case Nil
  then show ?case by (simp add: keeps_def)
next
  case (Cons c cs)
  then have ih: "keeps (ra_via grows r0) (occupy_from parse (Suc idx) cs)" by (simp add: cidrs_ok_def)
  show ?case
  proof (rule keepsI)
    fix r assume r: "ra_via grows r0 r"
    show "ra_via grows r0 (snd (occupy_from parse idx (c # cs) r))"
    proof (cases "parse c")
      case (Some n)
      then have "cidr_arg (Some n)" using Cons.prems by (simp add: cidrs_ok_def)
      then have "keeps (ra_via grows r0) (bind_act (wrap_act g (on_set idx (occupy_op (Some n)))) (\<lambda>_. occupy_from parse (Suc idx) cs))" for g
        using keeps_method(2) ih by blast
      then show ?thesis using r Some by (simp add: keepsD)
    qed (use r in simp)
  qed
qed

lemma keeps_release_from: "cidrs_ok parse cidrs \<Longrightarrow> keeps (ra_via shrinks r0) (release_from parse idx cidrs)"
proof (induction cidrs arbitrary: idx)
  case Nil
  then show ?case by (simp add: keeps_def)
next
  case (Cons c cs)
  then have ih: "keeps (ra_via shrinks r0) (release_from parse (Suc idx) cs)" by (simp add: cidrs_ok_def)
  show ?case
  proof (rule keepsI)
    fix r assume r: "ra_via shrinks r0 r"
    show "ra_via shrinks r0 (snd (release_from parse idx (c # cs) r))"
    proof (cases "parse c")
      case (Some n)
      then have "cidr_arg (Some n)" using Cons.prems by (simp add: cidrs_ok_def)
      then have "keeps (ra_via shrinks r0) (bind_act (wrap_act g (on_set idx (release_op (Some n)))) (\<lambda>_. release_from parse (Suc idx) cs))" for g
        using keeps_method(3) ih by blast
      then show ?thesis using r Some by (simp add: keepsD)
    qed (use r in simp)
  qed
qed

lemma keeps_release_proposed:
  "(\<And>c. c \<in> set cs \<Longrightarrow> cidr_arg c) \<Longrightarrow> keeps (ra_via shrinks r0) (release_proposed idx cs)"
proof (induction cs arbitrary: idx)
  case Nil
  then show ?case by (simp add: keeps_def)
next
  case (Cons c cs)
  have "keeps (ra_via shrinks r0) (on_set idx (release_op c))"
    by (rule keeps_method(3)) (use Cons.prems [of c] in simp)
  then have "keeps (ra_via shrinks r0) (bind_act (log_act (on_set idx (release_op c))) (\<lambda>_. release_proposed (Suc idx) cs))"
    using Cons by (intro keeps_bind keeps_log) auto
  then show ?case by (simp add: keeps_def)
qed

section \<open>Effects of the loops\<close>

lemma allocate_from_spec:
  assumes "allocate_from node k idx r = (res, r')" and "idx + k \<le> length (ra_cidrSets r)"
  shows "length (ra_cidrSets r') = length (ra_cidrSets r) \<and> ra_clusterCIDRs r' = ra_clusterCIDRs r \<and>
    ra_patched r' = ra_patched r \<and>
    (\<forall>i. i < idx \<or> idx + k \<le> i \<longrightarrow> ra_cidrSets r' ! i = ra_cidrSets r ! i) \<and>
    (\<forall>i. ra_cidrSets r' ! i = ra_cidrSets r ! i \<or> (\<exists>c. AllocateNext (ra_cidrSets r ! i) = Ret (c, ra_cidrSets r' ! i))) \<and>
    (\<forall>cs. res = Ret cs \<longrightarrow> length cs = k \<and>
      (\<forall>j<k. \<exists>c. cs ! j = Some c \<and> AllocateNext (ra_cidrSets r ! (idx + j)) = Ret (c, ra_cidrSets r' ! (idx + j))))"
  using assms
proof (induction k arbitrary: idx r res r')
  case 0
  then show ?case by auto
next
  case (Suc k)
  show ?case
  proof (cases "AllocateNext (ra_cidrSets r ! idx)")
    case (Ret y)
    obtain c s where y: "y = (c, s)" by (cases y)
    let ?r = "r\<lparr>ra_cidrSets := (ra_cidrSets r)[idx := s]\<rparr>"
    obtain res1 where r1: "allocate_from node k (Suc idx) ?r = (res1, r')"
      and res: "res = (case res1 of Ret cs \<Rightarrow> Ret (Some c # cs) | Err e \<Rightarrow> Err e | Panic \<Rightarrow> Panic)"
      using Suc.prems Ret y
      by (auto simp: act_defs record_on_err_def wrap_act_def on_set_def split: prod.splits outcome.splits)
    have len: "Suc idx + k \<le> length (ra_cidrSets ?r)" using Suc.prems by simp
    note ih = Suc.IH [OF r1 len]
    have idx: "ra_cidrSets r' ! idx = s" using ih Suc.prems(2) by simp
    have rest: "ra_cidrSets ?r ! i = ra_cidrSets r ! i" if "i \<noteq> idx" for i using that by simp
    have all: "\<forall>i. ra_cidrSets r' ! i = ra_cidrSets r ! i \<or> (\<exists>c. AllocateNext (ra_cidrSets r ! i) = Ret (c, ra_cidrSets r' ! i))"
    proof
      fix i
      show "ra_cidrSets r' ! i = ra_cidrSets r ! i \<or> (\<exists>c. AllocateNext (ra_cidrSets r ! i) = Ret (c, ra_cidrSets r' ! i))"
      proof (cases "i = idx")
        case True
        then show ?thesis using idx Ret y by simp
      next
        case False
        then show ?thesis using ih rest by metis
      qed
    qed
    have results: "length cs = Suc k \<and> (\<forall>j<Suc k. \<exists>c. cs ! j = Some c \<and>
        AllocateNext (ra_cidrSets r ! (idx + j)) = Ret (c, ra_cidrSets r' ! (idx + j)))" if rc: "res = Ret cs" for cs
    proof -
      obtain cs1 where cs1: "res1 = Ret cs1" "cs = Some c # cs1" using res rc by (cases res1) auto
      have "\<exists>d. cs1 ! j = Some d \<and> AllocateNext (ra_cidrSets r ! Suc (idx + j)) = Ret (d, ra_cidrSets r' ! Suc (idx + j))"
        if "j < k" for j
        using ih cs1(1) that rest [of "Suc (idx + j)"] by auto
      then show ?thesis using ih cs1 idx Ret y by (auto simp: less_Suc_eq_0_disj)
    qed
    have "\<forall>i. i < idx \<or> idx + Suc k \<le> i \<longrightarrow> ra_cidrSets r' ! i = ra_cidrSets r ! i"
      using ih rest by (metis Suc_leD add_Suc add_Suc_right add_leD1 less_Suc_eq not_less_eq_eq order_less_irrefl)
    then show ?thesis using ih all results by auto
  next
    case (Err e)
    then show ?thesis
      using Suc.prems by (auto simp: act_defs record_on_err_def wrap_act_def on_set_def)
  next
    case Panic
    then show ?thesis
      using Suc.prems by (auto simp: act_defs record_on_err_def wrap_act_def on_set_def)
  qed
qed

lemma release_proposed_spec:
  assumes "idx + length cs \<le> length (ra_cidrSets r)"
    and "\<And>j. j < length cs \<Longrightarrow> Release (ra_cidrSets r ! (idx + j)) (cs ! j) = Ret (ss ! j)" and "length ss = length cs"
  shows "release_proposed idx cs r =
    (Ret (), r\<lparr>ra_cidrSets := take idx (ra_cidrSets r) @ ss @ drop (idx + length cs) (ra_cidrSets r)\<rparr>)"
  using assms
proof (induction cs arbitrary: idx r ss)
  case Nil
  then show ?case by simp
next
  case (Cons c cs)
  obtain s ss' where ss: "ss = s # ss'" using Cons.prems(3) by (cases ss) auto
  let ?r = "r\<lparr>ra_cidrSets := (ra_cidrSets r)[idx := s]\<rparr>"
  have idx: "idx < length (ra_cidrSets r)" using Cons.prems(1) by simp
  have "Release (ra_cidrSets r ! idx) c = Ret s" using Cons.prems(2) [of 0] ss by simp
  then have "release_proposed idx (c # cs) r = release_proposed (Suc idx) cs ?r"
    using idx by (simp add: act_defs on_set_def release_op_def no_result_def)
  also have "\<dots> = (Ret (), ?r\<lparr>ra_cidrSets := take (Suc idx) (ra_cidrSets ?r) @ ss' @
      drop (Suc idx + length cs) (ra_cidrSets ?r)\<rparr>)"
  proof (rule Cons.IH)
    fix j assume "j < length cs"
    then show "Release (ra_cidrSets ?r ! (Suc idx + j)) (cs ! j) = Ret (ss' ! j)"
      using Cons.prems(2) [of "Suc j"] ss by simp
  qed (use Cons.prems ss in simp_all)
  finally show ?case using idx ss by (simp add: take_Suc_conv_app_nth drop_update_cancel)
qed

lemma release_from_spec:
  assumes "idx + length cidrs \<le> length (ra_cidrSets r)" and "length ss = length cidrs"
    and "\<And>j. j < length cidrs \<Longrightarrow> \<exists>n. parse (cidrs ! j) = Some n \<and> Release (ra_cidrSets r ! (idx + j)) (Some n) = Ret (ss ! j)"
  shows "release_from parse idx cidrs r =
    (Ret (), r\<lparr>ra_cidrSets := take idx (ra_cidrSets r) @ ss @ drop (idx + length cidrs) (ra_cidrSets r)\<rparr>)"
  using assms
proof (induction cidrs arbitrary: idx r ss)
  case Nil
  then show ?case by simp
next
  case (Cons c cs)
  obtain s ss' where ss: "ss = s # ss'" using Cons.prems(2) by (cases ss) auto
  let ?r = "r\<lparr>ra_cidrSets := (ra_cidrSets r)[idx := s]\<rparr>"
  have idx: "idx < length (ra_cidrSets r)" using Cons.prems(1) by simp
  have "\<exists>n. parse c = Some n \<and> Release (ra_cidrSets r ! idx) (Some n) = Ret s" using Cons.prems(3) [of 0] ss by simp
  then have "release_from parse idx (c # cs) r = release_from parse (Suc idx) cs ?r"
    using idx by (auto simp: act_defs wrap_act_def on_set_def release_op_def no_result_def)
  also have "\<dots> = (Ret (), ?r\<lparr>ra_cidrSets := take (Suc idx) (ra_cidrSets ?r) @ ss' @
      drop (Suc idx + length cs) (ra_cidrSets ?r)\<rparr>)"
  proof (rule Cons.IH)
    fix j assume "j < length cs"
    then show "\<exists>n. parse (cs ! j) = Some n \<and> Release (ra_cidrSets ?r ! (Suc idx + j)) (Some n) = Ret (ss' ! j)"
      using Cons.prems(3) [of "Suc j"] ss by simp
  qed (use Cons.prems ss in simp_all)
  finally show ?case using idx ss by (simp add: take_Suc_conv_app_nth drop_update_cancel)
qed

section \<open>Allocating a node's blocks\<close>

text \<open>
  The blocks that a successful allocation hands out: one index per set, free before and used after,
  with no other change.
\<close>

lemma allocate_indices:
  assumes inv: "ra_inv r" and res: "allocate_from node (length (ra_cidrSets r)) 0 r = (Ret allocated, r')"
  obtains js where "length js = length (ra_cidrSets r)"
    "allocated = map (\<lambda>i. Some (nth_block (ra_cidrSets r ! i) (js ! i))) [0..<length (ra_cidrSets r)]"
    "\<And>i. i < length (ra_cidrSets r) \<Longrightarrow> js ! i < capacity (ra_cidrSets r ! i) \<and> js ! i \<notin> used_set (ra_cidrSets r ! i) \<and>
      used_set (ra_cidrSets r' ! i) = insert (js ! i) (used_set (ra_cidrSets r ! i))"
proof -
  let ?n = "length (ra_cidrSets r)"
  have spec: "length allocated = ?n" "\<And>i. i < ?n \<Longrightarrow> \<exists>c. allocated ! i = Some c \<and>
      AllocateNext (ra_cidrSets r ! i) = Ret (c, ra_cidrSets r' ! i)"
    using allocate_from_spec [OF res] by auto
  have "\<exists>j. allocated ! i = Some (nth_block (ra_cidrSets r ! i) j) \<and> j < capacity (ra_cidrSets r ! i) \<and>
      j \<notin> used_set (ra_cidrSets r ! i) \<and> used_set (ra_cidrSets r' ! i) = insert j (used_set (ra_cidrSets r ! i))"
    if i: "i < ?n" for i
  proof -
    have ci: "cidr_inv (ra_cidrSets r ! i)" using inv i by (simp add: ra_inv_nth)
    obtain c where c: "allocated ! i = Some c" "AllocateNext (ra_cidrSets r ! i) = Ret (c, ra_cidrSets r' ! i)"
      using spec(2) [OF i] by blast
    then have "used_set (ra_cidrSets r ! i) \<noteq> {..<capacity (ra_cidrSets r ! i)}" using AllocateNext_full [OF ci] by fastforce
    then show ?thesis using cs.alloc_free [OF ci] c by auto
  qed
  then obtain f where f: "\<And>i. i < ?n \<Longrightarrow> allocated ! i = Some (nth_block (ra_cidrSets r ! i) (f i)) \<and>
      f i < capacity (ra_cidrSets r ! i) \<and> f i \<notin> used_set (ra_cidrSets r ! i) \<and>
      used_set (ra_cidrSets r' ! i) = insert (f i) (used_set (ra_cidrSets r ! i))"
    by metis
  then have "allocated = map (\<lambda>i. Some (nth_block (ra_cidrSets r ! i) (map f [0..<?n] ! i))) [0..<?n]"
    using spec(1) by (auto intro: nth_equalityI)
  then show ?thesis using that [of "map f [0..<?n]"] f by auto
qed

text \<open>A failed or successful allocation leaves well-formed sets, none of which lost a block.\<close>

lemma allocate_keeps:
  assumes "ra_inv r" and "allocate_from node (length (ra_cidrSets r)) 0 r = (res, r')"
  shows "ra_via grows r r'"
proof -
  let ?n = "length (ra_cidrSets r)"
  note spec = allocate_from_spec [OF assms(2)]
  have "cidr_inv (ra_cidrSets r' ! i) \<and> same_blocks (ra_cidrSets r ! i) (ra_cidrSets r' ! i) \<and>
      grows (ra_cidrSets r ! i) (ra_cidrSets r' ! i)" if i: "i < ?n" for i
  proof -
    have ci: "cidr_inv (ra_cidrSets r ! i)" using assms(1) i by (simp add: ra_inv_nth)
    have "ra_cidrSets r' ! i = ra_cidrSets r ! i \<or> (\<exists>c. AllocateNext (ra_cidrSets r ! i) = Ret (c, ra_cidrSets r' ! i))"
      using spec by simp
    then show ?thesis using AllocateNext_grows [OF ci] ci by (auto simp: grows_def)
  qed
  then show ?thesis using spec by (simp add: ra_via_nth)
qed

text \<open>Releasing exactly the blocks that were just allocated restores every set of used blocks.\<close>

lemma Release_block:
  assumes inv: "cidr_inv s" and j: "j < capacity s"
  shows "\<exists>t. Release s (Some (nth_block s j)) = Ret t \<and> cidr_inv t \<and> same_blocks s t \<and> used_set t = used_set s - {j}"
proof -
  have c: "canon_net (nth_block s j)" and h: "hits (nth_block s) (capacity s) (nth_block s j) = {j}"
    using cs.block_canon [OF inv j] cs.block_hits [OF inv j] by auto
  obtain t where "Release s (Some (nth_block s j)) = Ret t" "used_set t = used_set s - {j}"
    using cs.release_hit [OF inv c] h by auto
  then show ?thesis using Release_step [OF inv c] by blast
qed

lemma release_blocks:
  assumes inv: "ra_inv r" and js: "length js = length (ra_cidrSets r)"
    and b: "\<And>i. i < length (ra_cidrSets r) \<Longrightarrow> js ! i < capacity (ra_cidrSets r ! i)"
  obtains ss where "length ss = length (ra_cidrSets r)"
    "\<And>i. i < length (ra_cidrSets r) \<Longrightarrow> Release (ra_cidrSets r ! i) (Some (nth_block (ra_cidrSets r ! i) (js ! i))) = Ret (ss ! i) \<and>
      cidr_inv (ss ! i) \<and> same_blocks (ra_cidrSets r ! i) (ss ! i) \<and> used_set (ss ! i) = used_set (ra_cidrSets r ! i) - {js ! i}"
proof -
  let ?n = "length (ra_cidrSets r)"
  have "\<exists>t. Release (ra_cidrSets r ! i) (Some (nth_block (ra_cidrSets r ! i) (js ! i))) = Ret t \<and>
      cidr_inv t \<and> same_blocks (ra_cidrSets r ! i) t \<and> used_set t = used_set (ra_cidrSets r ! i) - {js ! i}" if "i < ?n" for i
    using Release_block [of "ra_cidrSets r ! i" "js ! i"] inv b that by (simp add: ra_inv_nth)
  then obtain f where "\<And>i. i < ?n \<Longrightarrow> Release (ra_cidrSets r ! i) (Some (nth_block (ra_cidrSets r ! i) (js ! i))) = Ret (f i) \<and>
      cidr_inv (f i) \<and> same_blocks (ra_cidrSets r ! i) (f i) \<and> used_set (f i) = used_set (ra_cidrSets r ! i) - {js ! i}"
    by metis
  then show ?thesis using that [of "map f [0..<?n]"] by simp
qed

end
