(* ===== verification/RangeSafety.thy ===== *)
theory RangeSafety
  imports RangeAllocatorLemmas
begin

text \<open>
  The range allocator together with the cluster it serves, as a step relation: nodes appear, are
  synced and are deleted in any order, and the API server may accept or refuse any patch. The
  invariant is that the pod CIDRs of every node are blocks in use, and that no two nodes own the
  same block.
\<close>

section \<open>The system\<close>

text \<open>The pod CIDRs of the nodes that exist, and the effect of accepted patches on them.\<close>

type_synonym cluster = "string \<rightharpoonup> string list"

definition apply_patched :: "(string \<times> string list) list \<Rightarrow> cluster \<Rightarrow> cluster" where
  "apply_patched log nodes = fold (\<lambda>(n, cs) m. m(n \<mapsto> cs)) log nodes"

text \<open>The lister answers with the node as it is in the cluster, and the node is not being deleted.\<close>

definition live_env :: "(string \<Rightarrow> IPNet option) \<Rightarrow> cluster \<Rightarrow> string \<Rightarrow> api_env \<Rightarrow> bool" where
  "live_env parse nodes n env \<longleftrightarrow> parseCIDR env = parse \<and>
     (\<exists>node. lister env 0 n = Inr node \<and> lister env 1 n = Inr node \<and> node_Name node = n \<and>
       \<not> node_Deleting node \<and> nodes n = Some (spec_PodCIDRs node))"

inductive sys_step :: "(string \<Rightarrow> IPNet option) \<Rightarrow> RangeAllocator \<times> cluster \<Rightarrow> RangeAllocator \<times> cluster \<Rightarrow> bool"
  for parse where
  add: "nodes n = None \<Longrightarrow> sys_step parse (r, nodes) (r, nodes(n \<mapsto> []))"
| sync: "live_env parse nodes n env \<Longrightarrow> syncNode env n r = (res, r') \<Longrightarrow>
    sys_step parse (r, nodes) (r', apply_patched (drop (length (ra_patched r)) (ra_patched r')) nodes)"
| delete: "node_Name node = n \<Longrightarrow> nodes n = Some (spec_PodCIDRs node) \<Longrightarrow> onDelete parse (ObjNode node) r = (res, r') \<Longrightarrow>
    sys_step parse (r, nodes) (r', nodes(n := None))"

inductive sys_reach :: "(string \<Rightarrow> IPNet option) \<Rightarrow> CIDRAllocatorParams \<Rightarrow> RangeAllocator \<times> cluster \<Rightarrow> bool"
  for parse params where
  init: "NewCIDRRangeAllocator parse params None = Ret r \<Longrightarrow> sys_reach parse params (r, Map.empty)"
| step: "sys_reach parse params s \<Longrightarrow> sys_step parse s s' \<Longrightarrow> sys_reach parse params s'"

inductive_cases sys_stepE: "sys_step parse (r, nodes) s'"

section \<open>Ownership\<close>

definition node_cidrs :: "CidrSet list \<Rightarrow> nat list \<Rightarrow> string list" where
  "node_cidrs sets js = map (\<lambda>i. net_String (nth_block (sets ! i) (js ! i))) [0..<length sets]"

text \<open>The pod CIDRs of one node, against the indices that it owns.\<close>

definition entry_ok :: "CidrSet list \<Rightarrow> string list option \<Rightarrow> nat list option \<Rightarrow> bool" where
  "entry_ok sets cidrs own =
     (case own of
        None \<Rightarrow> cidrs = None \<or> cidrs = Some []
      | Some js \<Rightarrow> length js = length sets \<and> cidrs = Some (node_cidrs sets js))"

text \<open>
  Every node owns blocks that are in use, no two nodes own the same block, and the blocks of \<open>keep\<close>
  are in use but owned by no node.
\<close>

definition owns :: "(nat \<Rightarrow> nat set) \<Rightarrow> CidrSet list \<Rightarrow> (string \<rightharpoonup> nat list) \<Rightarrow> cluster \<Rightarrow> bool" where
  "owns keep sets own nodes \<longleftrightarrow>
     (\<forall>i<length sets. keep i \<subseteq> used_set (sets ! i)) \<and>
     (\<forall>n js i. own n = Some js \<longrightarrow> i < length sets \<longrightarrow> js ! i \<notin> keep i) \<and>
     (\<forall>n. entry_ok sets (nodes n) (own n)) \<and>
     (\<forall>n js i. own n = Some js \<longrightarrow> i < length sets \<longrightarrow> js ! i \<in> used_set (sets ! i)) \<and>
     (\<forall>n m js ks i. own n = Some js \<longrightarrow> own m = Some ks \<longrightarrow> n \<noteq> m \<longrightarrow> i < length sets \<longrightarrow> js ! i \<noteq> ks ! i)"

lemma ownsI:
  assumes "\<And>n. entry_ok sets (nodes n) (own n)"
    and "\<And>i. i < length sets \<Longrightarrow> keep i \<subseteq> used_set (sets ! i)"
    and "\<And>n js i. own n = Some js \<Longrightarrow> i < length sets \<Longrightarrow> js ! i \<in> used_set (sets ! i) - keep i"
    and "\<And>n m js ks i. own n = Some js \<Longrightarrow> own m = Some ks \<Longrightarrow> n \<noteq> m \<Longrightarrow> i < length sets \<Longrightarrow> js ! i \<noteq> ks ! i"
  shows "owns keep sets own nodes"
  using assms unfolding owns_def by blast

lemma ownsD:
  assumes "owns keep sets own nodes"
  shows "entry_ok sets (nodes n) (own n)"
    and "own n = Some js \<Longrightarrow> i < length sets \<Longrightarrow> js ! i \<in> used_set (sets ! i)"
    and "own n = Some js \<Longrightarrow> own m = Some ks \<Longrightarrow> n \<noteq> m \<Longrightarrow> i < length sets \<Longrightarrow> js ! i \<noteq> ks ! i"
    and "i < length sets \<Longrightarrow> keep i \<subseteq> used_set (sets ! i)"
    and "own n = Some js \<Longrightarrow> i < length sets \<Longrightarrow> js ! i \<notin> keep i"
  using assms unfolding owns_def by blast+

text \<open>The invariant of the system, relative to the sets that it started with.\<close>

definition sys_inv :: "CidrSet list \<Rightarrow> (nat \<Rightarrow> nat set) \<Rightarrow> RangeAllocator \<times> cluster \<Rightarrow> bool" where
  "sys_inv sets0 keep s \<longleftrightarrow>
     (case s of (r, nodes) \<Rightarrow> ra_inv r \<and> list_all2 same_blocks sets0 (ra_cidrSets r) \<and>
        (\<exists>own. owns keep (ra_cidrSets r) own nodes))"

text \<open>What the parser has to do: read back the CIDR of a network that \<^verbatim>\<open>net.IPNet.String\<close> printed.\<close>

definition reads_back :: "(string \<Rightarrow> IPNet option) \<Rightarrow> bool" where
  "reads_back parse \<longleftrightarrow> (\<forall>n. canon_net n \<longrightarrow> parse (net_String n) = Some n)"

lemma node_cidrs_same:
  assumes "length sets' = length sets" and "\<And>i. i < length sets \<Longrightarrow> same_blocks (sets ! i) (sets' ! i)"
  shows "node_cidrs sets' js = node_cidrs sets js"
  unfolding node_cidrs_def assms(1) by (rule map_cong [OF refl]) (simp add: same_blocksD(3) [OF assms(2)])

lemma entry_ok_same:
  assumes len: "length sets' = length sets" and same: "\<And>i. i < length sets \<Longrightarrow> same_blocks (sets ! i) (sets' ! i)"
  shows "entry_ok sets' = entry_ok sets"
proof -
  have "node_cidrs sets' = node_cidrs sets" by (rule ext, rule node_cidrs_same [OF len]) (rule same)
  then show ?thesis by (intro ext) (simp add: entry_ok_def len split: option.split)
qed

text \<open>Ownership survives every change of the sets that keeps the owned blocks in use.\<close>

lemma owns_mono:
  assumes o: "owns keep sets own nodes" and len: "length sets' = length sets"
    and same: "\<And>i. i < length sets \<Longrightarrow> same_blocks (sets ! i) (sets' ! i)"
    and used: "\<And>n js i. own n = Some js \<Longrightarrow> i < length sets \<Longrightarrow> js ! i \<in> used_set (sets' ! i)"
    and kept: "\<And>i. i < length sets \<Longrightarrow> keep i \<subseteq> used_set (sets' ! i)"
  shows "owns keep sets' own nodes"
proof (rule ownsI)
  fix n show "entry_ok sets' (nodes n) (own n)"
    using ownsD(1) [OF o, of n] entry_ok_same [OF len] same by simp
qed (use used kept ownsD(3,5) [OF o] len in simp_all)

lemma owns_via:
  assumes "owns keep (ra_cidrSets r) own nodes" and "ra_via grows r r'"
  shows "owns keep (ra_cidrSets r') own nodes"
proof (rule owns_mono [OF assms(1)])
  fix n js i assume "own n = Some js" "i < length (ra_cidrSets r)"
  then have "js ! i \<in> used_set (ra_cidrSets r ! i)" by (rule ownsD(2) [OF assms(1)])
  then show "js ! i \<in> used_set (ra_cidrSets r' ! i)"
    using assms(2) \<open>i < _\<close> by (auto simp: ra_via_nth grows_def)
next
  fix i assume "i < length (ra_cidrSets r)"
  then show "keep i \<subseteq> used_set (ra_cidrSets r' ! i)"
    using ownsD(4) [OF assms(1)] assms(2) by (fastforce simp: ra_via_nth grows_def)
qed (use assms(2) in \<open>simp_all add: ra_via_nth\<close>)

text \<open>A node without pod CIDRs may take blocks that were free.\<close>

lemma owns_take:
  assumes o: "owns keep sets own nodes" and js: "length js = length sets"
    and free: "\<And>i. i < length sets \<Longrightarrow> js ! i \<notin> used_set (sets ! i)"
    and len: "length sets' = length sets" and same: "\<And>i. i < length sets \<Longrightarrow> same_blocks (sets ! i) (sets' ! i)"
    and used: "\<And>i. i < length sets \<Longrightarrow> used_set (sets' ! i) = insert (js ! i) (used_set (sets ! i))"
  shows "owns keep sets' (own(n \<mapsto> js)) (nodes(n \<mapsto> node_cidrs sets js))"
proof (rule ownsI)
  have new: "ks ! i \<noteq> js ! i" if "own m = Some ks" "i < length sets" for m ks i
    using ownsD(2) [OF o that] free [OF that(2)] by auto
  fix m
  show "entry_ok sets' ((nodes(n \<mapsto> node_cidrs sets js)) m) ((own(n \<mapsto> js)) m)"
    using ownsD(1) [OF o, of m] js entry_ok_same [OF len] same by (simp add: entry_ok_def)
  fix ks i assume m: "(own(n \<mapsto> js)) m = Some ks" and "i < length sets'"
  then have i: "i < length sets" using len by simp
  then show "ks ! i \<in> used_set (sets' ! i) - keep i"
    using m used free ownsD(2,5) [OF o _ i, of m ks] ownsD(4) [OF o i] by (auto split: if_splits)
  fix m' ks' assume m': "(own(n \<mapsto> js)) m' = Some ks'" and "m \<noteq> m'"
  then show "ks ! i \<noteq> ks' ! i"
    using m i new [of m ks i] new [of m' ks' i] ownsD(3) [OF o, of m ks m' ks' i] by (auto split: if_splits)
qed (use used len ownsD(4) [OF o] in auto)

text \<open>A deleted node gives its blocks back; the others keep theirs.\<close>

lemma owns_drop:
  assumes o: "owns keep sets own nodes" and len: "length sets' = length sets"
    and same: "\<And>i. i < length sets \<Longrightarrow> same_blocks (sets ! i) (sets' ! i)"
    and used: "\<And>i js. own n = Some js \<Longrightarrow> i < length sets \<Longrightarrow> used_set (sets' ! i) = used_set (sets ! i) - {js ! i}"
    and none: "own n = None \<Longrightarrow> sets' = sets"
  shows "owns keep sets' (own(n := None)) (nodes(n := None))"
proof (rule ownsI)
  fix m
  show "entry_ok sets' ((nodes(n := None)) m) ((own(n := None)) m)"
    using ownsD(1) [OF o, of m] entry_ok_same [OF len] same by (simp add: entry_ok_def)
  fix ks i assume m: "(own(n := None)) m = Some ks" and "i < length sets'"
  then have i: "i < length sets" and mn: "m \<noteq> n" "own m = Some ks" using len by (auto split: if_splits)
  note u = ownsD(2) [OF o mn(2) i]
  have "ks ! i \<in> used_set (sets' ! i)"
  proof (cases "own n")
    case None
    then show ?thesis using u none by simp
  next
    case (Some js)
    then show ?thesis using u used [OF Some i] ownsD(3) [OF o mn(2) Some mn(1) i] by simp
  qed
  then show "ks ! i \<in> used_set (sets' ! i) - keep i" using ownsD(5) [OF o mn(2) i] by simp
  fix m' ks' assume "(own(n := None)) m' = Some ks'" and "m \<noteq> m'"
  then show "ks ! i \<noteq> ks' ! i" using ownsD(3) [OF o mn(2) _ _ i] by (auto split: if_splits)
next
  fix i assume "i < length sets'"
  then show "keep i \<subseteq> used_set (sets' ! i)"
    using ownsD(4) [OF o, of i] ownsD(5) [OF o, of n _ i] used none len by (cases "own n") auto
qed

section \<open>Steps keep the invariant\<close>

lemma owned_block:
  assumes inv: "ra_inv r" and o: "owns keep (ra_cidrSets r) own nodes" and n: "own n = Some js" and i: "i < length (ra_cidrSets r)"
  shows "js ! i < capacity (ra_cidrSets r ! i)" and "canon_net (nth_block (ra_cidrSets r ! i) (js ! i))"
proof -
  have ci: "cidr_inv (ra_cidrSets r ! i)" using inv i by (simp add: ra_inv_nth)
  show "js ! i < capacity (ra_cidrSets r ! i)" using cs.taken_bound [OF ci] ownsD(2) [OF o n i] by auto
  then show "canon_net (nth_block (ra_cidrSets r ! i) (js ! i))" by (rule cs.block_canon [OF ci])
qed

lemma owned_parse:
  assumes "reads_back parse" and "ra_inv r" and "owns keep (ra_cidrSets r) own nodes" and "own n = Some js"
  shows "i < length (ra_cidrSets r) \<Longrightarrow>
      parse (node_cidrs (ra_cidrSets r) js ! i) = Some (nth_block (ra_cidrSets r ! i) (js ! i))"
    and "cidrs_ok parse (node_cidrs (ra_cidrSets r) js)"
proof -
  show p: "parse (node_cidrs (ra_cidrSets r) js ! i) = Some (nth_block (ra_cidrSets r ! i) (js ! i))"
    if "i < length (ra_cidrSets r)" for i
    using owned_block(2) [OF assms(2-4) that] assms(1) that by (simp add: reads_back_def node_cidrs_def)
  have "canon_net m" if i: "i < length (ra_cidrSets r)" and m: "parse (node_cidrs (ra_cidrSets r) js ! i) = Some m" for i m
    using p [OF i] owned_block(2) [OF assms(2-4) i] m by simp
  moreover have "length (node_cidrs (ra_cidrSets r) js) = length (ra_cidrSets r)" by (simp add: node_cidrs_def)
  ultimately show "cidrs_ok parse (node_cidrs (ra_cidrSets r) js)"
    unfolding cidrs_ok_def by (metis in_set_conv_nth)
qed

text \<open>A node that has pod CIDRs: they are marked again, which changes nothing that matters.\<close>

lemma sync_assigned:
  assumes "reads_back parse" and inv: "ra_inv r" and o: "owns keep (ra_cidrSets r) own nodes" and n: "own n = Some js"
    and res: "occupy_from parse 0 (node_cidrs (ra_cidrSets r) js) r = (res, r')"
  shows "ra_via grows r r'"
proof -
  have "ra_via grows r r" using inv by (intro ra_via_refl) (simp_all add: grows_def)
  then have "ra_via grows r (snd (occupy_from parse 0 (node_cidrs (ra_cidrSets r) js) r))"
    using keepsD [OF keeps_occupy_from [OF owned_parse(2) [OF assms(1) inv o n]]] by blast
  then show ?thesis using res by simp
qed

text \<open>A node without pod CIDRs whose assignment could not be stored: the blocks are free again.\<close>

lemma release_allocated:
  assumes inv: "ra_inv r" and res: "allocate_from node (length (ra_cidrSets r)) 0 r = (Ret allocated, r1)"
  obtains ss where "release_proposed 0 allocated (r1\<lparr>ra_events := e\<rparr>) = (Ret (), r1\<lparr>ra_events := e, ra_cidrSets := ss\<rparr>)"
    "length ss = length (ra_cidrSets r)"
    "\<And>i. i < length (ra_cidrSets r) \<Longrightarrow> cidr_inv (ss ! i) \<and> same_blocks (ra_cidrSets r ! i) (ss ! i) \<and>
      used_set (ss ! i) = used_set (ra_cidrSets r ! i)"
proof -
  let ?n = "length (ra_cidrSets r)"
  obtain js where js: "length js = ?n" "allocated = map (\<lambda>i. Some (nth_block (ra_cidrSets r ! i) (js ! i))) [0..<?n]"
    "\<And>i. i < ?n \<Longrightarrow> js ! i < capacity (ra_cidrSets r ! i) \<and> js ! i \<notin> used_set (ra_cidrSets r ! i) \<and>
      used_set (ra_cidrSets r1 ! i) = insert (js ! i) (used_set (ra_cidrSets r ! i))"
    by (rule allocate_indices [OF inv res]) blast
  have via: "ra_via grows r r1" by (rule allocate_keeps [OF inv res])
  then have len: "length (ra_cidrSets r1) = ?n" and inv1: "ra_inv r1"
    and same: "\<And>i. i < ?n \<Longrightarrow> same_blocks (ra_cidrSets r ! i) (ra_cidrSets r1 ! i)"
    using ra_via_inv [OF inv] by (auto simp: ra_via_nth)
  have bnd: "js ! i < capacity (ra_cidrSets r1 ! i)" if "i < length (ra_cidrSets r1)" for i
    using js(3) that len same_blocksD(2) [OF same] by simp
  obtain ss where ss: "length ss = length (ra_cidrSets r1)"
    "\<And>i. i < length (ra_cidrSets r1) \<Longrightarrow> Release (ra_cidrSets r1 ! i) (Some (nth_block (ra_cidrSets r1 ! i) (js ! i))) = Ret (ss ! i) \<and>
      cidr_inv (ss ! i) \<and> same_blocks (ra_cidrSets r1 ! i) (ss ! i) \<and> used_set (ss ! i) = used_set (ra_cidrSets r1 ! i) - {js ! i}"
    using release_blocks [OF inv1 _ bnd] js(1) len by metis
  have rel: "Release (ra_cidrSets r1 ! (0 + j)) (allocated ! j) = Ret (ss ! j)" if "j < length allocated" for j
    using ss(2) [of j] that js(2) len same_blocksD(3) [OF same] by simp
  have "release_proposed 0 allocated (r1\<lparr>ra_events := e\<rparr>) = (Ret (), r1\<lparr>ra_events := e, ra_cidrSets := ss\<rparr>)"
    using release_proposed_spec [of 0 allocated "r1\<lparr>ra_events := e\<rparr>" ss] rel ss(1) js(2) len by simp
  moreover have "cidr_inv (ss ! i) \<and> same_blocks (ra_cidrSets r ! i) (ss ! i) \<and> used_set (ss ! i) = used_set (ra_cidrSets r ! i)"
    if "i < ?n" for i
    using ss(2) [of i] js(3) [OF that] same_blocks_trans [OF same [OF that]] that len by auto
  ultimately show ?thesis using that [of ss] ss(1) len by simp
qed

lemma via_same:
  assumes "ra_via R r r'" and "list_all2 same_blocks sets0 (ra_cidrSets r)"
  shows "list_all2 same_blocks sets0 (ra_cidrSets r')"
  using assms same_blocks_trans by (fastforce simp: ra_via_nth list_all2_conv_all_nth)

lemma sys_inv_via:
  assumes "ra_inv r" and "owns keep (ra_cidrSets r) own nodes" and "ra_via grows r r'"
    and "list_all2 same_blocks sets0 (ra_cidrSets r)"
  shows "sys_inv sets0 keep (r', apply_patched (drop (length (ra_patched r)) (ra_patched r')) nodes)"
  using ra_via_inv [OF assms(1,3)] owns_via [OF assms(2,3)] assms(3) via_same [OF assms(3,4)]
  by (auto simp: sys_inv_def apply_patched_def ra_via_nth)

lemma ipnetToStringList_blocks:
  "ipnetToStringList (map (\<lambda>i. Some (nth_block (sets ! i) (js ! i))) [0..<length sets]) = node_cidrs sets js"
  by (simp add: ipnetToStringList_def node_cidrs_def netp_String_def)

lemma sync_unassigned:
  assumes inv: "ra_inv r" and o: "owns keep (ra_cidrSets r) own nodes"
    and b: "list_all2 same_blocks sets0 (ra_cidrSets r)"
    and node: "lister env 1 n = Inr node" "node_Name node = n" "spec_PodCIDRs node = []"
    and res: "AllocateOrOccupyCIDR env (Some node) r = (res, r')"
  shows "sys_inv sets0 keep (r', apply_patched (drop (length (ra_patched r)) (ra_patched r')) nodes)"
proof -
  let ?n = "length (ra_cidrSets r)"
  obtain res1 r1 where a: "allocate_from node ?n 0 r = (res1, r1)" by (cases "allocate_from node ?n 0 r")
  have via: "ra_via grows r r1" by (rule allocate_keeps [OF inv a])
  show ?thesis
  proof (cases res1)
    case (Ret allocated)
    note a = a [unfolded Ret]
    obtain js where js: "length js = ?n" "allocated = map (\<lambda>i. Some (nth_block (ra_cidrSets r ! i) (js ! i))) [0..<?n]"
      "\<And>i. i < ?n \<Longrightarrow> js ! i < capacity (ra_cidrSets r ! i) \<and> js ! i \<notin> used_set (ra_cidrSets r ! i) \<and>
        used_set (ra_cidrSets r1 ! i) = insert (js ! i) (used_set (ra_cidrSets r ! i))"
      by (rule allocate_indices [OF inv a]) blast
    define cidrs where "cidrs = node_cidrs (ra_cidrSets r) js"
    have upd: "updateCIDRsAllocation env n allocated r1 = (res, r')"
      using res node a by (simp add: AllocateOrOccupyCIDR_def bind_act_def)
    have str: "ipnetToStringList allocated = cidrs" using js(2) ipnetToStringList_blocks cidrs_def by simp
    let ?p = "patch_loop (send_patch env) cidrUpdateRetries 0 n cidrs (Ret ())"
    consider "r' = r1" | (ok) "r' = r1\<lparr>ra_patched := ra_patched r1 @ [(n, cidrs)]\<rparr>"
      | (failed) e where "?p = Err e" "cidrs \<noteq> []"
      using upd node by (cases ?p) (auto simp: updateCIDRsAllocation_def str split: if_splits)
    then show ?thesis
    proof cases
      case 1
      then show ?thesis using sys_inv_via [OF inv o via b] by simp
    next
      case ok
      have same: "same_blocks (ra_cidrSets r ! i) (ra_cidrSets r1 ! i)" if "i < ?n" for i
        using via that by (simp add: ra_via_nth)
      have "owns keep (ra_cidrSets r1) (own(n \<mapsto> js)) (nodes(n \<mapsto> cidrs))"
        unfolding cidrs_def using js same via by (intro owns_take [OF o js(1)]) (auto simp: ra_via_nth)
      then show ?thesis
        using ra_via_inv [OF inv via] via via_same [OF via b] ok by (auto simp: sys_inv_def apply_patched_def ra_inv_def ra_via_nth)
    next
      case failed
      have "\<not> IsServerTimeout e" by (rule patch_loop_no_timeout [OF _ failed(1)]) simp
      then have rel: "bind_act (release_proposed 0 allocated) (\<lambda>_. fail_act e)
          (r1\<lparr>ra_events := ra_events r1 @ [RecordNodeStatusChange node ''CIDRAssignmentFailed'']\<rparr>) = (res, r')"
        using upd node failed by (simp add: updateCIDRsAllocation_def str Let_def)
      define ev where "ev = ra_events r1 @ [RecordNodeStatusChange node ''CIDRAssignmentFailed'']"
      obtain ss where ss: "release_proposed 0 allocated (r1\<lparr>ra_events := ev\<rparr>) = (Ret (), r1\<lparr>ra_events := ev, ra_cidrSets := ss\<rparr>)"
        "length ss = ?n" "\<And>i. i < ?n \<Longrightarrow> cidr_inv (ss ! i) \<and> same_blocks (ra_cidrSets r ! i) (ss ! i) \<and>
          used_set (ss ! i) = used_set (ra_cidrSets r ! i)"
        by (rule release_allocated [OF inv a, where e = ev]) blast
      have "r' = r1\<lparr>ra_events := ev, ra_cidrSets := ss\<rparr>"
        using rel [folded ev_def] ss(1) by (simp add: bind_act_def fail_act_def)
      then have "ra_via grows r r'" using via ss(2,3) by (simp add: ra_via_nth grows_def)
      then show ?thesis by (rule sys_inv_via [OF inv o _ b])
    qed
  qed (use res a node via sys_inv_via [OF inv o via b] in \<open>simp_all add: AllocateOrOccupyCIDR_def bind_act_def\<close>)
qed

lemma sync_inv:
  assumes "reads_back parse" and inv: "ra_inv r" and o: "owns keep (ra_cidrSets r) own nodes"
    and b: "list_all2 same_blocks sets0 (ra_cidrSets r)" and env: "live_env parse nodes n env" and res: "syncNode env n r = (res, r')"
  shows "sys_inv sets0 keep (r', apply_patched (drop (length (ra_patched r)) (ra_patched r')) nodes)"
proof -
  obtain node where node: "lister env 0 n = Inr node" "lister env 1 n = Inr node" "node_Name node = n"
    "\<not> node_Deleting node" "nodes n = Some (spec_PodCIDRs node)" and p: "parseCIDR env = parse"
    using env by (auto simp: live_env_def)
  have call: "AllocateOrOccupyCIDR env (Some node) r = (res, r')" using res node by (simp add: syncNode_def)
  show ?thesis
  proof (cases "spec_PodCIDRs node = []")
    case True
    then show ?thesis using sync_unassigned [OF inv o b node(2,3) _ call] by simp
  next
    case False
    then obtain js where js: "own n = Some js" "spec_PodCIDRs node = node_cidrs (ra_cidrSets r) js"
      using ownsD(1) [OF o, of n] node(5) by (auto simp: entry_ok_def split: option.splits)
    then have "occupy_from parse 0 (node_cidrs (ra_cidrSets r) js) r = (res, r')"
      using call False p by (simp add: AllocateOrOccupyCIDR_def occupyCIDRs_def)
    then show ?thesis using sys_inv_via [OF inv o sync_assigned [OF assms(1) inv o js(1)] b] by blast
  qed
qed

lemma delete_inv:
  assumes rb: "reads_back parse" and inv: "ra_inv r" and o: "owns keep (ra_cidrSets r) own nodes"
    and b: "list_all2 same_blocks sets0 (ra_cidrSets r)" and node: "node_Name node = n" "nodes n = Some (spec_PodCIDRs node)" and res: "onDelete parse (ObjNode node) r = (res, r')"
  shows "sys_inv sets0 keep (r', nodes(n := None))"
proof (cases "own n")
  case None
  then have "spec_PodCIDRs node = []" using ownsD(1) [OF o, of n] node by (simp add: entry_ok_def)
  then have "r' = r" using res by (simp add: onDelete_def ReleaseCIDR_def act_defs)
  then show ?thesis using inv b owns_drop [OF o, of "ra_cidrSets r" n] None by (auto simp: sys_inv_def)
next
  case (Some js)
  let ?n = "length (ra_cidrSets r)"
  have js: "length js = ?n" "spec_PodCIDRs node = node_cidrs (ra_cidrSets r) js"
    using ownsD(1) [OF o, of n] node Some by (simp_all add: entry_ok_def)
  obtain ss where ss: "length ss = ?n"
    "\<And>i. i < ?n \<Longrightarrow> Release (ra_cidrSets r ! i) (Some (nth_block (ra_cidrSets r ! i) (js ! i))) = Ret (ss ! i) \<and>
      cidr_inv (ss ! i) \<and> same_blocks (ra_cidrSets r ! i) (ss ! i) \<and> used_set (ss ! i) = used_set (ra_cidrSets r ! i) - {js ! i}"
    using release_blocks [OF inv js(1) owned_block(1) [OF inv o Some]] by blast
  have len: "length (node_cidrs (ra_cidrSets r) js) = ?n" by (simp add: node_cidrs_def)
  have "\<exists>m. parse (node_cidrs (ra_cidrSets r) js ! j) = Some m \<and> Release (ra_cidrSets r ! (0 + j)) (Some m) = Ret (ss ! j)"
    if "j < length (node_cidrs (ra_cidrSets r) js)" for j
    using owned_parse(1) [OF rb inv o Some] ss(2) that len by auto
  then have "release_from parse 0 (node_cidrs (ra_cidrSets r) js) r = (Ret (), r\<lparr>ra_cidrSets := ss\<rparr>)"
    using release_from_spec [of 0 "node_cidrs (ra_cidrSets r) js" r ss parse] ss(1) len by simp
  then have "r' = r\<lparr>ra_cidrSets := ss\<rparr>"
    using res js(2) by (auto simp: onDelete_def ReleaseCIDR_def act_defs split: if_splits)
  moreover have "ra_inv (r\<lparr>ra_cidrSets := ss\<rparr>)"
    using inv ss by (simp add: ra_inv_nth same_blocks_def)
  moreover have "owns keep ss (own(n := None)) (nodes(n := None))"
    using ss Some by (intro owns_drop [OF o]) auto
  moreover have "list_all2 same_blocks sets0 ss"
    using b ss same_blocks_trans by (fastforce simp: list_all2_conv_all_nth)
  ultimately show ?thesis by (auto simp: sys_inv_def)
qed

lemma step_inv:
  assumes "reads_back parse" and "sys_step parse s s'" and "sys_inv sets0 keep s"
  shows "sys_inv sets0 keep s'"
  using assms(2)
proof cases
  case (add nodes n r)
  then obtain own where "ra_inv r" "list_all2 same_blocks sets0 (ra_cidrSets r)"
    and o: "owns keep (ra_cidrSets r) own nodes" using assms(3) by (auto simp: sys_inv_def)
  moreover have "owns keep (ra_cidrSets r) own (nodes(n \<mapsto> []))"
  proof (rule ownsI)
    fix m show "entry_ok (ra_cidrSets r) ((nodes(n \<mapsto> [])) m) (own m)"
      using ownsD(1) [OF o, of m] add(3) by (auto simp: entry_ok_def split: option.splits)
  qed (use ownsD(2-5) [OF o] in blast)+
  ultimately show ?thesis using add by (auto simp: sys_inv_def)
next
  case (sync nodes n env r res r')
  then obtain own where "ra_inv r" "owns keep (ra_cidrSets r) own nodes" "list_all2 same_blocks sets0 (ra_cidrSets r)"
    using assms(3) by (auto simp: sys_inv_def)
  then show ?thesis unfolding sync(2) using sync_inv [OF assms(1)] sync(3,4) by blast
next
  case (delete node n nodes r res r')
  then obtain own where "ra_inv r" "owns keep (ra_cidrSets r) own nodes" "list_all2 same_blocks sets0 (ra_cidrSets r)"
    using assms(3) by (auto simp: sys_inv_def)
  then show ?thesis unfolding delete(2) using delete_inv [OF assms(1)] delete(3-5) by blast
qed

section \<open>Construction\<close>

lemma new_sets_ok:
  assumes "list_all2 cluster_ok clusters sizes"
  shows "\<exists>sets. new_sets clusters sizes = Ret sets \<and>
    list_all2 (\<lambda>c s. cidr_inv s \<and> clusterCIDR s = c) clusters sets \<and> (\<forall>s\<in>set sets. used_set s = {})"
  using assms
proof (induction rule: list_all2_induct)
  case (Cons c cs m ms)
  obtain s where s: "NewCIDRSet c m = Ret s" using NewCIDRSet_total [OF Cons(1)] by blast
  then show ?case using Cons(3) NewCIDRSet_inv [OF Cons(1) s] NewCIDRSet_fields(1) [OF s] by auto
qed simp

text \<open>The blocks that overlap a CIDR are all in use.\<close>

definition reserved :: "IPNet \<Rightarrow> CidrSet \<Rightarrow> bool" where
  "reserved cidr s \<longleftrightarrow> hits (nth_block s) (capacity s) cidr \<subseteq> used_set s"

lemma reserved_grows: "reserved c s \<Longrightarrow> same_blocks s t \<Longrightarrow> grows s t \<Longrightarrow> reserved c t"
  using same_blocksD(2,3) by (fastforce simp: reserved_def grows_def)

lemma Occupy_reserves:
  assumes "cidr_inv s" and "canon_net c" and "Occupy s (Some c) = Ret s'"
  shows "reserved c s'"
proof -
  have "hits (nth_block s) (capacity s) c \<noteq> {}" using cs.occupy_miss [OF assms(1,2)] assms(3) by auto
  then show ?thesis using cs.occupy_hit [OF assms(1,2)] assms(3) by (auto simp: reserved_def)
qed

lemma filtered_disjoint:
  assumes inv: "cidr_inv s" and c: "canon_net c"
    and skip: "\<not> net_Contains (clusterCIDR s) (ip_Mask (net_IP c) (net_Mask (clusterCIDR s))) \<and>
      \<not> net_Contains c (ip_Mask (net_IP (clusterCIDR s)) (net_Mask c))"
  shows "reserved c s"
proof -
  have "getBeginningAndEndIndices s (Some c) = Err (ErrOutOfClusterRange c (clusterCIDR s))"
    using skip by (simp add: getBeginningAndEndIndices_def Let_def split: prod.split)
  then have "\<not> overlap (clusterCIDR s) c"
    using range_overlap [OF cidr_inv_geom [OF inv] c] by (auto simp: range_post_def split: if_splits)
  then show ?thesis using hits_cluster [OF cidr_inv_geom [OF inv]] by (auto simp: reserved_def)
qed

lemma on_occupy:
  assumes inv: "ra_inv r" and idx: "idx < length (ra_cidrSets r)" and c: "canon_net c"
    and res: "log_act (on_set idx (occupy_op (Some c))) r = (res, r')"
  shows "res = Ret ()" and "ra_via grows r r'" and "reserved c (ra_cidrSets r' ! idx)"
proof -
  have ci: "cidr_inv (ra_cidrSets r ! idx)" using inv idx by (simp add: ra_inv_nth)
  show via: "ra_via grows r r'"
    using keepsD [OF keeps_log [OF keeps_method(2) [of "Some c" r idx]] ra_via_refl [OF inv]] c res by simp
  show "reserved c (ra_cidrSets r' ! idx)" "res = Ret ()"
    using Occupy_reserves [OF ci c] cs.occupy_hit [OF ci c] cs.occupy_miss [OF ci c] res idx
    by (cases "hits (nth_block (ra_cidrSets r ! idx)) (capacity (ra_cidrSets r ! idx)) c = {}";
        auto simp: log_act_def on_set_def occupy_op_def no_result_def reserved_def)+
qed

lemma ra_via_trans: "ra_via grows r s \<Longrightarrow> ra_via grows s t \<Longrightarrow> ra_via grows r t"
  unfolding ra_via_nth using same_blocks_trans by (fastforce simp: grows_def)

lemma filter_from_spec:
  assumes "ra_inv r" and "canon_net c" and "cidrs = drop idx (ra_clusterCIDRs r)" and "idx \<le> length (ra_cidrSets r)"
  shows "\<exists>r'. filter_from idx cidrs c r = (Ret (), r') \<and> ra_via grows r r' \<and>
    (\<forall>i. idx \<le> i \<and> i < length (ra_cidrSets r) \<longrightarrow> reserved c (ra_cidrSets r' ! i))"
  using assms(1,3,4)
proof (induction cidrs arbitrary: idx r)
  case Nil
  then have "length (ra_cidrSets r) = idx" by (simp add: ra_inv_nth)
  then show ?case using Nil ra_via_refl [of r grows] by auto
next
  case (Cons d ds)
  then have "drop idx (ra_clusterCIDRs r) \<noteq> []" by (metis list.distinct(1))
  then have idx: "idx < length (ra_cidrSets r)" using Cons.prems(1) by (simp add: ra_inv_nth)
  have d: "d = clusterCIDR (ra_cidrSets r ! idx)" "ds = drop (Suc idx) (ra_clusterCIDRs r)" "cidr_inv (ra_cidrSets r ! idx)"
    using Cons.prems idx by (auto simp: ra_inv_nth Cons_nth_drop_Suc [symmetric])
  let ?m = "if \<not> net_Contains d (ip_Mask (net_IP c) (net_Mask d)) \<and> \<not> net_Contains c (ip_Mask (net_IP d) (net_Mask c))
    then ret_act () else log_act (on_set idx (occupy_op (Some c)))"
  obtain res1 r1 where r1: "?m r = (res1, r1)" by (cases "?m r")
  have one: "res1 = Ret ()" "ra_via grows r r1" "reserved c (ra_cidrSets r1 ! idx)"
    using r1 on_occupy [OF Cons.prems(1) idx assms(2)] filtered_disjoint [OF d(3) assms(2)] d(1)
      ra_via_refl [OF Cons.prems(1), of grows]
    by (auto simp: ret_act_def split: if_splits)
  have inv1: "ra_inv r1" using ra_via_inv [OF Cons.prems(1) one(2)] .
  have len: "length (ra_cidrSets r1) = length (ra_cidrSets r)" "ra_clusterCIDRs r1 = ra_clusterCIDRs r"
    using one(2) by (simp_all add: ra_via_nth)
  obtain r' where r': "filter_from (Suc idx) ds c r1 = (Ret (), r')" "ra_via grows r1 r'"
    "\<forall>i. Suc idx \<le> i \<and> i < length (ra_cidrSets r1) \<longrightarrow> reserved c (ra_cidrSets r' ! i)"
    using Cons.IH [OF inv1, of "Suc idx"] d(2) len idx by auto
  have "filter_from idx (d # ds) c r = (Ret (), r')" using r1 one(1) r'(1) by (simp add: bind_act_def)
  moreover have "reserved c (ra_cidrSets r' ! idx)"
    using reserved_grows [OF one(3)] r'(2) idx len by (simp add: ra_via_nth)
  moreover from this have "\<forall>i. idx \<le> i \<and> i < length (ra_cidrSets r) \<longrightarrow> reserved c (ra_cidrSets r' ! i)"
    using r'(3) len(1) by (metis Suc_leI le_eq_less_or_eq)
  ultimately show ?case using ra_via_trans [OF one(2) r'(2)] by blast
qed

lemma filterOutServiceRange_spec:
  assumes inv: "ra_inv r" and c: "\<And>n. c = Some n \<Longrightarrow> canon_net n"
  shows "\<exists>r'. filterOutServiceRange c r = (Ret (), r') \<and> ra_via grows r r' \<and>
    (\<forall>n. c = Some n \<longrightarrow> (\<forall>s\<in>set (ra_cidrSets r'). reserved n s))"
proof (cases c)
  case None
  then show ?thesis using ra_via_refl [OF inv, of grows] by (simp add: filterOutServiceRange_def)
next
  case (Some n)
  obtain r' where "filter_from 0 (ra_clusterCIDRs r) n r = (Ret (), r')" "ra_via grows r r'"
    "\<forall>i<length (ra_cidrSets r). reserved n (ra_cidrSets r' ! i)"
    using filter_from_spec [OF inv c [OF Some], of "ra_clusterCIDRs r" 0] by auto
  then show ?thesis using Some by (auto simp: filterOutServiceRange_def ra_via_nth in_set_conv_nth)
qed

end
