(* ===== verification/RangeProps.thy ===== *)
theory RangeProps
  imports RangeSafety
begin

text \<open>
  The properties of the range allocator: no two nodes ever hold overlapping pod CIDRs and none holds
  a service address, existing nodes are taken into account, failed assignments give their blocks
  back, and two situations in which blocks are lost or freed too early.
\<close>

section \<open>A parser that reads back what is printed\<close>

text \<open>
  \<^verbatim>\<open>net.ParseCIDR\<close> on text without a zone: the network part of the parsed prefix. It shows that the
  hypothesis on \<^verbatim>\<open>ParseCIDRSloppy\<close> can hold.
\<close>

definition ParseCIDR :: "string \<Rightarrow> IPNet option" where
  "ParseCIDR s =
     (case ParsePrefix s of
        Some (Prefix (Addr4 w) b) \<Rightarrow> Some (net4 (w AND prefix_mask (nat b)) (nat b))
      | Some (Prefix (Addr6 w z) b) \<Rightarrow> if z = [] then Some (net6 (w AND prefix_mask (nat b)) (nat b)) else None
      | _ \<Rightarrow> None)"

lemma ParseCIDR_String: "canon_net n \<Longrightarrow> ParseCIDR (net_String n) = Some n"
proof (erule canon_net_cases)
  fix v m assume n: "n = net4 v m" "net_base v m" "m \<le> 32"
  then have "net_String n = addr_String (Addr4 v) @ ''/'' @ itoa m"
    by (simp add: net_String_def networkNumberAndMask_def ip_String_def mask_len_def)
  then show ?thesis
    using ParsePrefix_String [of "Addr4 v" m] n by (simp add: ParseCIDR_def and_prefix_mask_base)
next
  fix v m assume n: "n = net6 v m" "net_base v m" "m \<le> 128" "\<not> is4in6 v"
  then have "net_String n = addr_String (Addr6 v []) @ ''/'' @ itoa m"
    by (simp add: net_String_def networkNumberAndMask_def ip_String_def mask_len_def)
  then show ?thesis
    using ParsePrefix_String [of "Addr6 v []" m] n by (simp add: ParseCIDR_def and_prefix_mask_base)
qed

lemma ParseCIDR_reads_back: "reads_back ParseCIDR"
  by (simp add: reads_back_def ParseCIDR_String)

section \<open>Parameters\<close>

definition service_cidrs :: "CIDRAllocatorParams \<Rightarrow> IPNet set" where
  "service_cidrs params = {c. ServiceCIDR params = Some c \<or> SecondaryServiceCIDR params = Some c}"

definition params_ok :: "CIDRAllocatorParams \<Rightarrow> bool" where
  "params_ok params \<longleftrightarrow> list_all2 cluster_ok (ClusterCIDRs params) (NodeCIDRMaskSizes params) \<and>
     (\<forall>c\<in>service_cidrs params. canon_net c)"

definition demo_params :: CIDRAllocatorParams where
  "demo_params = \<lparr>ClusterCIDRs = [demo4, demo6], ServiceCIDR = Some (net4 0x0A600000 12),
     SecondaryServiceCIDR = None, NodeCIDRMaskSizes = [24, 80]\<rparr>"

lemma demo_params_ok: "params_ok demo_params"
  using demo_ok by (simp add: params_ok_def demo_params_def service_cidrs_def net_base_def)

text \<open>The blocks that overlap a service CIDR.\<close>

definition service_blocks :: "CIDRAllocatorParams \<Rightarrow> CidrSet list \<Rightarrow> nat \<Rightarrow> nat set" where
  "service_blocks params sets i = (\<Union>c\<in>service_cidrs params. hits (nth_block (sets ! i)) (capacity (sets ! i)) c)"

lemma filtered_sets:
  assumes "ra_inv r" and "params_ok params"
  shows "\<exists>r'. bind_act (filterOutServiceRange (ServiceCIDR params)) (\<lambda>_.
        filterOutServiceRange (SecondaryServiceCIDR params)) r = (Ret (), r') \<and> ra_via grows r r' \<and>
      (\<forall>c\<in>service_cidrs params. \<forall>s\<in>set (ra_cidrSets r'). reserved c s)"
proof -
  have c: "canon_net n" if "ServiceCIDR params = Some n \<or> SecondaryServiceCIDR params = Some n" for n
    using assms(2) that by (auto simp: params_ok_def service_cidrs_def)
  obtain r1 where r1: "filterOutServiceRange (ServiceCIDR params) r = (Ret (), r1)" "ra_via grows r r1"
    "\<And>n. ServiceCIDR params = Some n \<Longrightarrow> \<forall>s\<in>set (ra_cidrSets r1). reserved n s"
    using filterOutServiceRange_spec [OF assms(1), of "ServiceCIDR params"] c by blast
  obtain r2 where r2: "filterOutServiceRange (SecondaryServiceCIDR params) r1 = (Ret (), r2)" "ra_via grows r1 r2"
    "\<And>n. SecondaryServiceCIDR params = Some n \<Longrightarrow> \<forall>s\<in>set (ra_cidrSets r2). reserved n s"
    using filterOutServiceRange_spec [OF ra_via_inv [OF assms(1) r1(2)], of "SecondaryServiceCIDR params"] c by blast
  have "reserved n (ra_cidrSets r2 ! i)" if n: "ServiceCIDR params = Some n" and i: "i < length (ra_cidrSets r2)" for n i
    using reserved_grows [of n "ra_cidrSets r1 ! i" "ra_cidrSets r2 ! i"] r1(3) [OF n] r2(2) i by (simp add: ra_via_nth)
  then have "reserved n s" if "ServiceCIDR params = Some n" "s \<in> set (ra_cidrSets r2)" for n s
    using that by (metis in_set_conv_nth)
  then show ?thesis
    using r1(1,2) r2 ra_via_trans [OF r1(2) r2(2)] by (auto simp: bind_act_def service_cidrs_def)
qed

lemma bind_act_assoc: "bind_act (bind_act m f) g = bind_act m (\<lambda>x. bind_act (f x) g)"
  by (rule ext) (simp add: bind_act_def split: prod.split outcome.split)

lemma new_allocator:
  assumes "params_ok params"
  obtains sets r where "new_sets (ClusterCIDRs params) (NodeCIDRMaskSizes params) = Ret sets" "ra_inv r"
    "\<forall>c\<in>service_cidrs params. \<forall>s\<in>set (ra_cidrSets r). reserved c s" "ra_patched r = []"
    "ra_clusterCIDRs r = ClusterCIDRs params"
    "\<And>parse nodes. NewCIDRRangeAllocator parse params nodes =
      (case (case nodes of None \<Rightarrow> ret_act () | Some ns \<Rightarrow> occupy_nodes parse ns) r of
        (res, r') \<Rightarrow> bind_out res (\<lambda>_. Ret r'))"
proof -
  obtain sets where sets: "new_sets (ClusterCIDRs params) (NodeCIDRMaskSizes params) = Ret sets"
    "list_all2 (\<lambda>c s. cidr_inv s \<and> clusterCIDR s = c) (ClusterCIDRs params) sets"
    using new_sets_ok assms by (force simp: params_ok_def)
  let ?r0 = "\<lparr>ra_clusterCIDRs = ClusterCIDRs params, ra_cidrSets = sets, ra_events = [], ra_patched = []\<rparr>"
  have "ra_inv ?r0" using sets(2) by (simp add: ra_inv_def)
  then obtain r where r: "bind_act (filterOutServiceRange (ServiceCIDR params)) (\<lambda>_.
        filterOutServiceRange (SecondaryServiceCIDR params)) ?r0 = (Ret (), r)" "ra_via grows ?r0 r"
      "\<forall>c\<in>service_cidrs params. \<forall>s\<in>set (ra_cidrSets r). reserved c s"
    using filtered_sets [OF _ assms] by blast
  have "NewCIDRRangeAllocator parse params nodes =
      (case bind_act (bind_act (filterOutServiceRange (ServiceCIDR params)) (\<lambda>_. filterOutServiceRange (SecondaryServiceCIDR params)))
        (\<lambda>_. case nodes of None \<Rightarrow> ret_act () | Some ns \<Rightarrow> occupy_nodes parse ns) ?r0 of
        (res, r') \<Rightarrow> bind_out res (\<lambda>_. Ret r'))" for parse nodes
    unfolding NewCIDRRangeAllocator_def sets(1) bind_act_assoc by simp
  then have "NewCIDRRangeAllocator parse params nodes =
      (case (case nodes of None \<Rightarrow> ret_act () | Some ns \<Rightarrow> occupy_nodes parse ns) r of
        (res, r') \<Rightarrow> bind_out res (\<lambda>_. Ret r'))" for parse nodes
    using r(1) by (simp add: bind_act_def [of "bind_act m f" for m f])
  then show ?thesis
    using that sets(1) r(2,3) ra_via_inv [OF \<open>ra_inv ?r0\<close> r(2)] by (simp add: ra_via_nth)
qed

lemma system_inv:
  assumes "reads_back parse" and "params_ok params" and "sys_reach parse params s"
  shows "\<exists>sets0. sys_inv sets0 (service_blocks params sets0) s"
proof -
  obtain sets r where r: "ra_inv r" "\<forall>c\<in>service_cidrs params. \<forall>s\<in>set (ra_cidrSets r). reserved c s"
    "\<And>parse. NewCIDRRangeAllocator parse params None = Ret r"
    by (rule new_allocator [OF assms(2)]) (simp add: ret_act_def)
  let ?s0 = "ra_cidrSets r"
  have "service_blocks params ?s0 i \<subseteq> used_set (?s0 ! i)" if "i < length ?s0" for i
    using r(2) nth_mem [OF that] unfolding service_blocks_def reserved_def by blast
  then have "owns (service_blocks params ?s0) ?s0 Map.empty Map.empty"
    by (simp add: owns_def entry_ok_def)
  then have init: "sys_inv ?s0 (service_blocks params ?s0) (r, Map.empty)"
    using r(1) by (auto simp: sys_inv_def list_all2_conv_all_nth)
  have "sys_inv ?s0 (service_blocks params ?s0) s" using assms(3)
  proof (induction rule: sys_reach.induct)
    case (init r')
    then show ?case using r(3) \<open>sys_inv _ _ (r, Map.empty)\<close> by simp
  next
    case (step s s')
    then show ?case using step_inv [OF assms(1)] by blast
  qed
  then show ?thesis by blast
qed

text \<open>The pod CIDRs of a node of a reachable state, as indices of blocks.\<close>

lemma reach_owner:
  assumes "reads_back parse" and "params_ok params" and "sys_reach parse params (r, nodes)"
  obtains own where "ra_inv r" "owns (service_blocks params (ra_cidrSets r)) (ra_cidrSets r) own nodes"
proof -
  obtain sets0 own where *: "ra_inv r" "list_all2 same_blocks sets0 (ra_cidrSets r)"
    "owns (service_blocks params sets0) (ra_cidrSets r) own nodes"
    using system_inv [OF assms] by (auto simp: sys_inv_def)
  have "service_blocks params sets0 i = service_blocks params (ra_cidrSets r) i" if "i < length (ra_cidrSets r)" for i
    using same_blocksD(2,3) [of "sets0 ! i" "ra_cidrSets r ! i"] *(2) that
    by (simp add: service_blocks_def list_all2_conv_all_nth)
  then have "owns (service_blocks params (ra_cidrSets r)) (ra_cidrSets r) own nodes"
    using *(3) by (simp add: owns_def)
  then show ?thesis using that *(1) by blast
qed

lemma owner_cidr:
  assumes rb: "reads_back parse" and inv: "ra_inv r" and o: "owns keep (ra_cidrSets r) own nodes"
    and n: "nodes n = Some cs" and i: "i < length cs"
  obtains js where "own n = Some js" "i < length (ra_cidrSets r)" "js ! i < capacity (ra_cidrSets r ! i)"
    "parse (cs ! i) = Some (nth_block (ra_cidrSets r ! i) (js ! i))"
proof -
  obtain js where js: "own n = Some js" "cs = node_cidrs (ra_cidrSets r) js"
    using ownsD(1) [OF o, of n] n i by (auto simp: entry_ok_def split: option.splits)
  have len: "i < length (ra_cidrSets r)" using i js(2) by (simp add: node_cidrs_def)
  then show ?thesis
    using that [OF js(1) len owned_block(1) [OF inv o js(1) len]] owned_parse(1) [OF rb inv o js(1) len] js(2) by simp
qed

section \<open>Safety\<close>

text \<open>
  the range allocator never gives two nodes overlapping pod CIDRs. In every state that nodes
  appearing, being synced and being deleted lead to, whatever patches the API server refuses, the
  pod CIDRs of two different nodes from the same cluster CIDR share no address. The parser is only
  assumed to read back the CIDRs that were printed.
\<close>

theorem pod_cidrs_never_overlap:
  assumes "reads_back parse" and "params_ok params" and "sys_reach parse params (r, nodes)"
    and "nodes n = Some cs" and "nodes m = Some ds" and "n \<noteq> m" and "i < length cs" and "i < length ds"
  shows "\<exists>a b. parse (cs ! i) = Some a \<and> parse (ds ! i) = Some b \<and> \<not> overlap a b"
proof -
  obtain own where inv: "ra_inv r" and o: "owns (service_blocks params (ra_cidrSets r)) (ra_cidrSets r) own nodes"
    by (rule reach_owner [OF assms(1-3)])
  obtain js where js: "own n = Some js" "i < length (ra_cidrSets r)" "js ! i < capacity (ra_cidrSets r ! i)"
    "parse (cs ! i) = Some (nth_block (ra_cidrSets r ! i) (js ! i))"
    by (rule owner_cidr [OF assms(1) inv o assms(4,7)])
  obtain ks where ks: "own m = Some ks" "ks ! i < capacity (ra_cidrSets r ! i)"
    "parse (ds ! i) = Some (nth_block (ra_cidrSets r ! i) (ks ! i))"
    by (rule owner_cidr [OF assms(1) inv o assms(5,8)])
  have "js ! i \<noteq> ks ! i" using ownsD(3) [OF o js(1) ks(1) assms(6) js(2)] .
  then show ?thesis
    using cs.blocks_disjoint [of "ra_cidrSets r ! i" "js ! i" "ks ! i"] inv js ks by (auto simp: ra_inv_nth)
qed

text \<open>
  no node ever gets a pod CIDR that shares an address with a service CIDR.
\<close>

theorem pod_cidrs_avoid_services:
  assumes "reads_back parse" and "params_ok params" and "sys_reach parse params (r, nodes)"
    and "nodes n = Some cs" and "i < length cs" and "c \<in> service_cidrs params"
  shows "\<exists>a. parse (cs ! i) = Some a \<and> \<not> overlap a c"
proof -
  obtain own where inv: "ra_inv r" and o: "owns (service_blocks params (ra_cidrSets r)) (ra_cidrSets r) own nodes"
    by (rule reach_owner [OF assms(1-3)])
  obtain js where js: "own n = Some js" "i < length (ra_cidrSets r)" "js ! i < capacity (ra_cidrSets r ! i)"
    "parse (cs ! i) = Some (nth_block (ra_cidrSets r ! i) (js ! i))"
    by (rule owner_cidr [OF assms(1) inv o assms(4,5)])
  have "js ! i \<notin> service_blocks params (ra_cidrSets r) i" using ownsD(5) [OF o js(1,2)] .
  then show ?thesis using js assms(6) by (auto simp: service_blocks_def hits_def)
qed

text \<open>A run of the system for the witnesses: two nodes appear, and both are synced.\<close>

text \<open>An environment in which the lister knows blank nodes and every patch is answered by \<open>answer\<close>.\<close>

definition blank_env :: "go_err option \<Rightarrow> api_env" where
  "blank_env answer = \<lparr>parseCIDR = ParseCIDR, lister = (\<lambda>_ n. Inr (blank_node n)), send_patch = (\<lambda>_ _ _. answer)\<rparr>"

lemma blank_env_live: "nodes n = Some [] \<Longrightarrow> live_env ParseCIDR nodes n (blank_env a)"
  by (simp add: live_env_def blank_env_def)

text \<open>Every set of the allocator has a free block.\<close>

definition has_room :: "RangeAllocator \<Rightarrow> bool" where
  "has_room r \<longleftrightarrow> (\<forall>s\<in>set (ra_cidrSets r). card (used_set s) < capacity s)"

lemma allocate_room:
  assumes "ra_inv r" and "\<And>i. idx \<le> i \<Longrightarrow> i < idx + k \<Longrightarrow> card (used_set (ra_cidrSets r ! i)) < capacity (ra_cidrSets r ! i)"
    and "idx + k \<le> length (ra_cidrSets r)"
  shows "\<exists>allocated r'. allocate_from node k idx r = (Ret allocated, r')"
  using assms
proof (induction k arbitrary: idx r)
  case (Suc k)
  have idx: "idx < length (ra_cidrSets r)" using Suc.prems(3) by simp
  then have ci: "cidr_inv (ra_cidrSets r ! idx)" using Suc.prems(1) by (simp add: ra_inv_nth)
  obtain c s where a: "AllocateNext (ra_cidrSets r ! idx) = Ret (c, s)"
    using cs.alloc_iff [OF ci] Suc.prems(2) [of idx] by auto
  let ?r = "r\<lparr>ra_cidrSets := (ra_cidrSets r)[idx := s]\<rparr>"
  have "ra_inv ?r"
    using Suc.prems(1) AllocateNext_step [OF ci a] idx by (auto simp: ra_inv_nth nth_list_update same_blocks_def)
  moreover have "card (used_set (ra_cidrSets ?r ! i)) < capacity (ra_cidrSets ?r ! i)" if "Suc idx \<le> i" "i < Suc idx + k" for i
    using Suc.prems(2) [of i] that by simp
  ultimately obtain allocated r' where "allocate_from node k (Suc idx) ?r = (Ret allocated, r')"
    using Suc.IH [of ?r "Suc idx"] Suc.prems(3) by auto
  then show ?case
    using a idx by (auto simp: act_defs record_on_err_def wrap_act_def on_set_def)
qed simp

lemma allocate_total:
  assumes "ra_inv r" and "has_room r"
  shows "\<exists>allocated r'. allocate_from node (length (ra_cidrSets r)) 0 r = (Ret allocated, r')"
  using allocate_room [OF assms(1), of 0 "length (ra_cidrSets r)"] assms(2) by (simp add: has_room_def)

lemma patch_loop_ok: "send i node p = None \<Longrightarrow> cidr_patch cidrs = Some p \<Longrightarrow>
    patch_loop send (Suc k) i node cidrs r = Ret ()"
  by (simp add: PatchNodeCIDRs_def)

lemma patch_refused:
  assumes "cidrs \<noteq> []" and "\<And>p. cidr_patch cidrs = Some p \<Longrightarrow> send node p \<noteq> None"
  shows "\<exists>e. PatchNodeCIDRs send node cidrs = Err e"
proof -
  obtain p where p: "cidr_patch cidrs = Some p" using assms(1) by (cases cidrs) (auto simp: cidr_patch_def)
  obtain e where "send node p = Some e" using assms(2) [OF p] by blast
  then show ?thesis using p by (simp add: PatchNodeCIDRs_def)
qed

lemma patch_loop_refused:
  assumes "cidrs \<noteq> []" and "\<And>j p. cidr_patch cidrs = Some p \<Longrightarrow> send j node p \<noteq> None"
  shows "\<exists>e. patch_loop send (Suc k) i node cidrs r = Err e"
proof (induction k arbitrary: i r)
  case 0
  then show ?case using patch_refused [of cidrs "send i" node] assms by auto
next
  case (Suc k)
  obtain e where "PatchNodeCIDRs (send i) node cidrs = Err e" using patch_refused [of cidrs "send i" node] assms by blast
  then show ?case using Suc.IH [of "Suc i" "Err e"] by (subst patch_loop.simps(2)) simp
qed

section \<open>Assignments\<close>

lemma assign_ok:
  assumes inv: "ra_inv r" and room: "has_room r" and ne: "ra_cidrSets r \<noteq> []"
    and node: "lister env 1 (node_Name node) = Inr node" "spec_PodCIDRs node = []"
    and sent: "\<And>p. send_patch env 0 (node_Name node) p = None"
  shows "\<exists>js r'. AllocateOrOccupyCIDR env (Some node) r = (Ret (), r') \<and> ra_inv r' \<and>
    list_all2 same_blocks (ra_cidrSets r) (ra_cidrSets r') \<and> ra_patched r' = ra_patched r @ [(node_Name node, node_cidrs (ra_cidrSets r) js)] \<and> length js = length (ra_cidrSets r) \<and>
    (\<forall>i<length (ra_cidrSets r). js ! i \<notin> used_set (ra_cidrSets r ! i) \<and>
      used_set (ra_cidrSets r' ! i) = insert (js ! i) (used_set (ra_cidrSets r ! i)))"
proof -
  let ?n = "length (ra_cidrSets r)"
  obtain allocated r1 where a: "allocate_from node ?n 0 r = (Ret allocated, r1)"
    using allocate_total [OF inv room] by blast
  obtain js where js: "length js = ?n" "allocated = map (\<lambda>i. Some (nth_block (ra_cidrSets r ! i) (js ! i))) [0..<?n]"
    "\<And>i. i < ?n \<Longrightarrow> js ! i < capacity (ra_cidrSets r ! i) \<and> js ! i \<notin> used_set (ra_cidrSets r ! i) \<and>
      used_set (ra_cidrSets r1 ! i) = insert (js ! i) (used_set (ra_cidrSets r ! i))"
    by (rule allocate_indices [OF inv a]) blast
  have via: "ra_via grows r r1" by (rule allocate_keeps [OF inv a])
  have str: "ipnetToStringList allocated = node_cidrs (ra_cidrSets r) js" using js(2) ipnetToStringList_blocks by simp
  have nonempty: "node_cidrs (ra_cidrSets r) js \<noteq> []" using ne by (simp add: node_cidrs_def)
  then obtain p where "cidr_patch (node_cidrs (ra_cidrSets r) js) = Some p"
    by (cases "node_cidrs (ra_cidrSets r) js") (auto simp: cidr_patch_def)
  then have "patch_loop (send_patch env) cidrUpdateRetries 0 (node_Name node) (node_cidrs (ra_cidrSets r) js) (Ret ()) = Ret ()"
    using sent patch_loop_ok [of "send_patch env" 0] by (simp add: cidrUpdateRetries_def numeral_3_eq_3)
  then have "AllocateOrOccupyCIDR env (Some node) r =
      (Ret (), r1\<lparr>ra_patched := ra_patched r1 @ [(node_Name node, node_cidrs (ra_cidrSets r) js)]\<rparr>)"
    using a node nonempty by (auto simp: AllocateOrOccupyCIDR_def bind_act_def updateCIDRsAllocation_def str)
  then show ?thesis
    using js ra_via_inv [OF inv via] via by (intro exI [of _ js]) (auto simp: ra_inv_def ra_via_nth list_all2_conv_all_nth)
qed

text \<open>
  C13: when every set has a free block and the API server accepts the patch, syncing a node
  without pod CIDRs succeeds: the server has stored one CIDR per cluster CIDR, each a block that was
  free before and is the only one that became used.
\<close>

theorem assignment_succeeds:
  assumes inv: "ra_inv r" and room: "has_room r" and ne: "ra_cidrSets r \<noteq> []"
    and node: "lister env 1 (node_Name node) = Inr node" "spec_PodCIDRs node = []"
    and sent: "\<And>p. send_patch env 0 (node_Name node) p = None"
  shows "\<exists>js r'. AllocateOrOccupyCIDR env (Some node) r = (Ret (), r') \<and> ra_inv r' \<and>
    ra_patched r' = ra_patched r @ [(node_Name node, node_cidrs (ra_cidrSets r) js)] \<and> length js = length (ra_cidrSets r) \<and>
    (\<forall>i<length (ra_cidrSets r). js ! i \<notin> used_set (ra_cidrSets r ! i) \<and>
      used_set (ra_cidrSets r' ! i) = insert (js ! i) (used_set (ra_cidrSets r ! i)))"
  using assign_ok [OF inv room ne node sent] by metis

lemma assign_refused:
  assumes inv: "ra_inv r" and ne: "ra_cidrSets r \<noteq> []"
    and node: "lister env 1 (node_Name node) = Inr node" "spec_PodCIDRs node = []"
    and a: "allocate_from node (length (ra_cidrSets r)) 0 r = (Ret allocated, r1)"
    and refused: "\<And>j p. cidr_patch (ipnetToStringList allocated) = Some p \<Longrightarrow> send_patch env j (node_Name node) p \<noteq> None"
  shows "\<exists>e r'. AllocateOrOccupyCIDR env (Some node) r = (Err e, r') \<and> \<not> IsServerTimeout e \<and> ra_inv r' \<and>
    list_all2 same_blocks (ra_cidrSets r) (ra_cidrSets r') \<and> ra_patched r' = ra_patched r \<and>
    (\<forall>i<length (ra_cidrSets r). used_set (ra_cidrSets r' ! i) = used_set (ra_cidrSets r ! i))"
proof -
  let ?n = "length (ra_cidrSets r)"
  define ev where "ev = ra_events r1 @ [RecordNodeStatusChange node ''CIDRAssignmentFailed'']"
  have via: "ra_via grows r r1" by (rule allocate_keeps [OF inv a])
  have "length (ipnetToStringList allocated) = ?n" using allocate_from_spec [OF a] by (simp add: ipnetToStringList_def)
  then have nonempty: "ipnetToStringList allocated \<noteq> []" using ne by auto
  have "\<exists>e. patch_loop (send_patch env) cidrUpdateRetries 0 (node_Name node) (ipnetToStringList allocated) (Ret ()) = Err e"
    using patch_loop_refused [OF nonempty, of "send_patch env" "node_Name node" 2 0 "Ret ()"] refused
    by (simp add: cidrUpdateRetries_def)
  then obtain e where e: "patch_loop (send_patch env) cidrUpdateRetries 0 (node_Name node) (ipnetToStringList allocated) (Ret ()) = Err e"
    by blast
  have nt: "\<not> IsServerTimeout e" by (rule patch_loop_no_timeout [OF _ e]) simp
  obtain ss where ss: "release_proposed 0 allocated (r1\<lparr>ra_events := ev\<rparr>) = (Ret (), r1\<lparr>ra_events := ev, ra_cidrSets := ss\<rparr>)"
    "length ss = ?n" "\<And>i. i < ?n \<Longrightarrow> cidr_inv (ss ! i) \<and> same_blocks (ra_cidrSets r ! i) (ss ! i) \<and>
      used_set (ss ! i) = used_set (ra_cidrSets r ! i)"
    by (rule release_allocated [OF inv a, where e = ev]) blast
  have "AllocateOrOccupyCIDR env (Some node) r = (Err e, r1\<lparr>ra_events := ev, ra_cidrSets := ss\<rparr>)"
    using a node nonempty e nt ss(1)
    by (auto simp: AllocateOrOccupyCIDR_def bind_act_def updateCIDRsAllocation_def Let_def fail_act_def ev_def)
  moreover have "ra_inv (r1\<lparr>ra_events := ev, ra_cidrSets := ss\<rparr>)"
    using inv via ss(2,3) by (simp add: ra_inv_nth ra_via_nth same_blocks_def)
  ultimately show ?thesis using nt ss(2,3) via by (auto simp: ra_via_nth list_all2_conv_all_nth)
qed

text \<open>
  C15: when all attempts to store the CIDRs fail, the error is returned and every set has exactly the
  blocks in use that it had before: nothing leaks. This holds for every kind of error, also for a
  server timeout, whose request may have gone through: the wrapped error is never recognised as one,
  so the branch that is meant to keep the CIDRs then is dead.
\<close>

theorem failed_assignment_releases:
  assumes inv: "ra_inv r" and room: "has_room r" and ne: "ra_cidrSets r \<noteq> []"
    and node: "lister env 1 (node_Name node) = Inr node" "spec_PodCIDRs node = []"
    and refused: "\<And>j p. send_patch env j (node_Name node) p \<noteq> None"
  shows "\<exists>e r'. AllocateOrOccupyCIDR env (Some node) r = (Err e, r') \<and> \<not> IsServerTimeout e \<and> ra_inv r' \<and>
    ra_patched r' = ra_patched r \<and>
    (\<forall>i<length (ra_cidrSets r). used_set (ra_cidrSets r' ! i) = used_set (ra_cidrSets r ! i))"
proof -
  obtain allocated r1 where a: "allocate_from node (length (ra_cidrSets r)) 0 r = (Ret allocated, r1)"
    using allocate_total [OF inv room] by blast
  show ?thesis using assign_refused [OF inv ne node a refused] by metis
qed

text \<open>
  C23: when a later cluster CIDR has no block left, the block that was already taken from an earlier
  one stays marked although no node got it: the error path does not release it.
\<close>

theorem exhausted_second_set_leaks:
  assumes inv: "ra_inv r" and two: "ra_cidrSets r = [s0, s1]"
    and room: "card (used_set s0) < capacity s0" and full: "used_set s1 = {..<capacity s1}"
    and node: "spec_PodCIDRs node = []"
  shows "\<exists>e r' j. AllocateOrOccupyCIDR env (Some node) r = (Err e, r') \<and> ra_patched r' = ra_patched r \<and>
    j \<notin> used_set s0 \<and> used_set (ra_cidrSets r' ! 0) = insert j (used_set s0)"
proof -
  have ci: "cidr_inv s0" "cidr_inv s1" using inv two by (simp_all add: ra_inv_def list_all2_Cons2)
  have "used_set s0 \<noteq> {..<capacity s0}" using cs.free_iff [OF ci(1)] room by simp
  then obtain j t where j: "AllocateNext s0 = Ret (nth_block s0 j, t)" "j \<notin> used_set s0" "used_set t = insert j (used_set s0)"
    using cs.alloc_free [OF ci(1)] by blast
  have f: "AllocateNext s1 = Err ErrCIDRRangeNoCIDRsRemaining" by (rule AllocateNext_full [OF ci(2) full])
  let ?ev = "ra_events r @ [RecordNodeStatusChange node ''CIDRNotAvailable'']"
  have "allocate_from node (Suc (Suc 0)) 0 r =
      (Err (Errorf_v ''failed to allocate cidr from cluster cidr'' (CidrError ErrCIDRRangeNoCIDRsRemaining)),
       r\<lparr>ra_cidrSets := [t, s1], ra_events := ?ev\<rparr>)"
    using j(1) f two by (simp add: bind_act_def record_on_err_def wrap_act_def on_set_def)
  then have "AllocateOrOccupyCIDR env (Some node) r =
      (Err (Errorf_v ''failed to allocate cidr from cluster cidr'' (CidrError ErrCIDRRangeNoCIDRsRemaining)),
       r\<lparr>ra_cidrSets := [t, s1], ra_events := ?ev\<rparr>)"
    using two node by (simp add: AllocateOrOccupyCIDR_def bind_act_def)
  then show ?thesis using j(2,3) by auto
qed

section \<open>Existing nodes\<close>

lemma occupy_from_marks:
  assumes "ra_inv r" and "cidrs_ok parse cidrs" and "occupy_from parse idx cidrs r = (Ret (), r')"
  shows "ra_via grows r r' \<and> (\<forall>j<length cidrs. \<exists>n. parse (cidrs ! j) = Some n \<and> idx + j < length (ra_cidrSets r) \<and>
    reserved n (ra_cidrSets r' ! (idx + j)))"
  using assms
proof (induction cidrs arbitrary: idx r)
  case Nil
  then show ?case using ra_via_refl [of r grows] by simp
next
  case (Cons c cs)
  obtain n where n: "parse c = Some n" and idx: "idx < length (ra_cidrSets r)"
    using Cons.prems(3) by (auto split: option.splits if_splits)
  have cn: "canon_net n" using Cons.prems(2) n by (simp add: cidrs_ok_def)
  have ci: "cidr_inv (ra_cidrSets r ! idx)" using Cons.prems(1) idx by (simp add: ra_inv_nth)
  obtain s where s: "Occupy (ra_cidrSets r ! idx) (Some n) = Ret s"
    and rest: "occupy_from parse (Suc idx) cs (r\<lparr>ra_cidrSets := (ra_cidrSets r)[idx := s]\<rparr>) = (Ret (), r')" (is "occupy_from _ _ _ ?r = _")
    using Cons.prems(3) n idx
    by (cases "Occupy (ra_cidrSets r ! idx) (Some n)")
      (auto simp: bind_act_def wrap_act_def on_set_def occupy_op_def no_result_def)
  have step: "cidr_inv s" "same_blocks (ra_cidrSets r ! idx) s" using Occupy_step [OF ci cn s] by auto
  have g: "grows (ra_cidrSets r ! idx) s" using Occupy_any [OF ci s] by simp
  have via: "ra_via grows r ?r"
    using Cons.prems(1) idx step g by (auto simp: ra_via_nth ra_inv_nth nth_list_update)
  have ih: "ra_via grows ?r r'" "\<And>j. j < length cs \<Longrightarrow> \<exists>n. parse (cs ! j) = Some n \<and> Suc idx + j < length (ra_cidrSets r) \<and>
      reserved n (ra_cidrSets r' ! (Suc idx + j))"
    using Cons.IH [OF ra_via_inv [OF Cons.prems(1) via] _ rest] Cons.prems(2) by (auto simp: cidrs_ok_def)
  have "reserved n (ra_cidrSets r' ! idx)"
    using reserved_grows [OF Occupy_reserves [OF ci cn s]] ih(1) idx by (auto simp: ra_via_nth)
  then show ?case using ra_via_trans [OF via ih(1)] ih(2) n idx by (auto simp: less_Suc_eq_0_disj)
qed

lemma occupy_nodes_marks:
  assumes "ra_inv r" and "\<And>node. node \<in> set ns \<Longrightarrow> cidrs_ok parse (spec_PodCIDRs node)" and "occupy_nodes parse ns r = (Ret (), r')"
  shows "ra_via grows r r' \<and> (\<forall>node\<in>set ns. \<forall>j<length (spec_PodCIDRs node). \<exists>n. parse (spec_PodCIDRs node ! j) = Some n \<and>
    j < length (ra_cidrSets r) \<and> reserved n (ra_cidrSets r' ! j))"
  using assms
proof (induction ns arbitrary: r)
  case Nil
  then show ?case using ra_via_refl [of r grows] by simp
next
  case (Cons node ns)
  obtain r1 where r1: "occupy_from parse 0 (spec_PodCIDRs node) r = (Ret (), r1)" "occupy_nodes parse ns r1 = (Ret (), r')"
  proof (cases "spec_PodCIDRs node = []")
    case True
    then show ?thesis using that [of r] Cons.prems(3) by simp
  next
    case False
    then show ?thesis
      using that Cons.prems(3) by (auto simp: bind_act_def occupyCIDRs_def split: prod.splits outcome.splits)
  qed
  note one = occupy_from_marks [OF Cons.prems(1) Cons.prems(2) r1(1), simplified]
  have via: "ra_via grows r r1" and marks: "\<And>j. j < length (spec_PodCIDRs node) \<Longrightarrow>
      \<exists>n. parse (spec_PodCIDRs node ! j) = Some n \<and> j < length (ra_cidrSets r) \<and> reserved n (ra_cidrSets r1 ! j)"
    using one by auto
  have ih: "ra_via grows r1 r'" "\<And>m j. m \<in> set ns \<Longrightarrow> j < length (spec_PodCIDRs m) \<Longrightarrow>
      \<exists>n. parse (spec_PodCIDRs m ! j) = Some n \<and> j < length (ra_cidrSets r) \<and> reserved n (ra_cidrSets r' ! j)"
    using Cons.IH [OF ra_via_inv [OF Cons.prems(1) via] _ r1(2)] Cons.prems(2) via by (auto simp: ra_via_nth)
  have "\<exists>n. parse (spec_PodCIDRs node ! j) = Some n \<and> j < length (ra_cidrSets r) \<and> reserved n (ra_cidrSets r' ! j)"
    if j: "j < length (spec_PodCIDRs node)" for j
    using marks [OF j] reserved_grows [of _ "ra_cidrSets r1 ! j" "ra_cidrSets r' ! j"] ih(1) via by (auto simp: ra_via_nth)
  then show ?case using ra_via_trans [OF via ih(1)] ih(2) by auto
qed

text \<open>
  an allocator that starts in a cluster with nodes marks every block that overlaps a pod CIDR of
  one of them, so it cannot hand out their addresses again; it refuses to start otherwise.
\<close>

theorem existing_nodes_reserved:
  assumes "params_ok params" and "\<forall>node\<in>set ns. cidrs_ok parse (spec_PodCIDRs node)"
    and "NewCIDRRangeAllocator parse params (Some ns) = Ret r"
  shows "ra_inv r \<and> (\<forall>node\<in>set ns. \<forall>j<length (spec_PodCIDRs node). \<exists>n. parse (spec_PodCIDRs node ! j) = Some n \<and>
    j < length (ra_cidrSets r) \<and> (\<forall>i<capacity (ra_cidrSets r ! j). overlap (nth_block (ra_cidrSets r ! j) i) n \<longrightarrow>
      i \<in> used_set (ra_cidrSets r ! j)))"
proof -
  obtain sets r0 where r0: "ra_inv r0" "\<And>parse nodes. NewCIDRRangeAllocator parse params nodes =
      (case (case nodes of None \<Rightarrow> ret_act () | Some ns \<Rightarrow> occupy_nodes parse ns) r0 of (res, r') \<Rightarrow> bind_out res (\<lambda>_. Ret r'))"
    by (rule new_allocator [OF assms(1)]) (rule that)
  have "occupy_nodes parse ns r0 = (Ret (), r)"
    using assms(3) r0(2) [of parse "Some ns"] by (cases "occupy_nodes parse ns r0") (auto simp: bind_out_Ret_iff)
  note marks = occupy_nodes_marks [OF r0(1) _ this]
  have via: "ra_via grows r0 r" using marks assms(2) by blast
  then show ?thesis
    using ra_via_inv [OF r0(1)] marks assms(2) by (fastforce simp: reserved_def hits_def ra_via_nth)
qed

section \<open>Witnesses\<close>

definition demo_ra :: RangeAllocator where
  "demo_ra = \<lparr>ra_clusterCIDRs = [demo4, demo6], ra_cidrSets = [demo_set4, demo_set6], ra_events = [], ra_patched = []\<rparr>"

lemma demo_ra_inv: "ra_inv demo_ra" "has_room demo_ra"
  by (simp_all add: demo_ra_def ra_inv_def has_room_def demo_inv demo_fields demo_capacity)

lemma demo_new_any: "NewCIDRRangeAllocator parse demo_params nodes =
    (case (case nodes of None \<Rightarrow> ret_act () | Some ns \<Rightarrow> occupy_nodes parse ns) demo_ra of (res, r') \<Rightarrow> bind_out res (\<lambda>_. Ret r'))"
proof -
  have "\<not> net_Contains demo4 (IP4 (0x0A600000 AND prefix_mask 16))" "\<not> net_Contains (net4 0x0A600000 12) (IP4 (0x0AF40000 AND prefix_mask 12))"
    by (simp_all add: demo4_def net_Contains4, simp_all add: net_addrs_def)
  moreover have "\<not> net_Contains demo6 (ip_Mask (IP4 0x0A600000) (Mask16 (prefix_mask 64)))"
    by (simp add: demo6_def net_Contains6 is4in6_def)
  ultimately have "filter_from 0 [demo4, demo6] (net4 0x0A600000 12) demo_ra = (Ret (), demo_ra)"
    by (simp add: bind_act_def ret_act_def) (simp add: demo4_def demo6_def net_Contains4 is4in6_def)
  then have "filterOutServiceRange (ServiceCIDR demo_params) demo_ra = (Ret (), demo_ra)"
    by (simp add: filterOutServiceRange_def demo_params_def demo_ra_def)
  then show ?thesis
    by (simp add: NewCIDRRangeAllocator_def demo_params_def demo_sets bind_act_def ret_act_def
        filterOutServiceRange_def [of None] flip: demo_ra_def)
qed

lemma demo_new: "NewCIDRRangeAllocator parse demo_params None = Ret demo_ra"
  by (simp add: demo_new_any ret_act_def)

lemma demo_new_nodes: "NewCIDRRangeAllocator parse demo_params (Some ns) =
    (case occupy_nodes parse ns demo_ra of (res, r') \<Rightarrow> bind_out res (\<lambda>_. Ret r'))"
  by (simp add: demo_new_any)

text \<open>Two nodes of a reachable state that have their pod CIDRs.\<close>

lemma synced_blank:
  assumes reach: "sys_reach ParseCIDR params (r, nodes)" and n: "nodes n = Some []" and "ra_inv r" and "has_room r"
    and "ra_cidrSets r \<noteq> []"
  obtains js r' where "sys_reach ParseCIDR params (r', nodes(n \<mapsto> node_cidrs (ra_cidrSets r) js))" "ra_inv r'"
    "list_all2 same_blocks (ra_cidrSets r) (ra_cidrSets r')"
    "\<And>i. i < length (ra_cidrSets r) \<Longrightarrow> used_set (ra_cidrSets r' ! i) = insert (js ! i) (used_set (ra_cidrSets r ! i))"
proof -
  obtain js r' where r': "AllocateOrOccupyCIDR (blank_env None) (Some (blank_node n)) r = (Ret (), r')" "ra_inv r'"
    "list_all2 same_blocks (ra_cidrSets r) (ra_cidrSets r')"
    "ra_patched r' = ra_patched r @ [(n, node_cidrs (ra_cidrSets r) js)]"
    "\<And>i. i < length (ra_cidrSets r) \<Longrightarrow> used_set (ra_cidrSets r' ! i) = insert (js ! i) (used_set (ra_cidrSets r ! i))"
    using assign_ok [OF assms(3-5), of "blank_env None" "blank_node n"] by (auto simp: blank_env_def)
  then have "syncNode (blank_env None) n r = (Ret (), r')" by (simp add: syncNode_def blank_env_def)
  then have "sys_step ParseCIDR (r, nodes) (r', apply_patched (drop (length (ra_patched r)) (ra_patched r')) nodes)"
    by (rule sys_step.sync [OF blank_env_live [of nodes n None, OF n]])
  then have "sys_step ParseCIDR (r, nodes) (r', nodes(n \<mapsto> node_cidrs (ra_cidrSets r) js))"
    using r'(4) by (simp add: apply_patched_def)
  then show ?thesis using that sys_reach.step [OF reach] r' by blast
qed

lemma demo_two_nodes:
  obtains r nodes cs ds where "sys_reach ParseCIDR demo_params (r, nodes)" "nodes ''a'' = Some cs" "nodes ''b'' = Some ds"
    "length cs = 2" "length ds = 2"
proof -
  let ?N = "[''a'' \<mapsto> [], ''b'' \<mapsto> []] :: cluster"
  have "sys_reach ParseCIDR demo_params (demo_ra, Map.empty)" by (rule sys_reach.init [OF demo_new])
  then have "sys_reach ParseCIDR demo_params (demo_ra, [''a'' \<mapsto> []])"
    by (rule sys_reach.step) (simp add: sys_step.add)
  then have "sys_reach ParseCIDR demo_params (demo_ra, ?N)"
    by (rule sys_reach.step) (simp add: sys_step.add)
  then have reach: "sys_reach ParseCIDR demo_params (demo_ra, ?N)" .
  have ne: "ra_cidrSets demo_ra \<noteq> []" and len: "length (ra_cidrSets demo_ra) = 2" by (simp_all add: demo_ra_def)
  obtain js r1 where r1: "sys_reach ParseCIDR demo_params (r1, ?N(''a'' \<mapsto> node_cidrs (ra_cidrSets demo_ra) js))"
    "ra_inv r1" "list_all2 same_blocks (ra_cidrSets demo_ra) (ra_cidrSets r1)"
    "\<And>i. i < length (ra_cidrSets demo_ra) \<Longrightarrow> used_set (ra_cidrSets r1 ! i) = insert (js ! i) (used_set (ra_cidrSets demo_ra ! i))"
    by (rule synced_blank [OF reach _ demo_ra_inv ne, of "''a''"]) auto
  obtain s t where st: "ra_cidrSets r1 = [s, t]" "same_blocks demo_set4 s" "same_blocks demo_set6 t"
    using r1(3) by (auto simp: demo_ra_def list_all2_Cons1)
  have "card (used_set s) = 1" "card (used_set t) = 1"
    using r1(4) [of 0] r1(4) [of 1] st(1) by (simp_all add: demo_ra_def demo_inv)
  then have room: "has_room r1"
    using st same_blocksD(2) [OF st(2)] same_blocksD(2) [OF st(3)] by (simp add: has_room_def demo_capacity)
  have ne1: "ra_cidrSets r1 \<noteq> []" using st(1) by simp
  obtain ks r2 where r2: "sys_reach ParseCIDR demo_params
      (r2, ?N(''a'' \<mapsto> node_cidrs (ra_cidrSets demo_ra) js, ''b'' \<mapsto> node_cidrs (ra_cidrSets r1) ks))"
    by (rule synced_blank [OF r1(1) _ r1(2) room ne1, of "''b''"]) auto
  show ?thesis
    by (rule that [OF r2, of "node_cidrs (ra_cidrSets demo_ra) js" "node_cidrs (ra_cidrSets r1) ks"])
      (simp_all add: node_cidrs_def len st(1))
qed

theorem pod_cidrs_never_overlap_witness:
  "\<exists>r nodes cs ds a b. sys_reach ParseCIDR demo_params (r, nodes) \<and> nodes ''a'' = Some cs \<and> nodes ''b'' = Some ds \<and>
    ParseCIDR (cs ! 1) = Some a \<and> ParseCIDR (ds ! 1) = Some b \<and> \<not> overlap a b"
proof -
  obtain r nodes cs ds where "sys_reach ParseCIDR demo_params (r, nodes)" "nodes ''a'' = Some cs" "nodes ''b'' = Some ds"
    "length cs = 2" "length ds = 2" by (rule demo_two_nodes)
  moreover from this obtain a b where "ParseCIDR (cs ! 1) = Some a" "ParseCIDR (ds ! 1) = Some b" "\<not> overlap a b"
    using pod_cidrs_never_overlap [OF ParseCIDR_reads_back demo_params_ok, of r nodes "''a''" cs "''b''" ds 1] by auto
  ultimately show ?thesis by blast
qed

theorem pod_cidrs_avoid_services_witness:
  "\<exists>r nodes cs a. sys_reach ParseCIDR demo_params (r, nodes) \<and> nodes ''a'' = Some cs \<and>
    ParseCIDR (cs ! 0) = Some a \<and> \<not> overlap a (net4 0x0A600000 12)"
proof -
  obtain r nodes cs ds where "sys_reach ParseCIDR demo_params (r, nodes)" "nodes ''a'' = Some cs" "nodes ''b'' = Some ds"
    "length cs = 2" "length ds = 2" by (rule demo_two_nodes)
  moreover from this obtain a where "ParseCIDR (cs ! 0) = Some a" "\<not> overlap a (net4 0x0A600000 12)"
    using pod_cidrs_avoid_services [OF ParseCIDR_reads_back demo_params_ok, of r nodes "''a''" cs 0 "net4 0x0A600000 12"]
    by (auto simp: service_cidrs_def demo_params_def)
  ultimately show ?thesis by blast
qed

theorem assignment_succeeds_witness:
  "\<exists>js r'. AllocateOrOccupyCIDR (blank_env None) (Some (blank_node ''a'')) demo_ra = (Ret (), r') \<and> ra_inv r' \<and>
    ra_patched r' = ra_patched demo_ra @ [(node_Name (blank_node ''a''), node_cidrs (ra_cidrSets demo_ra) js)] \<and>
    length js = length (ra_cidrSets demo_ra) \<and>
    (\<forall>i<length (ra_cidrSets demo_ra). js ! i \<notin> used_set (ra_cidrSets demo_ra ! i) \<and>
      used_set (ra_cidrSets r' ! i) = insert (js ! i) (used_set (ra_cidrSets demo_ra ! i)))"
  by (rule assignment_succeeds [OF demo_ra_inv]) (simp_all add: demo_ra_def blank_env_def)

theorem failed_assignment_releases_witness:
  "\<exists>e r'. AllocateOrOccupyCIDR (blank_env (Some (StatusError ServerTimeout))) (Some (blank_node ''a'')) demo_ra = (Err e, r') \<and>
    \<not> IsServerTimeout e \<and> ra_inv r' \<and> ra_patched r' = ra_patched demo_ra \<and>
    (\<forall>i<length (ra_cidrSets demo_ra). used_set (ra_cidrSets r' ! i) = used_set (ra_cidrSets demo_ra ! i))"
  by (rule failed_assignment_releases [OF demo_ra_inv]) (simp_all add: demo_ra_def blank_env_def)

theorem exhausted_second_set_leaks_witness:
  "\<exists>s1 e r' j. AllocateOrOccupyCIDR (blank_env None) (Some (blank_node ''a''))
      (demo_ra\<lparr>ra_clusterCIDRs := [demo4, clusterCIDR s1], ra_cidrSets := [demo_set4, s1]\<rparr>) = (Err e, r') \<and>
    j \<notin> used_set demo_set4 \<and> used_set (ra_cidrSets r' ! 0) = insert j (used_set demo_set4)"
proof -
  obtain "is" s1 where s1: "cidr_inv s1" "capacity s1 = 65536" "distinct is" "length is = 65536" "used_set s1 = set is"
    using cs.alloc_many [OF demo_inv(3), of 65536] by (auto simp: demo_inv demo_capacity)
  then have "card (used_set s1) = capacity s1" by (simp add: distinct_card)
  then have full: "used_set s1 = {..<capacity s1}" using cs.free_iff [OF s1(1)] by auto
  let ?r = "demo_ra\<lparr>ra_clusterCIDRs := [demo4, clusterCIDR s1], ra_cidrSets := [demo_set4, s1]\<rparr>"
  have "ra_inv ?r" using s1(1) demo_inv(1) by (simp add: ra_inv_def demo_fields)
  then show ?thesis
    using exhausted_second_set_leaks [of ?r demo_set4 s1 "blank_node ''a''" "blank_env None"] full
    by (simp add: demo_inv demo_capacity) blast
qed

text \<open>A start with one node that holds the whole first cluster CIDR.\<close>

definition whole_node :: Node where
  "whole_node = (blank_node ''a'')\<lparr>spec_PodCIDRs := [net_String demo4]\<rparr>"

lemma whole_node_parse: "ParseCIDR (net_String demo4) = Some demo4" "cidrs_ok ParseCIDR (spec_PodCIDRs whole_node)"
proof -
  have c: "canon_net demo4" using demo_ok(1) by (simp add: cluster_ok_def)
  then show "ParseCIDR (net_String demo4) = Some demo4" by (rule ParseCIDR_String)
  then show "cidrs_ok ParseCIDR (spec_PodCIDRs whole_node)" using c by (simp add: cidrs_ok_def whole_node_def)
qed

lemma demo_started:
  obtains s where "NewCIDRRangeAllocator ParseCIDR demo_params (Some [whole_node]) = Ret (demo_ra\<lparr>ra_cidrSets := [s, demo_set6]\<rparr>)"
proof -
  have c: "canon_net demo4" using demo_ok(1) by (simp add: cluster_ok_def)
  have "overlap (clusterCIDR demo_set4) demo4"
    using block_nonempty [OF c] by (auto simp: overlap_def demo_fields)
  then have "hits (nth_block demo_set4) (capacity demo_set4) demo4 \<noteq> {}"
    using hits_cluster [OF cidr_inv_geom [OF demo_inv(1)]] by simp
  then obtain s where s: "Occupy demo_set4 (Some demo4) = Ret s" using cs.occupy_hit [OF demo_inv(1) c] by auto
  then have "occupy_nodes ParseCIDR [whole_node] demo_ra = (Ret (), demo_ra\<lparr>ra_cidrSets := [s, demo_set6]\<rparr>)"
    using whole_node_parse(1)
    by (simp add: occupyCIDRs_def bind_act_def wrap_act_def on_set_def occupy_op_def no_result_def demo_ra_def whole_node_def)
  then show ?thesis using that [of s] demo_new_nodes [of ParseCIDR "[whole_node]"] by simp
qed

theorem existing_nodes_reserved_witness:
  "\<exists>r. NewCIDRRangeAllocator ParseCIDR demo_params (Some [whole_node]) = Ret r \<and>
    (\<exists>n. ParseCIDR (net_String demo4) = Some n \<and> (\<forall>i<capacity (ra_cidrSets r ! 0).
      overlap (nth_block (ra_cidrSets r ! 0) i) n \<longrightarrow> i \<in> used_set (ra_cidrSets r ! 0)))"
proof -
  obtain s where new: "NewCIDRRangeAllocator ParseCIDR demo_params (Some [whole_node]) = Ret (demo_ra\<lparr>ra_cidrSets := [s, demo_set6]\<rparr>)"
    by (rule demo_started)
  then show ?thesis
    using existing_nodes_reserved [OF demo_params_ok _ new] whole_node_parse(2) by (auto simp: whole_node_def)
qed

end
