(* ===== verification/RangeDiscipline.thy ===== *)
theory RangeDiscipline
  imports RangeThreads RangeProps
begin

text \<open>
  What a goroutine of the range allocator has in its hands: the blocks it allocated and did not store yet, or those of a
  deleted node that it did not release yet. Every operation is disciplined: it frees only blocks it holds, takes only
  free ones, and gives a node only blocks it held.
\<close>

section \<open>Blocks in hand\<close>

text \<open>A block: the index of its set, and its index there.\<close>

type_synonym part = "nat \<times> nat"

definition uses :: "RangeAllocator \<Rightarrow> part set" where
  "uses r = {(i, j). i < length (ra_cidrSets r) \<and> j \<in> used_set (ra_cidrSets r ! i)}"

definition fits :: "CidrSet list \<Rightarrow> RangeAllocator \<Rightarrow> bool" where
  "fits sets0 r \<longleftrightarrow> ra_inv r \<and> list_all2 same_blocks sets0 (ra_cidrSets r)"

text \<open>One block of each set from \<open>idx\<close> on.\<close>

fun parts :: "nat \<Rightarrow> nat list \<Rightarrow> part set" where
  "parts idx [] = {}"
| "parts idx (j # js) = insert (idx, j) (parts (Suc idx) js)"

fun blocks_at :: "CidrSet list \<Rightarrow> nat \<Rightarrow> nat list \<Rightarrow> IPNet list" where
  "blocks_at sets0 idx [] = []"
| "blocks_at sets0 idx (j # js) = nth_block (sets0 ! idx) j # blocks_at sets0 (Suc idx) js"

definition ready :: "CidrSet list \<Rightarrow> part set \<Rightarrow> RangeAllocator \<Rightarrow> bool" where
  "ready sets0 H r \<longleftrightarrow> fits sets0 r \<and> H \<subseteq> uses r"

text \<open>
  A step of a thread that holds \<open>H\<close>: it frees nothing but blocks of \<open>H\<close>, what it holds afterwards it held before
  or was free, and it gives a node only blocks that it held, and no longer holds them then.
\<close>

definition move :: "CidrSet list \<Rightarrow> part set \<Rightarrow> RangeAllocator \<Rightarrow> part set \<Rightarrow> RangeAllocator \<Rightarrow> bool" where
  "move sets0 H r H' r' \<longleftrightarrow> fits sets0 r' \<and> H' \<subseteq> uses r' \<and> uses r - H \<subseteq> uses r' \<and> H' \<subseteq> H \<union> (uses r' - uses r) \<and>
     (ra_patched r' = ra_patched r \<or>
      (\<exists>n js. length js = length sets0 \<and> ra_patched r' = ra_patched r @ [(n, node_cidrs sets0 js)] \<and>
        parts 0 js \<subseteq> (H - H') \<inter> uses r'))"

abbreviation disc :: "CidrSet list \<Rightarrow> ((go_err, 'a) outcome \<Rightarrow> part set \<Rightarrow> bool) \<Rightarrow> part set \<Rightarrow> (RangeAllocator, 'a) thread \<Rightarrow> bool" where
  "disc sets0 \<equiv> disciplined (ready sets0) (move sets0)"

lemma fits_nth: "fits sets0 r \<longleftrightarrow> ra_inv r \<and> length sets0 = length (ra_cidrSets r) \<and>
    (\<forall>i<length sets0. same_blocks (sets0 ! i) (ra_cidrSets r ! i))"
  by (auto simp: fits_def list_all2_conv_all_nth)

lemma fits_set:
  assumes f: "fits sets0 r" and i: "idx < length sets0" and s: "cidr_inv s" "same_blocks (ra_cidrSets r ! idx) s"
  shows "fits sets0 (r\<lparr>ra_cidrSets := (ra_cidrSets r)[idx := s]\<rparr>)"
  using assms same_blocks_trans by (auto simp: fits_nth ra_inv_nth nth_list_update same_blocks_def)

lemma uses_set:
  assumes "idx < length (ra_cidrSets r)"
  shows "uses (r\<lparr>ra_cidrSets := (ra_cidrSets r)[idx := s]\<rparr>) = {(i, j) \<in> uses r. i \<noteq> idx} \<union> {idx} \<times> used_set s"
  using assms by (auto simp: uses_def nth_list_update split: if_splits)

lemma move_refl: "ready sets0 H r \<Longrightarrow> move sets0 H r H r"
  by (auto simp: move_def ready_def)

lemma fits_events [simp]: "fits sets0 (r\<lparr>ra_events := e\<rparr>) = fits sets0 r" "fits sets0 (r\<lparr>ra_patched := p\<rparr>) = fits sets0 r"
  "uses (r\<lparr>ra_events := e\<rparr>) = uses r" "uses (r\<lparr>ra_patched := p\<rparr>) = uses r"
  by (simp_all add: fits_nth ra_inv_nth uses_def)

lemma move_events [simp]: "move sets0 H r H' (r'\<lparr>ra_events := e\<rparr>) = move sets0 H r H' r'"
  by (simp add: move_def)

text \<open>A call of one method: what it does when it succeeds is what the step does.\<close>

lemma on_set_move:
  assumes r: "ready sets0 H r" and i: "idx < length sets0"
    and ok: "\<And>x s. f (ra_cidrSets r ! idx) = Ret (x, s) \<Longrightarrow>
      \<exists>H'. cidr_inv s \<and> same_blocks (ra_cidrSets r ! idx) s \<and> Q (Ret x) H' \<and>
        (\<forall>j\<in>used_set (ra_cidrSets r ! idx). (idx, j) \<in> H \<or> j \<in> used_set s) \<and>
        H' \<subseteq> H \<union> {idx} \<times> (used_set s - used_set (ra_cidrSets r ! idx)) \<and> (\<forall>j. (idx, j) \<in> H' \<longrightarrow> j \<in> used_set s)"
    and bad: "\<And>e. Q (Err e) H" "Q Panic H"
  shows "\<exists>H'. move sets0 H r H' (snd (on_set idx f r)) \<and> Q (fst (on_set idx f r)) H'"
proof -
  have len: "idx < length (ra_cidrSets r)" using r i by (simp add: ready_def fits_nth)
  show ?thesis
  proof (cases "f (ra_cidrSets r ! idx)")
    case (Ret y)
    obtain x s where y: "y = (x, s)" by (cases y)
    obtain H' where H': "cidr_inv s" "same_blocks (ra_cidrSets r ! idx) s" "Q (Ret x) H'"
        "\<forall>j\<in>used_set (ra_cidrSets r ! idx). (idx, j) \<in> H \<or> j \<in> used_set s"
        "H' \<subseteq> H \<union> {idx} \<times> (used_set s - used_set (ra_cidrSets r ! idx))" "\<forall>j. (idx, j) \<in> H' \<longrightarrow> j \<in> used_set s"
      using ok [of x s] Ret y by blast
    let ?r = "r\<lparr>ra_cidrSets := (ra_cidrSets r)[idx := s]\<rparr>"
    have hu: "H \<subseteq> uses r" using r by (simp add: ready_def)
    have "move sets0 H r H' ?r"
      unfolding move_def uses_set [OF len] using fits_set [OF _ i H'(1,2)] r H'(4-6) hu
      by (fastforce simp: ready_def uses_def)
    then show ?thesis using Ret y len H'(3) by (auto simp: on_set_def)
  qed (use move_refl [OF r] bad len in \<open>auto simp: on_set_def\<close>)
qed

text \<open>Postconditions of threads that only speak of a returned value.\<close>

definition on_ret :: "('a \<Rightarrow> part set \<Rightarrow> bool) \<Rightarrow> (go_err, 'a) outcome \<Rightarrow> part set \<Rightarrow> bool" where
  "on_ret P res H = (case res of Ret x \<Rightarrow> P x H | _ \<Rightarrow> True)"

lemma on_ret_simps [simp]: "on_ret P (Ret x) H = P x H" "on_ret P (Err e) H" "on_ret P Panic H"
  by (simp_all add: on_ret_def)

lemma on_ret_True [simp]: "on_ret (\<lambda>_ _. True) = (\<lambda>_ _. True)"
  by (auto simp: fun_eq_iff on_ret_def split: outcome.split)

lemma on_ret_map_err [simp]: "on_ret P (map_err g res) H = on_ret P res H"
  by (cases res) simp_all

lemma disc_ret [simp]: "disc sets0 Q H (ret_t x) = Q (Ret x) H" "disc sets0 Q H (fail_t e) = Q (Err e) H"
  by (simp_all add: ret_t_def fail_t_def)

lemma disc_bind:
  assumes "disc sets0 (on_ret P) H m" and "\<And>x H'. P x H' \<Longrightarrow> disc sets0 (on_ret Q) H' (f x)"
  shows "disc sets0 (on_ret Q) H (bind_t m f)"
  unfolding bind_t_def by (rule disciplined_then [OF assms(1)]) (auto intro: assms(2) split: outcome.splits)

lemma disc_log:
  assumes "disc sets0 (\<lambda>_. P) H m"
  shows "disc sets0 (on_ret (\<lambda>_. P)) H (log_t m)"
  unfolding log_t_def by (rule disciplined_then [OF assms]) (auto split: outcome.splits)

section \<open>The operations are disciplined\<close>

lemma wrap_act_eq: "wrap_act g m r = (map_err g (fst (m r)), snd (m r))"
  by (simp add: wrap_act_def split_beta)

lemma disc_occupy: "disc sets0 (on_ret (\<lambda>_ _. True)) H (occupy_from_t parse idx cidrs)"
proof (induction cidrs arbitrary: idx H)
  case (Cons c cs)
  show ?case
  proof (cases "parse c")
    case (Some n)
    have "\<exists>H'. move sets0 H r H' (snd (on_set idx (occupy_op (Some n)) r))"
      if r: "ready sets0 H r" and idx: "idx < length (ra_cidrSets r)" for r
    proof -
      have i: "idx < length sets0" "cidr_inv (ra_cidrSets r ! idx)" using r idx by (simp_all add: ready_def fits_nth ra_inv_nth)
      show ?thesis
        using on_set_move [OF r i(1), of "occupy_op (Some n)" "\<lambda>_ _. True"] occupy_op_step [OF i(2), of "Some n"] r idx
        by (fastforce simp: grows_def ready_def uses_def)
    qed
    note step = this
    show ?thesis
      unfolding occupy_from_t.simps Some option.case
    proof (rule disc_bind [where P = "\<lambda>_ _. True"], rule disciplined_atom)
      fix r assume r: "ready sets0 H r"
      then show "\<exists>H'. move sets0 H r H' (snd (if length (ra_cidrSets r) \<le> idx
          then (Err (Errorf ''node has an allocated cidr that does not exist in cluster cidrs configuration''), r)
          else wrap_act (Errorf_v ''failed to mark cidr as occupied'') (on_set idx (occupy_op (Some n))) r)) \<and>
        on_ret (\<lambda>_ _. True) (fst (if length (ra_cidrSets r) \<le> idx
          then (Err (Errorf ''node has an allocated cidr that does not exist in cluster cidrs configuration''), r)
          else wrap_act (Errorf_v ''failed to mark cidr as occupied'') (on_set idx (occupy_op (Some n))) r)) H'"
        using step [OF r] move_refl [OF r] by (auto simp: wrap_act_eq)
    qed (rule Cons.IH)
  qed simp
qed simp

lemma parts_mem: "(i, x) \<in> parts idx js \<longleftrightarrow> (\<exists>k<length js. i = idx + k \<and> x = js ! k)"
  by (induction js arbitrary: idx) (auto simp: less_Suc_eq_0_disj)

lemma blocks_at_nth: "length (blocks_at sets0 idx js) = length js"
  "k < length js \<Longrightarrow> blocks_at sets0 idx js ! k = nth_block (sets0 ! (idx + k)) (js ! k)"
  by (induction js arbitrary: idx k) (auto simp: nth_Cons split: nat.split)

text \<open>Allocation: the thread holds the blocks that it returns.\<close>

lemma disc_AllocateNext:
  assumes i: "idx < length sets0"
  shows "disc sets0 (on_ret (\<lambda>c H'. \<exists>j. c = nth_block (sets0 ! idx) j \<and> H' = insert (idx, j) H)) H
    (atom (record_on_err node status (wrap_act g (on_set idx AllocateNext))))" (is "disc _ (on_ret ?P) _ _")
proof (rule disciplined_atom)
  fix r assume r: "ready sets0 H r"
  let ?s = "ra_cidrSets r ! idx"
  have ci: "cidr_inv ?s" and b: "indexToCIDRBlock ?s = indexToCIDRBlock (sets0 ! idx)"
    using r i same_blocksD(3) [of "sets0 ! idx" ?s] by (auto simp: ready_def fits_nth ra_inv_nth)
  have "\<exists>j. c = nth_block ?s j \<and> j \<notin> used_set ?s \<and> used_set s = insert j (used_set ?s) \<and> cidr_inv s \<and> same_blocks ?s s"
    if a: "AllocateNext ?s = Ret (c, s)" for c s
  proof -
    have "used_set ?s \<noteq> {..<capacity ?s}" using a AllocateNext_full [OF ci] by fastforce
    then show ?thesis using cs.alloc_free [OF ci] AllocateNext_step [OF ci a] a by auto
  qed
  note new = this
  have "\<exists>H'. move sets0 H r H' (snd (on_set idx AllocateNext r)) \<and> on_ret ?P (fst (on_set idx AllocateNext r)) H'"
  proof (rule on_set_move [OF r i])
    fix c s assume "AllocateNext ?s = Ret (c, s)"
    then obtain j where j: "c = nth_block (sets0 ! idx) j" "j \<notin> used_set ?s" "used_set s = insert j (used_set ?s)"
      "cidr_inv s" "same_blocks ?s s" using new unfolding b by blast
    then show "\<exists>H'. cidr_inv s \<and> same_blocks ?s s \<and> on_ret ?P (Ret c) H' \<and>
        (\<forall>j\<in>used_set ?s. (idx, j) \<in> H \<or> j \<in> used_set s) \<and> H' \<subseteq> H \<union> {idx} \<times> (used_set s - used_set ?s) \<and>
        (\<forall>j. (idx, j) \<in> H' \<longrightarrow> j \<in> used_set s)"
      using r by (intro exI [of _ "insert (idx, j) H"]) (auto simp: ready_def uses_def)
  qed simp_all
  then show "\<exists>H'. move sets0 H r H' (snd (record_on_err node status (wrap_act g (on_set idx AllocateNext)) r)) \<and>
      on_ret ?P (fst (record_on_err node status (wrap_act g (on_set idx AllocateNext)) r)) H'"
    by (cases "fst (on_set idx AllocateNext r)") (auto simp: record_on_err_def wrap_act_eq)
qed

lemma disc_allocate:
  "idx + k \<le> length sets0 \<Longrightarrow> disc sets0 (on_ret (\<lambda>cs H'. \<exists>js. length js = k \<and> cs = map Some (blocks_at sets0 idx js) \<and>
     H' = H \<union> parts idx js)) H (allocate_from_t node k idx)"
proof (induction k arbitrary: idx H)
  case (Suc k)
  show ?case
    unfolding allocate_from_t.simps
  proof (rule disc_bind [OF disc_AllocateNext])
    fix c H1 assume "\<exists>j. c = nth_block (sets0 ! idx) j \<and> H1 = insert (idx, j) H"
    then obtain j where j: "c = nth_block (sets0 ! idx) j" "H1 = insert (idx, j) H" by blast
    show "disc sets0 (on_ret (\<lambda>cs H'. \<exists>js. length js = Suc k \<and> cs = map Some (blocks_at sets0 idx js) \<and> H' = H \<union> parts idx js))
        H1 (bind_t (allocate_from_t node k (Suc idx)) (\<lambda>rest. ret_t (Some c # rest)))"
    proof (rule disc_bind [OF Suc.IH])
      fix rest H' assume "\<exists>js. length js = k \<and> rest = map Some (blocks_at sets0 (Suc idx) js) \<and> H' = H1 \<union> parts (Suc idx) js"
      then obtain js where "length js = k" "rest = map Some (blocks_at sets0 (Suc idx) js)" "H' = H1 \<union> parts (Suc idx) js" by blast
      then show "disc sets0 (on_ret (\<lambda>cs H'. \<exists>js. length js = Suc k \<and> cs = map Some (blocks_at sets0 idx js) \<and> H' = H \<union> parts idx js))
          H' (ret_t (Some c # rest))"
        using j by (auto intro!: exI [of _ "j # js"])
    qed (use Suc.prems in simp)
  qed (use Suc.prems in simp)
qed simp

text \<open>Releases: the thread gives back blocks that it holds.\<close>

lemma release_move:
  assumes r: "ready sets0 H r" and i: "idx < length sets0" and j: "(idx, j) \<in> H"
  shows "move sets0 H r (H - {(idx, j)}) (snd (on_set idx (release_op (Some (nth_block (sets0 ! idx) j))) r)) \<and>
    fst (on_set idx (release_op (Some (nth_block (sets0 ! idx) j))) r) = Ret ()"
proof -
  let ?s = "ra_cidrSets r ! idx"
  have ci: "cidr_inv ?s" and b: "indexToCIDRBlock ?s = indexToCIDRBlock (sets0 ! idx)" and len: "idx < length (ra_cidrSets r)"
    using r i same_blocksD(3) [of "sets0 ! idx" ?s] by (auto simp: ready_def fits_nth ra_inv_nth)
  have "j \<in> used_set ?s" using r j by (auto simp: ready_def uses_def)
  then have "j < capacity ?s" using cs.taken_bound [OF ci] by auto
  then obtain t where t: "Release ?s (Some (nth_block (sets0 ! idx) j)) = Ret t" "cidr_inv t" "same_blocks ?s t"
    "used_set t = used_set ?s - {j}" using Release_block [OF ci] b by auto
  have "fits sets0 r" "H \<subseteq> uses r" using r by (auto simp: ready_def)
  then have "move sets0 H r (H - {(idx, j)}) (r\<lparr>ra_cidrSets := (ra_cidrSets r)[idx := t]\<rparr>)"
    unfolding move_def uses_set [OF len] t(4) using fits_set [OF _ i t(2,3)] j by (auto simp: uses_def)
  then show ?thesis using t(1) len by (simp add: on_set_def release_op_def no_result_def)
qed

lemma disc_release_proposed:
  "idx + length js \<le> length sets0 \<Longrightarrow> parts idx js \<subseteq> H \<Longrightarrow>
    disc sets0 (on_ret (\<lambda>_ _. True)) H (release_proposed_t idx (map Some (blocks_at sets0 idx js)))"
proof (induction js arbitrary: idx H)
  case (Cons j js)
  have "disc sets0 (on_ret (\<lambda>_ H'. H' = H - {(idx, j)})) H (log_t (atom (on_set idx (release_op (Some (nth_block (sets0 ! idx) j))))))"
    using release_move [of sets0 H _ idx j] Cons.prems by (intro disc_log disciplined_atom) auto
  then show ?case
    unfolding blocks_at.simps list.map release_proposed_t.simps
  proof (rule disc_bind)
    fix x H' assume "H' = H - {(idx, j)}"
    then show "disc sets0 (on_ret (\<lambda>_ _. True)) H' (release_proposed_t (Suc idx) (map Some (blocks_at sets0 (Suc idx) js)))"
      using Cons.prems by (intro Cons.IH) (auto simp: parts_mem)
  qed
qed simp

lemma disc_release_from:
  assumes "reads_back parse"
  shows "idx + length js \<le> length sets0 \<Longrightarrow> parts idx js \<subseteq> H \<Longrightarrow> (\<forall>n\<in>set (blocks_at sets0 idx js). canon_net n) \<Longrightarrow>
    disc sets0 (on_ret (\<lambda>_ _. True)) H (release_from_t parse idx (map net_String (blocks_at sets0 idx js)))"
proof (induction js arbitrary: idx H)
  case (Cons j js)
  let ?b = "nth_block (sets0 ! idx) j"
  have p: "parse (net_String ?b) = Some ?b" using assms Cons.prems(3) by (simp add: reads_back_def)
  show ?case
    unfolding blocks_at.simps list.map release_from_t.simps p option.case
  proof (rule disc_bind, rule disciplined_atom)
    fix r assume r: "ready sets0 H r"
    then show "\<exists>H'. move sets0 H r H' (snd (if length (ra_cidrSets r) \<le> idx
        then (Err (Errorf ''node has an allocated cidr that does not exist in cluster cidrs configuration''), r)
        else wrap_act (Errorf_v ''error when releasing CIDR'') (on_set idx (release_op (Some ?b))) r)) \<and>
      on_ret (\<lambda>_ H'. H' = H - {(idx, j)}) (fst (if length (ra_cidrSets r) \<le> idx
        then (Err (Errorf ''node has an allocated cidr that does not exist in cluster cidrs configuration''), r)
        else wrap_act (Errorf_v ''error when releasing CIDR'') (on_set idx (release_op (Some ?b))) r)) H'"
      using release_move [OF r, of idx j] move_refl [OF r] Cons.prems by (auto simp: wrap_act_eq)
  next
    fix x :: unit and H' assume "H' = H - {(idx, j)}"
    then show "disc sets0 (on_ret (\<lambda>_ _. True)) H' (release_from_t parse (Suc idx) (map net_String (blocks_at sets0 (Suc idx) js)))"
      using Cons.prems by (intro Cons.IH) (auto simp: parts_mem)
  qed
qed simp

text \<open>The pod CIDRs of a node, as texts of its blocks.\<close>

lemma node_cidrs_blocks: "length js = length sets0 \<Longrightarrow> node_cidrs sets0 js = map net_String (blocks_at sets0 0 js)"
  by (rule nth_equalityI) (simp_all add: node_cidrs_def blocks_at_nth)

lemma disc_patch:
  assumes "length js = length sets0" and "parts 0 js \<subseteq> H"
  shows "disc sets0 (\<lambda>res H'. case res of Err e \<Rightarrow> H' = H | _ \<Rightarrow> True) H (atom (patch_node env node (node_cidrs sets0 js)))"
    (is "disc _ ?Q _ _")
proof (rule disciplined_atom)
  fix r assume r: "ready sets0 H r"
  show "\<exists>H'. move sets0 H r H' (snd (patch_node env node (node_cidrs sets0 js) r)) \<and> ?Q (fst (patch_node env node (node_cidrs sets0 js) r)) H'"
  proof (cases "patch_loop (send_patch env) cidrUpdateRetries 0 (node_Name node) (node_cidrs sets0 js) (Ret ())")
    case (Ret u)
    have "move sets0 H r (H - parts 0 js) (r\<lparr>ra_patched := ra_patched r @ [(node_Name node, node_cidrs sets0 js)]\<rparr>)"
      using r assms by (auto simp: move_def ready_def)
    then show ?thesis using Ret by (auto simp: patch_node_def)
  qed (use move_refl [OF r] in \<open>auto simp: patch_node_def\<close>)
qed

lemma disc_update:
  assumes "length js = length sets0" and "parts 0 js \<subseteq> H"
  shows "disc sets0 (\<lambda>_ _. True) H (updateCIDRsAllocation_t env n (map Some (blocks_at sets0 0 js)))"
proof -
  have str: "ipnetToStringList (map Some (blocks_at sets0 0 js)) = node_cidrs sets0 js"
    by (simp add: ipnetToStringList_def netp_String_def node_cidrs_blocks [OF assms(1)])
  have rel: "disc sets0 (\<lambda>_ _. True) H (release_proposed_t 0 (map Some (blocks_at sets0 0 js)))"
    using disc_release_proposed [of 0 js sets0 H] assms by simp
  have "disc sets0 (\<lambda>_ _. True) H (then_t (atom (patch_node env node (node_cidrs sets0 js))) (\<lambda>res. case res of
      Err e \<Rightarrow> if \<not> IsServerTimeout e then bind_t (release_proposed_t 0 (map Some (blocks_at sets0 0 js))) (\<lambda>_. fail_t e) else fail_t e
    | _ \<Rightarrow> Halt res))" for node
    by (rule disciplined_then [OF disc_patch [OF assms]])
      (auto simp: rel split: outcome.splits intro!: disciplined_bind [OF rel])
  then show ?thesis unfolding updateCIDRsAllocation_t_def str by (auto simp: rel Let_def split: sum.split)
qed

lemma disc_sync:
  assumes "\<And>node. lister env 0 key = Inr node \<Longrightarrow> \<not> node_Deleting node"
  shows "disc sets0 (\<lambda>_ _. True) {} (syncNode_t env key)"
proof -
  have occ: "disc sets0 (\<lambda>_ _. True) {} (occupy_from_t parse 0 cidrs)" for parse cidrs
    using disc_occupy [of sets0 "{}" parse 0 cidrs] by simp
  have len: "disc sets0 (on_ret (\<lambda>n H'. n = length sets0 \<and> H' = {})) {} (atom (\<lambda>r. (Ret (length (ra_cidrSets r)), r)))"
    by (rule disciplined_atom) (auto simp: move_refl ready_def fits_nth)
  have all: "disc sets0 (\<lambda>_ _. True) {} (bind_t (atom (\<lambda>r. (Ret (length (ra_cidrSets r)), r))) (\<lambda>n. bind_t (allocate_from_t node n 0)
      (\<lambda>allocated. updateCIDRsAllocation_t env (node_Name node) allocated)))" for node
    by (rule disciplined_bind [OF len]) (auto intro!: disciplined_bind [OF disc_allocate] disc_update)
  show ?thesis
    using assms by (auto simp: syncNode_t_def AllocateOrOccupyCIDR_t_def occupyCIDRs_t_def occ all split: sum.split)
qed

text \<open>
  Workers rely on the lister: it does not report that the node of their item is being deleted. Apart from that
  its answers may be arbitrarily old.
\<close>

definition live_item :: "api_env \<Rightarrow> queue_obj option \<Rightarrow> bool" where
  "live_item env item \<longleftrightarrow> (\<forall>key node. item = Some (KeyObj key) \<longrightarrow> lister env 0 key = Inr node \<longrightarrow> \<not> node_Deleting node)"

lemma disc_work:
  assumes "live_item env item"
  shows "disc sets0 (\<lambda>_ _. True) {} (bind_t (processNextNodeWorkItem_t env item) (\<lambda>(_, calls). ret_t calls))"
proof (rule disciplined_bind [where P = "\<lambda>_ _. True"])
  show "disc sets0 (\<lambda>_ _. True) {} (processNextNodeWorkItem_t env item)"
    unfolding processNextNodeWorkItem_t_def
    by (auto split: option.split queue_obj.split outcome.split intro!: disciplined_then [OF disc_sync])
      (use assms in \<open>auto simp: live_item_def\<close>)
qed (simp add: split_beta)

lemma disc_delete:
  assumes "reads_back parse" and "spec_PodCIDRs node = node_cidrs sets0 js" and "length js = length sets0"
    and "\<forall>n\<in>set (blocks_at sets0 0 js). canon_net n"
  shows "disc sets0 (\<lambda>_ _. True) (parts 0 js) (onDelete_t parse (ObjNode node))"
proof -
  have "disc sets0 (\<lambda>_ _. True) (parts 0 js) (ReleaseCIDR_t parse (Some node))"
    using disc_release_from [OF assms(1), of 0 js sets0 "parts 0 js"] assms(2-4)
    by (auto simp: ReleaseCIDR_t_def node_cidrs_blocks)
  then show ?thesis
    unfolding onDelete_t_def informer_obj.case
    by (intro disciplined_bind [where P = "\<lambda>_ _. True"]) (use disc_log [of sets0 "\<lambda>_. True"] in auto)
qed

end
