(* ===== verification/RangeConcurrent.thy ===== *)
theory RangeConcurrent
  imports RangeDiscipline
begin

text \<open>
  The range allocator as it runs: its goroutines interleave at every call of a set method, beside a cluster whose nodes come and
  go, and the process may be restarted. The invariant is that every block in use has at most one claimant.
\<close>

section \<open>The concurrent system\<close>

type_synonym pool_thread = "(RangeAllocator, queue_call list) thread"

text \<open>The API server refuses a patch of a node that does not exist.\<close>

definition server_accepts :: "cluster \<Rightarrow> (string \<times> string list) list \<Rightarrow> bool" where
  "server_accepts nodes log \<longleftrightarrow> fst ` set log \<subseteq> dom nodes"

text \<open>The list of nodes that a starting process reads.\<close>

definition lists_cluster :: "cluster \<Rightarrow> Node list \<Rightarrow> bool" where
  "lists_cluster nodes ns \<longleftrightarrow> (\<forall>n cs. nodes n = Some cs \<longleftrightarrow> (\<exists>node\<in>set ns. node_Name node = n \<and> spec_PodCIDRs node = cs))"

text \<open>
  The steps: a node appears; a worker takes an item of the queue; a node is deleted and its delete event is handled; a goroutine does its next atomic step, whose
  patch the API server applies to the cluster; the process ends at any point and a new one starts, which finds the nodes of the cluster.
  Workers and items are not limited: the \<^verbatim>\<open>cidrUpdateWorkers\<close> goroutines of \<^verbatim>\<open>Run\<close> and the queue, which never hands out a key twice at a time, only allow
  fewer histories.
\<close>

inductive conc_step :: "(string \<Rightarrow> IPNet option) \<Rightarrow> CIDRAllocatorParams \<Rightarrow> RangeAllocator \<times> cluster \<times> pool_thread list \<Rightarrow>
    RangeAllocator \<times> cluster \<times> pool_thread list \<Rightarrow> bool"
  for parse params where
  add: "nodes n = None \<Longrightarrow> conc_step parse params (r, nodes, ts) (r, nodes(n \<mapsto> []), ts)"
| take: "parseCIDR env = parse \<Longrightarrow> live_item env item \<Longrightarrow>
    conc_step parse params (r, nodes, ts) (r, nodes, ts @ [bind_t (processNextNodeWorkItem_t env item) (\<lambda>(_, calls). ret_t calls)])"
| delete: "nodes (node_Name node) = Some (spec_PodCIDRs node) \<Longrightarrow>
    conc_step parse params (r, nodes, ts) (r, nodes(node_Name node := None), ts @ [onDelete_t parse (ObjNode node)])"
| go: "k < length ts \<Longrightarrow> ts ! k = Act g \<Longrightarrow> g r = (t, r') \<Longrightarrow>
    server_accepts nodes (drop (length (ra_patched r)) (ra_patched r')) \<Longrightarrow>
    conc_step parse params (r, nodes, ts) (r', apply_patched (drop (length (ra_patched r)) (ra_patched r')) nodes, ts[k := t])"
| restart: "lists_cluster nodes ns \<Longrightarrow> NewCIDRRangeAllocator parse params (Some ns) = Ret r' \<Longrightarrow>
    conc_step parse params (r, nodes, ts) (r', nodes, [])"

inductive_cases conc_stepE: "conc_step parse params (r, nodes, ts) s'"

inductive conc_reach :: "(string \<Rightarrow> IPNet option) \<Rightarrow> CIDRAllocatorParams \<Rightarrow> RangeAllocator \<times> cluster \<times> pool_thread list \<Rightarrow> bool"
  for parse params where
  init: "NewCIDRRangeAllocator parse params None = Ret r \<Longrightarrow> conc_reach parse params (r, Map.empty, [])"
| step: "conc_reach parse params s \<Longrightarrow> conc_step parse params s s' \<Longrightarrow> conc_reach parse params s'"

section \<open>The invariant\<close>

text \<open>
  Who may claim a block that is in use: the service CIDRs, a node that has it as its pod CIDR, or a goroutine that holds it. No block has two claimants; blocks that
  nobody claims are lost until the next start.
\<close>

datatype claimant = Services | OfNode string | OfThread nat

definition claims_ok :: "RangeAllocator \<Rightarrow> (claimant \<Rightarrow> part set) \<Rightarrow> bool" where
  "claims_ok r claim \<longleftrightarrow> (\<forall>a. claim a \<subseteq> uses r) \<and> (\<forall>a b. a \<noteq> b \<longrightarrow> claim a \<inter> claim b = {})"

definition node_claim :: "CidrSet list \<Rightarrow> string list option \<Rightarrow> part set \<Rightarrow> bool" where
  "node_claim sets0 cidrs C \<longleftrightarrow> cidrs \<in> {None, Some []} \<and> C = {} \<or>
     (\<exists>js. length js = length sets0 \<and> cidrs = Some (node_cidrs sets0 js) \<and> C = parts 0 js)"

definition threads_ok :: "CidrSet list \<Rightarrow> (claimant \<Rightarrow> part set) \<Rightarrow> pool_thread list \<Rightarrow> bool" where
  "threads_ok sets0 claim ts \<longleftrightarrow> (\<forall>k<length ts. disc sets0 (\<lambda>_ _. True) (claim (OfThread k)) (ts ! k)) \<and>
     (\<forall>k\<ge>length ts. claim (OfThread k) = {})"

definition conc_inv :: "CidrSet list \<Rightarrow> part set \<Rightarrow> RangeAllocator \<times> cluster \<times> pool_thread list \<Rightarrow> bool" where
  "conc_inv sets0 keep s \<longleftrightarrow> (case s of (r, nodes, ts) \<Rightarrow> fits sets0 r \<and>
     (\<exists>claim. claims_ok r claim \<and> claim Services = keep \<and> (\<forall>n. node_claim sets0 (nodes n) (claim (OfNode n))) \<and>
       threads_ok sets0 claim ts))"

lemma conc_invI:
  assumes "fits sets0 r" and "claims_ok r claim" and "claim Services = keep" and "\<And>n. node_claim sets0 (nodes n) (claim (OfNode n))"
    and "threads_ok sets0 claim ts"
  shows "conc_inv sets0 keep (r, nodes, ts)"
  using assms by (auto simp: conc_inv_def)

lemma conc_invE:
  assumes "conc_inv sets0 keep (r, nodes, ts)"
  obtains claim where "fits sets0 r" "claims_ok r claim" "claim Services = keep" "\<And>n. node_claim sets0 (nodes n) (claim (OfNode n))"
    "threads_ok sets0 claim ts"
  using assms by (auto simp: conc_inv_def)

lemma claims_set:
  assumes "claims_ok r claim" and "X \<subseteq> uses r" and "\<And>b. b \<noteq> a \<Longrightarrow> claim b \<inter> X = {}"
  shows "claims_ok r (claim(a := X))"
proof -
  have "\<forall>b. b \<noteq> a \<longrightarrow> claim b \<inter> X = {}" "\<forall>b. b \<noteq> a \<longrightarrow> X \<inter> claim b = {}" using assms(3) by blast+
  then show ?thesis using assms(1,2) by (simp add: claims_ok_def)
qed

lemma claims_move:
  assumes c: "claims_ok r claim" and m: "move sets0 (claim (OfThread k)) r H' r'"
  shows "claims_ok r' (claim(OfThread k := H'))"
proof -
  have "\<forall>a. a \<noteq> OfThread k \<longrightarrow> claim a \<subseteq> uses r'" using c m unfolding claims_ok_def move_def by blast
  moreover have "\<forall>a. a \<noteq> OfThread k \<longrightarrow> claim a \<inter> H' = {}" using c m unfolding claims_ok_def move_def by blast
  moreover from this have "\<forall>a. a \<noteq> OfThread k \<longrightarrow> H' \<inter> claim a = {}" by blast
  moreover have "H' \<subseteq> uses r'" using m by (simp add: move_def)
  ultimately show ?thesis using c by (simp add: claims_ok_def)
qed

lemma threads_set: "threads_ok sets0 claim ts \<Longrightarrow> disc sets0 (\<lambda>_ _. True) H t \<Longrightarrow> k < length ts \<Longrightarrow>
    threads_ok sets0 (claim(OfThread k := H)) (ts[k := t])"
  by (auto simp: threads_ok_def nth_list_update)

lemma threads_spawn: "threads_ok sets0 claim ts \<Longrightarrow> disc sets0 (\<lambda>_ _. True) H t \<Longrightarrow>
    threads_ok sets0 (claim(OfThread (length ts) := H)) (ts @ [t])"
  by (auto simp: threads_ok_def nth_append less_Suc_eq)

lemma threads_node [simp]: "threads_ok sets0 (claim(OfNode n := X)) ts = threads_ok sets0 claim ts"
  by (simp add: threads_ok_def)

lemma go_inv:
  assumes inv: "conc_inv sets0 keep (r, nodes, ts)" and k: "k < length ts" "ts ! k = Act g" "g r = (t, r')"
  shows "conc_inv sets0 keep (r', apply_patched (drop (length (ra_patched r)) (ra_patched r')) nodes, ts[k := t])"
proof -
  obtain claim where c: "fits sets0 r" "claims_ok r claim" "claim Services = keep"
    "\<And>n. node_claim sets0 (nodes n) (claim (OfNode n))" "threads_ok sets0 claim ts" using inv by (rule conc_invE) blast
  let ?H = "claim (OfThread k)"
  have "disc sets0 (\<lambda>_ _. True) ?H (Act g)" using c(5) k by (metis threads_ok_def)
  moreover have "ready sets0 ?H r" using c(1,2) by (simp add: ready_def claims_ok_def)
  ultimately obtain H' where m: "move sets0 ?H r H' r'" and d: "disc sets0 (\<lambda>_ _. True) H' t" using k(3) by auto
  let ?c = "claim(OfThread k := H')"
  have f: "fits sets0 r'" using m by (simp add: move_def)
  note ok = claims_move [OF c(2) m] and ts = threads_set [OF c(5) d k(1)]
  show ?thesis
  proof (cases "ra_patched r' = ra_patched r")
    case True
    then show ?thesis using c(3,4) by (intro conc_invI [OF f ok _ _ ts]) (simp_all add: apply_patched_def)
  next
    case False
    then obtain n js where js: "length js = length sets0" "ra_patched r' = ra_patched r @ [(n, node_cidrs sets0 js)]"
      "parts 0 js \<subseteq> (?H - H') \<inter> uses r'" using m by (auto simp: move_def)
    have "?c b \<inter> parts 0 js = {}" if "b \<noteq> OfNode n" for b
      using js(3) c(2) unfolding claims_ok_def by (cases "b = OfThread k") (simp, blast, simp, blast)
    then have "claims_ok r' (?c(OfNode n := parts 0 js))" using js(3) by (intro claims_set [OF ok]) auto
    then show ?thesis
      using c(3,4) ts js by (intro conc_invI [OF f, where claim = "?c(OfNode n := parts 0 js)"]) (auto simp: apply_patched_def node_claim_def)
  qed
qed

text \<open>A claimed block, as a network.\<close>

lemma claimed_block:
  assumes "fits sets0 r" and "parts 0 js \<subseteq> uses r" and "length js = length sets0" and "i < length sets0"
  shows "js ! i < capacity (sets0 ! i)" and "canon_net (nth_block (sets0 ! i) (js ! i))"
    and "js ! i \<in> used_set (ra_cidrSets r ! i)"
proof -
  let ?s = "ra_cidrSets r ! i"
  have "(i, js ! i) \<in> uses r" using assms by (auto simp: parts_mem)
  then show u: "js ! i \<in> used_set ?s" by (simp add: uses_def)
  have ci: "cidr_inv ?s" and same: "same_blocks (sets0 ! i) ?s"
    using assms(1,4) by (auto simp: fits_nth ra_inv_nth)
  have "js ! i < capacity ?s" using u cs.taken_bound [OF ci] by auto
  then show "js ! i < capacity (sets0 ! i)" "canon_net (nth_block (sets0 ! i) (js ! i))"
    using cs.block_canon [OF ci] same_blocksD(2,3) [OF same] by auto
qed

lemma claimed_canon:
  assumes "fits sets0 r" and "parts 0 js \<subseteq> uses r" and "length js = length sets0"
  shows "\<forall>n\<in>set (blocks_at sets0 0 js). canon_net n"
  using claimed_block(2) [OF assms] assms(3) by (auto simp: in_set_conv_nth blocks_at_nth)

lemma delete_conc_inv:
  assumes rb: "reads_back parse" and inv: "conc_inv sets0 keep (r, nodes, ts)"
    and node: "nodes (node_Name node) = Some (spec_PodCIDRs node)"
  shows "conc_inv sets0 keep (r, nodes(node_Name node := None), ts @ [onDelete_t parse (ObjNode node)])"
proof -
  obtain claim where c: "fits sets0 r" "claims_ok r claim" "claim Services = keep"
    "\<And>n. node_claim sets0 (nodes n) (claim (OfNode n))" "threads_ok sets0 claim ts" using inv by (rule conc_invE) blast
  let ?n = "node_Name node"
  let ?C = "claim (OfNode ?n)"
  have "disc sets0 (\<lambda>_ _. True) ?C (onDelete_t parse (ObjNode node))"
  proof (cases "spec_PodCIDRs node = [] \<and> ?C = {}")
    case True
    then show ?thesis by (simp add: onDelete_t_def ReleaseCIDR_t_def bind_t_def log_t_def ret_t_def)
  next
    case False
    then obtain js where js: "length js = length sets0" "spec_PodCIDRs node = node_cidrs sets0 js" "?C = parts 0 js"
      using c(4) [of ?n] node by (auto simp: node_claim_def)
    then have "parts 0 js \<subseteq> uses r" using c(2) by (metis claims_ok_def)
    then show ?thesis using disc_delete [OF rb js(2,1) claimed_canon [OF c(1) _ js(1)]] js(3) by simp
  qed
  note ts = threads_spawn [OF c(5) this]
  have free: "claim (OfThread (length ts)) = {}" using c(5) by (simp add: threads_ok_def)
  have "claims_ok r (claim(OfNode ?n := {}, OfThread (length ts) := ?C))"
    using c(2) by (intro claims_set) (auto simp: claims_ok_def)
  then have "claims_ok r (claim(OfThread (length ts) := ?C, OfNode ?n := {}))" by (simp add: fun_upd_twist)
  then show ?thesis using c(3,4) ts by - (rule conc_invI [OF c(1)], assumption, simp_all, simp add: node_claim_def)
qed

text \<open>After a restart the blocks of every node are in use again.\<close>

lemma restart_inv:
  assumes rb: "reads_back parse" and inv: "conc_inv (ra_cidrSets r0) keep (r, nodes, ts)"
    and r0: "ra_inv r0" "keep \<subseteq> uses r0" and ns: "lists_cluster nodes ns" and occ: "occupy_nodes parse ns r0 = (Ret (), r')"
  shows "conc_inv (ra_cidrSets r0) keep (r', nodes, [])"
proof -
  let ?S = "ra_cidrSets r0"
  obtain claim where c: "fits ?S r" "claims_ok r claim" "claim Services = keep"
    "\<And>n. node_claim ?S (nodes n) (claim (OfNode n))" "threads_ok ?S claim ts" using inv by (rule conc_invE) blast
  have own: "spec_PodCIDRs node = [] \<or> (\<exists>js. length js = length ?S \<and> spec_PodCIDRs node = node_cidrs ?S js \<and>
      claim (OfNode (node_Name node)) = parts 0 js \<and> parts 0 js \<subseteq> uses r)" if "node \<in> set ns" for node
  proof -
    have "nodes (node_Name node) = Some (spec_PodCIDRs node)" using ns that by (auto simp: lists_cluster_def)
    moreover have "claim (OfNode (node_Name node)) \<subseteq> uses r" using c(2) by (simp add: claims_ok_def)
    ultimately show ?thesis using c(4) [of "node_Name node"] by (auto simp: node_claim_def)
  qed
  have "cidrs_ok parse (spec_PodCIDRs node)" if "node \<in> set ns" for node
    using own [OF that] claimed_canon [OF c(1)] rb by (fastforce simp: cidrs_ok_def node_cidrs_blocks reads_back_def)
  note marks = occupy_nodes_marks [OF r0(1) this occ]
  have via: "ra_via grows r0 r'" using marks by blast
  then have f: "fits ?S r'" using ra_via_inv [OF r0(1) via] by (simp add: fits_nth ra_via_nth)
  have grow: "uses r0 \<subseteq> uses r'" using via by (auto simp: uses_def ra_via_nth grows_def)
  have "parts 0 js \<subseteq> uses r'" if node: "node \<in> set ns" "spec_PodCIDRs node = node_cidrs ?S js" "length js = length ?S" "parts 0 js \<subseteq> uses r" for node js
  proof -
    have "js ! i \<in> used_set (ra_cidrSets r' ! i)" if i: "i < length ?S" for i
    proof -
      let ?b = "nth_block (?S ! i) (js ! i)"
      note b = claimed_block [OF c(1) node(4,3) i]
      have "parse (spec_PodCIDRs node ! i) = Some ?b" using rb b(2) i node(2) by (simp add: reads_back_def node_cidrs_def)
      then have "reserved ?b (ra_cidrSets r' ! i)" using marks node(1,2) i by (force simp: node_cidrs_def)
      moreover have "same_blocks (?S ! i) (ra_cidrSets r' ! i)" using via i by (simp add: ra_via_nth)
      moreover have "hits (nth_block (?S ! i)) (capacity (?S ! i)) ?b = {js ! i}"
        using cs.block_hits [OF _ b(1)] r0(1) i by (simp add: ra_inv_nth)
      ultimately show ?thesis using same_blocksD(2,3) [of "?S ! i" "ra_cidrSets r' ! i"] by (simp add: reserved_def)
    qed
    then show ?thesis using via node(3) by (auto simp: parts_mem uses_def ra_via_nth)
  qed
  note used = this
  have nodes: "claim (OfNode n) \<subseteq> uses r'" for n
  proof (cases "claim (OfNode n) = {}")
    case False
    then obtain js where js: "length js = length ?S" "nodes n = Some (node_cidrs ?S js)" "claim (OfNode n) = parts 0 js"
      using c(4) [of n] by (auto simp: node_claim_def)
    then obtain node where "node \<in> set ns" "spec_PodCIDRs node = node_cidrs ?S js" using ns by (auto simp: lists_cluster_def)
    then show ?thesis using used js c(2) by (metis claims_ok_def)
  qed simp
  let ?c = "\<lambda>a. case a of OfThread k \<Rightarrow> {} | _ \<Rightarrow> claim a"
  have "?c a \<subseteq> claim a \<inter> uses r'" for a
    using c(3) nodes r0(2) grow by (cases a) auto
  then have "claims_ok r' ?c" using c(2) unfolding claims_ok_def by blast
  then show ?thesis using c(3,4) by - (rule conc_invI [OF f], assumption, simp_all add: threads_ok_def)
qed

text \<open>The blocks that overlap a service CIDR, in every set.\<close>

definition service_parts :: "CIDRAllocatorParams \<Rightarrow> CidrSet list \<Rightarrow> part set" where
  "service_parts params sets = {(i, j). i < length sets \<and> j \<in> service_blocks params sets i}"

lemma conc_step_inv:
  assumes rb: "reads_back parse" and r0: "ra_inv r0" "keep \<subseteq> uses r0"
    and new: "\<And>ns. NewCIDRRangeAllocator parse params (Some ns) =
      (case occupy_nodes parse ns r0 of (res, r') \<Rightarrow> bind_out res (\<lambda>_. Ret r'))"
    and st: "conc_step parse params s s'" and inv: "conc_inv (ra_cidrSets r0) keep s"
  shows "conc_inv (ra_cidrSets r0) keep s'"
  using st
proof cases
  case (add nodes n r ts)
  obtain claim where c: "fits (ra_cidrSets r0) r" "claims_ok r claim" "claim Services = keep"
    "\<And>n. node_claim (ra_cidrSets r0) (nodes n) (claim (OfNode n))" "threads_ok (ra_cidrSets r0) claim ts"
    using inv unfolding add(1) by (rule conc_invE) blast
  have "node_claim (ra_cidrSets r0) ((nodes(n \<mapsto> [])) m) (claim (OfNode m))" for m
    using c(4) [of m] add(3) by (auto simp: node_claim_def)
  then show ?thesis unfolding add(2) by (rule conc_invI [OF c(1-3) _ c(5)])
next
  case (take env item r nodes ts)
  obtain claim where c: "fits (ra_cidrSets r0) r" "claims_ok r claim" "claim Services = keep"
    "\<And>n. node_claim (ra_cidrSets r0) (nodes n) (claim (OfNode n))" "threads_ok (ra_cidrSets r0) claim ts"
    using inv unfolding take(1) by (rule conc_invE) blast
  have "claim(OfThread (length ts) := {}) = claim" using c(5) by (simp add: threads_ok_def fun_upd_idem)
  then show ?thesis
    unfolding take(2) using threads_spawn [OF c(5) disc_work [OF take(4)]] c by (intro conc_invI) auto
next
  case (delete nodes node r ts)
  then show ?thesis using delete_conc_inv [OF rb] inv by blast
next
  case (go k ts g r t r' nodes)
  then show ?thesis using go_inv inv by blast
next
  case (restart nodes ns r' r ts)
  have "occupy_nodes parse ns r0 = (Ret (), r')"
    using restart(4) new [of ns] by (cases "occupy_nodes parse ns r0") (auto simp: bind_out_Ret_iff)
  then show ?thesis unfolding restart(2) using restart_inv [OF rb inv [unfolded restart(1)] r0 restart(3)] by blast
qed

lemma conc_reach_inv:
  assumes "reads_back parse" and "params_ok params" and "conc_reach parse params s"
  obtains sets0 where "conc_inv sets0 (service_parts params sets0) s"
proof -
  obtain sets r0 where r0: "ra_inv r0" "\<forall>c\<in>service_cidrs params. \<forall>s\<in>set (ra_cidrSets r0). reserved c s"
    "\<And>parse nodes. NewCIDRRangeAllocator parse params nodes =
      (case (case nodes of None \<Rightarrow> ret_act () | Some ns \<Rightarrow> occupy_nodes parse ns) r0 of (res, r') \<Rightarrow> bind_out res (\<lambda>_. Ret r'))"
    by (rule new_allocator [OF assms(2)]) (rule that)
  let ?S = "ra_cidrSets r0"
  let ?K = "service_parts params ?S"
  have "service_blocks params ?S i \<subseteq> used_set (?S ! i)" if "i < length ?S" for i
    using r0(2) nth_mem [OF that] unfolding service_blocks_def reserved_def by blast
  then have keep: "?K \<subseteq> uses r0" by (auto simp: service_parts_def uses_def)
  have "fits ?S r0" using r0(1) by (simp add: fits_nth)
  then have init: "conc_inv ?S ?K (r0, Map.empty, [])"
    using keep by (intro conc_invI [where claim = "\<lambda>a. if a = Services then ?K else {}"])
      (auto simp: claims_ok_def node_claim_def threads_ok_def)
  have new: "NewCIDRRangeAllocator parse params (Some ns) = (case occupy_nodes parse ns r0 of (res, r') \<Rightarrow> bind_out res (\<lambda>_. Ret r'))" for ns
    using r0(3) [of parse "Some ns"] by simp
  have "conc_inv ?S ?K s" using assms(3)
  proof (induction rule: conc_reach.induct)
    case (init r)
    then show ?case using r0(3) [of parse None] \<open>conc_inv _ _ (r0, _)\<close> by (simp add: ret_act_def)
  next
    case (step s s')
    then show ?case using conc_step_inv [OF assms(1) r0(1) keep new] by blast
  qed
  then show ?thesis by (rule that)
qed

section \<open>Sequential histories\<close>

lemma apply_patched_append: "apply_patched (l @ l') nodes = apply_patched l' (apply_patched l nodes)"
  by (simp add: apply_patched_def)

lemma dom_apply_patched: "dom nodes \<subseteq> dom (apply_patched l nodes)"
proof (induction l arbitrary: nodes)
  case (Cons e l)
  obtain n cs where e: "e = (n, cs)" by (cases e)
  have "dom nodes \<subseteq> dom (nodes(n \<mapsto> cs))" by auto
  also have "\<dots> \<subseteq> dom (apply_patched l (nodes(n \<mapsto> cs)))" by (rule Cons)
  finally show ?case by (simp add: apply_patched_def e)
qed (simp add: apply_patched_def)

lemma run_log:
  assumes "disc sets0 Q H t" and "ready sets0 H r" and "run t r = (res, r')"
  shows "\<exists>l. ra_patched r' = ra_patched r @ l"
  using assms
proof (induction arbitrary: r rule: disciplined.induct)
  case (act H g)
  obtain t1 r1 where g: "g r = (t1, r1)" by (cases "g r")
  then obtain H' where m: "move sets0 H r H' r1" and ih: "ready sets0 H' r1 \<Longrightarrow> run t1 r1 = (res, r') \<Longrightarrow> \<exists>l. ra_patched r' = ra_patched r1 @ l"
    using act.IH act.prems(1) by force
  have "\<exists>l. ra_patched r1 = ra_patched r @ l" using m by (auto simp: move_def)
  moreover have "\<exists>l. ra_patched r' = ra_patched r1 @ l" using ih m act.prems(2) g by (simp add: move_def ready_def)
  ultimately show ?case by auto
qed simp

text \<open>A thread may run without interruption as long as it patches existing nodes only.\<close>

lemma run_alone:
  assumes "disc sets0 Q H t" and "ready sets0 H r" and "k < length ts" and "ts ! k = t" and "run t r = (res, r')"
    and "conc_reach parse params (r, nodes, ts)" and "ra_patched r' = ra_patched r @ l" and "fst ` set l \<subseteq> dom nodes"
  shows "conc_reach parse params (r', apply_patched l nodes, ts[k := Halt res])"
  using assms
proof (induction arbitrary: r nodes ts l rule: disciplined.induct)
  case (halt res' H)
  then have "res' = res" "r' = r" "l = []" by auto
  then have "ts[k := Halt res] = ts" using halt.prems(3) by (metis list_update_id)
  then show ?case using halt.prems(5) \<open>r' = r\<close> \<open>l = []\<close> by (simp add: apply_patched_def)
next
  case (act H g)
  obtain t1 r1 where g: "g r = (t1, r1)" by (cases "g r")
  obtain H' where m: "move sets0 H r H' r1" and d: "disc sets0 Q H' t1"
    and ih: "\<And>nodes ts l. \<lbrakk>ready sets0 H' r1; k < length ts; ts ! k = t1; run t1 r1 = (res, r'); conc_reach parse params (r1, nodes, ts);
      ra_patched r' = ra_patched r1 @ l; fst ` set l \<subseteq> dom nodes\<rbrakk> \<Longrightarrow> conc_reach parse params (r', apply_patched l nodes, ts[k := Halt res])"
    using act.IH act.prems(1) g by force
  have rest: "run t1 r1 = (res, r')" using act.prems(4) g by simp
  have r1: "ready sets0 H' r1" using m by (simp add: move_def ready_def)
  obtain l1 where l1: "ra_patched r1 = ra_patched r @ l1" using m by (auto simp: move_def)
  obtain l2 where l2: "ra_patched r' = ra_patched r1 @ l2" using run_log [OF d r1 rest] by blast
  have l: "l = l1 @ l2" using l1 l2 act.prems(6) by simp
  have "conc_step parse params (r, nodes, ts) (r1, apply_patched (drop (length (ra_patched r)) (ra_patched r1)) nodes, ts[k := t1])"
    by (rule conc_step.go [OF act.prems(2,3) g]) (use act.prems(7) l l1 in \<open>simp add: server_accepts_def image_Un\<close>)
  then have reach: "conc_reach parse params (r1, apply_patched l1 nodes, ts[k := t1])"
    using conc_reach.step [OF act.prems(5)] l1 by simp
  have "fst ` set l2 \<subseteq> dom (apply_patched l1 nodes)" using act.prems(7) l dom_apply_patched [of nodes l1] by auto
  then show ?case using ih [OF r1 _ _ rest reach l2] act.prems(2) l by (simp add: apply_patched_append)
qed

text \<open>The nodes that a sync patches.\<close>

lemma on_set_patched: "ra_patched (snd (on_set idx f r)) = ra_patched r"
  by (simp add: on_set_def split: outcome.split prod.split)

lemma keeps_patched:
  "keeps (\<lambda>r. ra_patched r = p) (occupy_from parse idx cidrs)" "keeps (\<lambda>r. ra_patched r = p) (release_proposed idx cs)"
  "keeps (\<lambda>r. ra_patched r = p) (allocate_from node k idx)" "keeps (\<lambda>r. ra_patched r = p) (release_from parse idx cidrs)"
proof -
  have m: "keeps (\<lambda>r. ra_patched r = p) (on_set idx f)" for idx and f :: "CidrSet \<Rightarrow> (cidr_error, 'x \<times> CidrSet) outcome"
    by (simp add: keeps_def on_set_patched)
  show "keeps (\<lambda>r. ra_patched r = p) (occupy_from parse idx cidrs)"
  proof (induction cidrs arbitrary: idx)
    case (Cons c cs)
    have "keeps (\<lambda>r. ra_patched r = p) (bind_act (wrap_act g (on_set idx (occupy_op (Some n)))) (\<lambda>_. occupy_from parse (Suc idx) cs))" for g n
      using Cons m by blast
    then show ?case by (auto simp: keeps_def split: option.split)
  qed (simp add: keeps_def)
  show "keeps (\<lambda>r. ra_patched r = p) (release_from parse idx cidrs)"
  proof (induction cidrs arbitrary: idx)
    case (Cons c cs)
    have "keeps (\<lambda>r. ra_patched r = p) (bind_act (wrap_act g (on_set idx (release_op (Some n)))) (\<lambda>_. release_from parse (Suc idx) cs))" for g n
      using Cons m by blast
    then show ?case by (auto simp: keeps_def split: option.split)
  qed (simp add: keeps_def)
  show "keeps (\<lambda>r. ra_patched r = p) (release_proposed idx cs)"
  proof (induction cs arbitrary: idx)
    case (Cons c cs)
    have "keeps (\<lambda>r. ra_patched r = p) (bind_act (log_act (on_set idx (release_op c))) (\<lambda>_. release_proposed (Suc idx) cs))"
      using Cons m by blast
    then show ?case by (simp add: keeps_def)
  qed (simp add: keeps_def)
  have rec: "keeps (\<lambda>r. ra_patched r = p) (record_on_err node st m)" if "keeps (\<lambda>r. ra_patched r = p) m" for st and m :: "(RangeAllocator, 'y) act"
    using that by (auto simp: keeps_def record_on_err_def split: prod.splits outcome.splits)
  show "keeps (\<lambda>r. ra_patched r = p) (allocate_from node k idx)"
  proof (induction k arbitrary: idx)
    case (Suc k)
    have "keeps (\<lambda>r. ra_patched r = p) (bind_act (record_on_err node st (wrap_act g (on_set idx AllocateNext)))
       (\<lambda>podCIDR. bind_act (allocate_from node k (Suc idx)) (\<lambda>rest. ret_act (Some podCIDR # rest))))" for st g
      using Suc m by (intro keeps_bind rec keeps_wrap) auto
    then show ?case by (simp add: keeps_def)
  qed (simp add: keeps_def)
qed

lemma update_patches:
  assumes "lister env 1 n = Inr node" and "node_Name node = n" and "updateCIDRsAllocation env n cs r = (res, r')"
  shows "\<exists>l. ra_patched r' = ra_patched r @ l \<and> fst ` set l \<subseteq> {n}"
proof -
  have rel: "ra_patched r2 = ra_patched r1" if "release_proposed 0 cs r1 = (x, r2)" for r1 r2 x
    using keeps_result [OF keeps_patched(2) that refl] .
  show ?thesis
    using assms
    by (auto simp: updateCIDRsAllocation_def Let_def act_defs dest!: rel split: if_splits prod.splits outcome.splits)
qed

lemma sync_patches:
  assumes env: "live_env parse nodes n env" and res: "syncNode env n r = (res, r')"
  shows "\<exists>l. ra_patched r' = ra_patched r @ l \<and> fst ` set l \<subseteq> dom nodes"
proof -
  obtain node where node: "lister env 0 n = Inr node" "lister env 1 n = Inr node" "node_Name node = n"
    "\<not> node_Deleting node" "nodes n = Some (spec_PodCIDRs node)"
    using env by (auto simp: live_env_def)
  have call: "AllocateOrOccupyCIDR env (Some node) r = (res, r')" using res node by (simp add: syncNode_def)
  show ?thesis
  proof (cases "spec_PodCIDRs node = []")
    case False
    then have "r' = snd (occupy_from (parseCIDR env) 0 (spec_PodCIDRs node) r)"
      using call by (simp add: AllocateOrOccupyCIDR_def occupyCIDRs_def)
    then show ?thesis using keepsD [OF keeps_patched(1) [of "ra_patched r"]] by simp
  next
    case True
    obtain res1 r1 where a: "allocate_from node (length (ra_cidrSets r)) 0 r = (res1, r1)"
      by (cases "allocate_from node (length (ra_cidrSets r)) 0 r")
    have p: "ra_patched r1 = ra_patched r" using keeps_result [OF keeps_patched(3) a refl] .
    show ?thesis
    proof (cases res1)
      case (Ret cs)
      then have "updateCIDRsAllocation env n cs r1 = (res, r')" using call a True node by (simp add: AllocateOrOccupyCIDR_def bind_act_def)
      then show ?thesis using update_patches [OF node(2,3)] p node(5) by fastforce
    qed (use call a True p in \<open>auto simp: AllocateOrOccupyCIDR_def bind_act_def\<close>)
  qed
qed

text \<open>
  The sequential histories of theory \<open>RangeSafety\<close> are among the concurrent ones.
\<close>

lemma sequential_reach:
  assumes "reads_back parse" and "params_ok params" and "sys_reach parse params s"
  shows "\<exists>ts. conc_reach parse params (fst s, snd s, ts)"
  using assms(3)
proof (induction rule: sys_reach.induct)
  case (init r)
  then show ?case by (auto intro: conc_reach.init)
next
  case (step s s')
  then obtain ts where reach: "conc_reach parse params (fst s, snd s, ts)" by blast
  from step.hyps(2) show ?case
  proof cases
    case (add nodes n r)
    then have "conc_step parse params (fst s, snd s, ts) (fst s', snd s', ts)" using conc_step.add [of nodes n] by simp
    then show ?thesis using conc_reach.step [OF reach] by blast
  next
    case (sync nodes n env r res r')
    let ?t = "bind_t (processNextNodeWorkItem_t env (Some (KeyObj n))) (\<lambda>(_, calls). ret_t calls)"
    have li: "live_item env (Some (KeyObj n))" and p: "parseCIDR env = parse" using sync(3) by (auto simp: live_item_def live_env_def)
    have "conc_step parse params (r, nodes, ts) (r, nodes, ts @ [?t])" by (rule conc_step.take [OF p li])
    then have reach1: "conc_reach parse params (r, nodes, ts @ [?t])" using conc_reach.step [OF reach] sync(1) by simp
    obtain sets0 where inv: "conc_inv sets0 (service_parts params sets0) (r, nodes, ts @ [?t])"
      by (rule conc_reach_inv [OF assms(1,2) reach1])
    have rd: "ready sets0 {} r" using inv by (auto simp: conc_inv_def ready_def)
    obtain res' r'' where run: "run ?t r = (res', r'')" by (cases "run ?t r")
    have r'': "r'' = r'" using run sync(4)
      by (auto simp: run_work RangeAllocator.processNextNodeWorkItem_def act_defs fun_eq_iff split: outcome.splits prod.splits)
    obtain l where l: "ra_patched r' = ra_patched r @ l" "fst ` set l \<subseteq> dom nodes" using sync_patches [OF sync(3,4)] by blast
    have "conc_reach parse params (r', apply_patched l nodes, (ts @ [?t])[length ts := Halt res'])"
      by (rule run_alone [OF disc_work [OF li] rd _ _ run [unfolded r''] reach1 l]) simp_all
    then show ?thesis using sync(2) l(1) by auto
  next
    case (delete node n nodes r res r')
    let ?t = "onDelete_t parse (ObjNode node)"
    have nn: "nodes (node_Name node) = Some (spec_PodCIDRs node)" using delete by simp
    have "conc_step parse params (r, nodes, ts) (r, nodes(node_Name node := None), ts @ [?t])" by (rule conc_step.delete) (rule nn)
    then have reach1: "conc_reach parse params (r, nodes(node_Name node := None), ts @ [?t])" using conc_reach.step [OF reach] delete(1) by simp
    obtain sets0 where inv: "conc_inv sets0 (service_parts params sets0) (r, nodes(node_Name node := None), ts @ [?t])"
      by (rule conc_reach_inv [OF assms(1,2) reach1])
    obtain claim where c: "fits sets0 r" "claims_ok r claim" "threads_ok sets0 claim (ts @ [?t])" using inv by (rule conc_invE) blast
    have d: "disc sets0 (\<lambda>_ _. True) (claim (OfThread (length ts))) ?t" using c(3) by (auto simp: threads_ok_def dest: spec [of _ "length ts"])
    have rd: "ready sets0 (claim (OfThread (length ts))) r" using c by (simp add: ready_def claims_ok_def)
    have run: "run ?t r = (res, r')" using delete(5) by (simp add: run_onDelete)
    have "ra_patched x = ra_patched r" if "ReleaseCIDR parse (Some node) r = (y, x)" for x y
      using that keeps_result [OF keeps_patched(4) _ refl] by (auto simp: ReleaseCIDR_def act_defs split: if_splits)
    then have p: "ra_patched r' = ra_patched r @ []"
      using delete(5) by (auto simp: RangeAllocator.onDelete_def act_defs split: prod.splits outcome.splits)
    have "conc_reach parse params (r', apply_patched [] (nodes(node_Name node := None)), (ts @ [?t])[length ts := Halt res])"
      by (rule run_alone [OF d rd _ _ run reach1 p]) simp_all
    then show ?thesis unfolding delete(2) using delete(3) by (auto simp: apply_patched_def simp del: fun_upd_apply)
  qed
qed

section \<open>Safety\<close>

lemma conc_node_block:
  assumes rb: "reads_back parse" and f: "fits sets0 r" and c: "claims_ok r claim"
    and n: "node_claim sets0 (nodes n) (claim (OfNode n))" "nodes n = Some cs" "i < length cs"
  obtains j where "i < length sets0" "(i, j) \<in> claim (OfNode n)" "j < capacity (sets0 ! i)"
    "parse (cs ! i) = Some (nth_block (sets0 ! i) j)"
proof -
  obtain js where js: "length js = length sets0" "cs = node_cidrs sets0 js" "claim (OfNode n) = parts 0 js"
    using n by (auto simp: node_claim_def)
  have i: "i < length sets0" using n(3) js(2) by (simp add: node_cidrs_def)
  have u: "parts 0 js \<subseteq> uses r" using c js(3) by (metis claims_ok_def)
  note b = claimed_block [OF f u js(1) i]
  show ?thesis
    using that [of "js ! i"] i b(1,2) js rb by (simp add: parts_mem reads_back_def node_cidrs_def)
qed

text \<open>
  C1: Whatever way the goroutines of the range allocator interleave, no two nodes ever have overlapping pod CIDRs. Any number of
  workers sync any keys at once, also the same one, and delete events are handled beside them; between any two calls of a method of a CIDR set any
  other goroutine may run; the node lister may answer from an arbitrarily stale cache and the API server may refuse any patch; the process may crash and be
  started again in the running cluster. The parser is only assumed to read back the CIDRs that were printed, the lister to not report nodes that are being deleted, and the API server to not apply
  a patch that it answers with an error.
\<close>

theorem concurrent_pod_cidrs_never_overlap:
  assumes "reads_back parse" and "params_ok params" and "conc_reach parse params (r, nodes, ts)"
    and "nodes n = Some cs" and "nodes m = Some ds" and "n \<noteq> m" and "i < length cs" and "i < length ds"
  shows "\<exists>a b. parse (cs ! i) = Some a \<and> parse (ds ! i) = Some b \<and> \<not> overlap a b"
proof -
  obtain sets0 where inv: "conc_inv sets0 (service_parts params sets0) (r, nodes, ts)" by (rule conc_reach_inv [OF assms(1-3)])
  then obtain claim where c: "fits sets0 r" "claims_ok r claim" "\<And>n. node_claim sets0 (nodes n) (claim (OfNode n))" by (rule conc_invE) blast
  obtain j where j: "i < length sets0" "(i, j) \<in> claim (OfNode n)" "j < capacity (sets0 ! i)" "parse (cs ! i) = Some (nth_block (sets0 ! i) j)"
    by (rule conc_node_block [where nodes = nodes, OF assms(1) c assms(4,7)])
  obtain k where k: "(i, k) \<in> claim (OfNode m)" "k < capacity (sets0 ! i)" "parse (ds ! i) = Some (nth_block (sets0 ! i) k)"
    by (rule conc_node_block [where nodes = nodes, OF assms(1) c assms(5,8)])
  have "claim (OfNode n) \<inter> claim (OfNode m) = {}" using c(2) assms(6) by (simp add: claims_ok_def)
  then have "j \<noteq> k" using j(2) k(1) by blast
  moreover have "cidr_inv (ra_cidrSets r ! i)" "same_blocks (sets0 ! i) (ra_cidrSets r ! i)" using c(1) j(1) by (auto simp: fits_nth ra_inv_nth)
  ultimately show ?thesis
    using cs.blocks_disjoint [of "ra_cidrSets r ! i" j k] same_blocksD(2,3) [of "sets0 ! i" "ra_cidrSets r ! i"] j(3,4) k(2,3) by simp
qed

theorem concurrent_pod_cidrs_never_overlap_witness:
  "\<exists>r nodes ts cs ds a b. conc_reach ParseCIDR demo_params (r, nodes, ts) \<and> nodes ''a'' = Some cs \<and> nodes ''b'' = Some ds \<and>
    ParseCIDR (cs ! 1) = Some a \<and> ParseCIDR (ds ! 1) = Some b \<and> \<not> overlap a b"
proof -
  obtain r nodes cs ds where d: "sys_reach ParseCIDR demo_params (r, nodes)" "nodes ''a'' = Some cs" "nodes ''b'' = Some ds"
    "length cs = 2" "length ds = 2" by (rule demo_two_nodes)
  obtain ts where ts: "conc_reach ParseCIDR demo_params (r, nodes, ts)"
    using sequential_reach [OF ParseCIDR_reads_back demo_params_ok d(1)] by auto
  obtain a b where "ParseCIDR (cs ! 1) = Some a" "ParseCIDR (ds ! 1) = Some b" "\<not> overlap a b"
    using concurrent_pod_cidrs_never_overlap [OF ParseCIDR_reads_back demo_params_ok ts d(2,3), of 1] d(4,5) by auto
  then show ?thesis using ts d by blast
qed

text \<open>
  C9: In the same histories no node ever has a pod CIDR that shares an address with a service CIDR.
\<close>

theorem concurrent_pod_cidrs_avoid_services:
  assumes "reads_back parse" and "params_ok params" and "conc_reach parse params (r, nodes, ts)"
    and "nodes n = Some cs" and "i < length cs" and "c \<in> service_cidrs params"
  shows "\<exists>a. parse (cs ! i) = Some a \<and> \<not> overlap a c"
proof -
  obtain sets0 where inv: "conc_inv sets0 (service_parts params sets0) (r, nodes, ts)" by (rule conc_reach_inv [OF assms(1-3)])
  then obtain claim where c: "fits sets0 r" "claims_ok r claim" "\<And>n. node_claim sets0 (nodes n) (claim (OfNode n))"
    "claim Services = service_parts params sets0" by (rule conc_invE) blast
  obtain j where j: "i < length sets0" "(i, j) \<in> claim (OfNode n)" "j < capacity (sets0 ! i)" "parse (cs ! i) = Some (nth_block (sets0 ! i) j)"
    by (rule conc_node_block [where nodes = nodes, OF assms(1) c(1-3) assms(4,5)])
  have "claim Services \<inter> claim (OfNode n) = {}" using c(2) by (simp add: claims_ok_def)
  then have "j \<notin> service_blocks params sets0 i" using c(4) j(1,2) by (auto simp: service_parts_def)
  then show ?thesis using j assms(6) by (auto simp: service_blocks_def hits_def)
qed

theorem concurrent_pod_cidrs_avoid_services_witness:
  "\<exists>r nodes ts cs a. conc_reach ParseCIDR demo_params (r, nodes, ts) \<and> nodes ''a'' = Some cs \<and>
    ParseCIDR (cs ! 0) = Some a \<and> \<not> overlap a (net4 0x0A600000 12)"
proof -
  obtain r nodes cs ds where d: "sys_reach ParseCIDR demo_params (r, nodes)" "nodes ''a'' = Some cs" "nodes ''b'' = Some ds"
    "length cs = 2" "length ds = 2" by (rule demo_two_nodes)
  obtain ts where ts: "conc_reach ParseCIDR demo_params (r, nodes, ts)"
    using sequential_reach [OF ParseCIDR_reads_back demo_params_ok d(1)] by auto
  obtain a where "ParseCIDR (cs ! 0) = Some a" "\<not> overlap a (net4 0x0A600000 12)"
    using concurrent_pod_cidrs_avoid_services [OF ParseCIDR_reads_back demo_params_ok ts d(2), of 0 "net4 0x0A600000 12"] d(4)
    by (auto simp: service_cidrs_def demo_params_def)
  then show ?thesis using ts d by blast
qed

end
