(* ===== verification/RangeRaces.thy ===== *)
theory RangeRaces
  imports RangeConcurrent
begin

text \<open>
  Where the hypotheses of the concurrent safety of the range allocator are needed. A node whose deletion the lister reports is released by a worker and again by the
  delete handler; a patch that the API server applies although it answers with a timeout is taken back.
\<close>

section \<open>A node that is being deleted is released twice\<close>

text \<open>A cluster CIDR with room for one node.\<close>

definition one_params :: CIDRAllocatorParams where
  "one_params = \<lparr>ClusterCIDRs = [net4 0x0AF40000 24], ServiceCIDR = None, SecondaryServiceCIDR = None, NodeCIDRMaskSizes = [24]\<rparr>"

lemma one_params_ok: "params_ok one_params"
  by (simp add: params_ok_def one_params_def service_cidrs_def cluster_ok_def net_base_def)

text \<open>An allocator of one set with one block, which is free or not.\<close>

definition one_block :: "CidrSet \<Rightarrow> nat set \<Rightarrow> RangeAllocator \<Rightarrow> bool" where
  "one_block s0 U r \<longleftrightarrow> ra_inv r \<and> (\<exists>s. ra_cidrSets r = [s] \<and> same_blocks s0 s \<and> capacity s = 1 \<and> used_set s = U)"

lemma one_block_new: "\<exists>s0 r. NewCIDRRangeAllocator parse one_params None = Ret r \<and> ra_patched r = [] \<and> one_block s0 {} r"
proof -
  have ok: "cluster_ok (net4 0x0AF40000 24) 24" by (simp add: cluster_ok_def net_base_def)
  obtain s where s: "NewCIDRSet (net4 0x0AF40000 24) 24 = Ret s" using NewCIDRSet_total [OF ok] by blast
  note inv = NewCIDRSet_inv [OF ok s] and f = NewCIDRSet_fields [OF s]
  have "capacity s = 1" using f(3) getMaxCIDRs_exp [of 24 24] by (simp add: capacity_def)
  then show ?thesis
    using s inv f(1) by (intro exI [of _ s])
      (auto simp: NewCIDRRangeAllocator_def one_params_def filterOutServiceRange_def act_defs one_block_def ra_inv_def same_blocks_def)
qed

lemma one_block_sync:
  assumes "one_block s0 {} r"
  shows "\<exists>r'. syncNode (blank_env None) n r = (Ret (), r') \<and> one_block s0 {0} r' \<and>
    ra_patched r' = ra_patched r @ [(n, [net_String (nth_block s0 0)])]"
proof -
  obtain s where s: "ra_inv r" "ra_cidrSets r = [s]" "same_blocks s0 s" "capacity s = 1" "used_set s = {}"
    using assms by (auto simp: one_block_def)
  have "has_room r" "ra_cidrSets r \<noteq> []" using s by (simp_all add: has_room_def)
  then obtain js r' where r': "AllocateOrOccupyCIDR (blank_env None) (Some (blank_node n)) r = (Ret (), r')" "ra_inv r'"
    "list_all2 same_blocks (ra_cidrSets r) (ra_cidrSets r')" "ra_patched r' = ra_patched r @ [(n, node_cidrs (ra_cidrSets r) js)]"
    "\<And>i. i < length (ra_cidrSets r) \<Longrightarrow> used_set (ra_cidrSets r' ! i) = insert (js ! i) (used_set (ra_cidrSets r ! i))"
    using assign_ok [OF s(1), of "blank_env None" "blank_node n"] by (auto simp: blank_env_def)
  obtain t where t: "ra_cidrSets r' = [t]" "same_blocks s t" using r'(3) s(2) by (auto simp: list_all2_Cons1)
  have "cidr_inv t" using r'(2) t(1) by (simp add: ra_inv_nth)
  then have "js ! 0 < capacity t" using cs.taken_bound [of t] r'(5) [of 0] s(2) t(1) by auto
  then have js: "js ! 0 = 0" using same_blocksD(2) [OF t(2)] s(4) by simp
  then have "one_block s0 {0} r'" using r'(2) r'(5) [of 0] t s same_blocks_trans [OF s(3) t(2)] same_blocksD(2) [OF t(2)] by (simp add: one_block_def)
  moreover have "node_cidrs (ra_cidrSets r) js = [net_String (nth_block s0 0)]"
    using js s(2) same_blocksD(3) [OF s(3)] by (simp add: node_cidrs_def)
  ultimately show ?thesis using r'(1,4) by (auto simp: syncNode_def blank_env_def)
qed

lemma one_block_refused:
  assumes "one_block s0 {} r" and "lister env 1 n = Inr (blank_node n)"
    and "\<And>j p. cidr_patch [net_String (nth_block s0 0)] = Some p \<Longrightarrow> send_patch env j n p \<noteq> None"
  shows "\<exists>e r'. AllocateOrOccupyCIDR env (Some (blank_node n)) r = (Err e, r') \<and> one_block s0 {} r' \<and> ra_patched r' = ra_patched r"
proof -
  obtain s where s: "ra_inv r" "ra_cidrSets r = [s]" "same_blocks s0 s" "capacity s = 1" "used_set s = {}"
    using assms by (auto simp: one_block_def)
  have "has_room r" using s by (simp add: has_room_def)
  then obtain allocated r1 where a: "allocate_from (blank_node n) (length (ra_cidrSets r)) 0 r = (Ret allocated, r1)"
    using allocate_total [OF s(1)] by blast
  then obtain js where js: "length js = 1" "allocated = [Some (nth_block s (js ! 0))]" "js ! 0 < capacity s"
    by (rule allocate_indices [OF s(1)]) (auto simp: s(2))
  then have "ipnetToStringList allocated = [net_String (nth_block s0 0)]"
    using s(4) same_blocksD(3) [OF s(3)] by (simp add: ipnetToStringList_def netp_String_def)
  then have refused: "\<And>j p. cidr_patch (ipnetToStringList allocated) = Some p \<Longrightarrow> send_patch env j (node_Name (blank_node n)) p \<noteq> None"
    using assms(3) by (simp add: blank_node_def)
  obtain e r' where r': "AllocateOrOccupyCIDR env (Some (blank_node n)) r = (Err e, r')" "ra_inv r'" "ra_patched r' = ra_patched r"
    "list_all2 same_blocks (ra_cidrSets r) (ra_cidrSets r')" "used_set (ra_cidrSets r' ! 0) = {}"
    using assign_refused [OF s(1) _ _ _ a refused] assms(2) s(2,5) by (auto simp: blank_node_def)
  then obtain t where t: "ra_cidrSets r' = [t]" "same_blocks s t" using s(2) by (auto simp: list_all2_Cons1)
  then have "one_block s0 {} r'"
    using r' s(4) same_blocks_trans [OF s(3) t(2)] same_blocksD(2) [OF t(2)] by (simp add: one_block_def)
  then show ?thesis using r' by blast
qed

lemma one_block_release:
  assumes "one_block s0 U r" and "spec_PodCIDRs node = [net_String (nth_block s0 0)]"
  shows "\<exists>r'. ReleaseCIDR ParseCIDR (Some node) r = (Ret (), r') \<and> one_block s0 (U - {0}) r' \<and> ra_patched r' = ra_patched r"
proof -
  obtain s where s: "ra_inv r" "ra_cidrSets r = [s]" "same_blocks s0 s" "capacity s = 1" "used_set s = U"
    using assms by (auto simp: one_block_def)
  have ci: "cidr_inv s" using s(1,2) by (simp add: ra_inv_nth)
  obtain t where t: "Release s (Some (nth_block s 0)) = Ret t" "cidr_inv t" "same_blocks s t" "used_set t = U - {0}"
    using Release_block [OF ci, of 0] s by auto
  have p: "ParseCIDR (net_String (nth_block s0 0)) = Some (nth_block s 0)"
    using ParseCIDR_String [OF cs.block_canon [OF ci, of 0]] s(4) same_blocksD(3) [OF s(3)] by simp
  have "ra_inv (r\<lparr>ra_cidrSets := [t]\<rparr>)" using s(1,2) t(2,3) by (auto simp: ra_inv_def same_blocks_def list_all2_Cons2)
  then show ?thesis
    using p s t assms(2) same_blocks_trans [OF s(3) t(3)] same_blocksD(2) [OF t(3)]
    by (auto simp: ReleaseCIDR_def act_defs wrap_act_def on_set_def release_op_def no_result_def one_block_def)
qed

text \<open>
  C22: A node whose deletion the lister reports before the delete event is released twice, by the worker and by the delete handler. When the block was
  given to another node in between, the second release frees it under that node, and a third one gets the same CIDR: two live nodes overlap. So the hypothesis on the
  lister in the safety of concurrent histories cannot be dropped; the code relies on nodes having no finalizers.
\<close>

theorem double_release_overlaps:
  "\<exists>r0 r1 r2 r3 r4 r5 cidrs calls. let a = (blank_node ''a'')\<lparr>spec_PodCIDRs := cidrs, node_Deleting := True\<rparr> in
    NewCIDRRangeAllocator ParseCIDR one_params None = Ret r0 \<and>
    syncNode (blank_env None) ''a'' r0 = (Ret (), r1) \<and>
    syncNode ((blank_env None)\<lparr>lister := \<lambda>_ _. Inr a\<rparr>) ''a'' r1 = (Ret (), r2) \<and>
    syncNode (blank_env None) ''b'' r2 = (Ret (), r3) \<and>
    RangeAllocator.onDelete ParseCIDR (ObjNode a) r3 = (Ret calls, r4) \<and>
    syncNode (blank_env None) ''c'' r4 = (Ret (), r5) \<and>
    ra_patched r5 = [(''a'', cidrs), (''b'', cidrs), (''c'', cidrs)]"
proof -
  obtain s0 r0 where r0: "NewCIDRRangeAllocator ParseCIDR one_params None = Ret r0" "ra_patched r0 = []" "one_block s0 {} r0"
    using one_block_new by blast
  define cidrs where "cidrs = [net_String (nth_block s0 0)]"
  let ?a = "(blank_node ''a'')\<lparr>spec_PodCIDRs := cidrs, node_Deleting := True\<rparr>"
  obtain r1 where r1: "syncNode (blank_env None) ''a'' r0 = (Ret (), r1)" "one_block s0 {0} r1" "ra_patched r1 = [(''a'', cidrs)]"
    using one_block_sync [OF r0(3), of "''a''"] r0(2) unfolding cidrs_def by auto
  obtain r2 where r2: "ReleaseCIDR ParseCIDR (Some ?a) r1 = (Ret (), r2)" "one_block s0 {} r2" "ra_patched r2 = ra_patched r1"
    using one_block_release [OF r1(2), of ?a] unfolding cidrs_def by auto
  obtain r3 where r3: "syncNode (blank_env None) ''b'' r2 = (Ret (), r3)" "one_block s0 {0} r3" "ra_patched r3 = ra_patched r2 @ [(''b'', cidrs)]"
    using one_block_sync [OF r2(2), of "''b''"] unfolding cidrs_def by blast
  obtain r4 where r4: "ReleaseCIDR ParseCIDR (Some ?a) r3 = (Ret (), r4)" "one_block s0 {} r4" "ra_patched r4 = ra_patched r3"
    using one_block_release [OF r3(2), of ?a] unfolding cidrs_def by auto
  obtain r5 where r5: "syncNode (blank_env None) ''c'' r4 = (Ret (), r5)" "ra_patched r5 = ra_patched r4 @ [(''c'', cidrs)]"
    using one_block_sync [OF r4(2), of "''c''"] unfolding cidrs_def by blast
  have "syncNode ((blank_env None)\<lparr>lister := \<lambda>_ _. Inr ?a\<rparr>) ''a'' r1 = (Ret (), r2)"
    using r2(1) by (simp add: syncNode_def blank_env_def)
  moreover have "RangeAllocator.onDelete ParseCIDR (ObjNode ?a) r3 = (Ret [q_Add ''a''], r4)"
    using r4(1) by (simp add: RangeAllocator.onDelete_def act_defs)
  moreover have "ra_patched r5 = [(''a'', cidrs), (''b'', cidrs), (''c'', cidrs)]" using r1(3) r2(3) r3(3) r4(3) r5(2) by simp
  ultimately show ?thesis unfolding Let_def using r0(1) r1(1) r3(1) r5(1) by blast
qed

section \<open>A lost answer\<close>

text \<open>
  The server times out on exactly the patch that would give node \<open>a\<close> these CIDRs, so that patch was sent, and it may have been applied. The block is released all the same, because the timeout is not
  recognised, and the next node gets it. The safety of concurrent histories counts a patch with an error as not applied.
\<close>

lemma lost_answer_overlaps:
  "\<exists>r0 r1 r2 e cidrs p. NewCIDRRangeAllocator ParseCIDR one_params None = Ret r0 \<and> cidr_patch cidrs = Some p \<and>
    syncNode ((blank_env None)\<lparr>send_patch := \<lambda>_ n q. if n = ''a'' \<and> q = p then Some (StatusError ServerTimeout) else None\<rparr>) ''a'' r0 = (Err e, r1) \<and>
    syncNode (blank_env None) ''b'' r1 = (Ret (), r2) \<and> ra_patched r2 = [(''b'', cidrs)]"
proof -
  obtain s0 r0 where r0: "NewCIDRRangeAllocator ParseCIDR one_params None = Ret r0" "ra_patched r0 = []" "one_block s0 {} r0"
    using one_block_new by blast
  define cidrs where "cidrs = [net_String (nth_block s0 0)]"
  then obtain p where p: "cidr_patch cidrs = Some p" by (simp add: cidr_patch_def)
  let ?env = "(blank_env None)\<lparr>send_patch := \<lambda>_ n q. if n = ''a'' \<and> q = p then Some (StatusError ServerTimeout) else None\<rparr>"
  obtain r1 e where r1: "AllocateOrOccupyCIDR ?env (Some (blank_node ''a'')) r0 = (Err e, r1)" "one_block s0 {} r1" "ra_patched r1 = []"
    using one_block_refused [OF r0(3), of ?env "''a''"] p r0(2) by (auto simp: cidrs_def blank_env_def)
  obtain r2 where r2: "syncNode (blank_env None) ''b'' r1 = (Ret (), r2)" "ra_patched r2 = [(''b'', cidrs)]"
    using one_block_sync [OF r1(2), of "''b''"] r1(3) unfolding cidrs_def by auto
  have "syncNode ?env ''a'' r0 = (Err e, r1)" using r1(1) by (simp add: syncNode_def blank_env_def)
  then show ?thesis using r0(1) p r2 by blast
qed

end
