(* ===== verification/RangeRestart.thy ===== *)
theory RangeRestart
  imports RangeProps
begin

text \<open>
  The start of the range allocator in a running cluster, exactly: the blocks in use are those that overlap a service
  CIDR or a pod CIDR of a node, and no others. Blocks that an earlier process lost are free again.
\<close>

section \<open>What a step can mark\<close>

text \<open>Nothing becomes used but blocks that overlap \<open>c\<close>.\<close>

definition adds :: "IPNet set \<Rightarrow> CidrSet \<Rightarrow> CidrSet \<Rightarrow> bool" where
  "adds C s t \<longleftrightarrow> same_blocks s t \<and> used_set t \<subseteq> used_set s \<union> (\<Union>c\<in>C. hits (nth_block s) (capacity s) c)"

lemma adds_refl [simp]: "adds C s s"
  by (simp add: adds_def same_blocks_def)

lemma adds_trans: "adds C s t \<Longrightarrow> adds C t u \<Longrightarrow> adds C s u"
proof -
  assume st: "adds C s t" and tu: "adds C t u"
  then have b: "same_blocks s t" "same_blocks t u" by (simp_all add: adds_def)
  show ?thesis
    using st tu same_blocks_trans [OF b] same_blocksD(2,3) [OF b(1)] by (auto simp: adds_def)
qed

lemma adds_mono: "adds C s t \<Longrightarrow> C \<subseteq> D \<Longrightarrow> adds D s t"
  by (fastforce simp: adds_def)

lemma occupy_adds:
  assumes inv: "cidr_inv s" and c: "canon_net c" "c \<in> C" and r: "occupy_op (Some c) s = Ret (x, s')"
  shows "cidr_inv s' \<and> same_blocks s s' \<and> adds C s s'"
proof -
  have o: "Occupy s (Some c) = Ret s'" using r by (simp add: occupy_op_def no_result_Ret)
  have "hits (nth_block s) (capacity s) c \<noteq> {}" using cs.occupy_miss [OF inv c(1)] o by auto
  then have "used_set s' = used_set s \<union> hits (nth_block s) (capacity s) c" using cs.occupy_hit [OF inv c(1)] o by auto
  then show ?thesis using Occupy_any [OF inv o] c(2) by (auto simp: adds_def)
qed

interpretation occupy_adds_m: set_method occupy_op "\<lambda>p. \<exists>c\<in>C. p = Some c \<and> canon_net c" "adds C" for C
  by unfold_locales (use occupy_adds adds_trans in blast)+

lemma filter_from_adds: "canon_net c \<Longrightarrow> c \<in> C \<Longrightarrow> keeps (ra_via (adds C) r0) (filter_from idx cidrs c)"
proof (induction cidrs arbitrary: idx)
  case (Cons d ds)
  then have "keeps (ra_via (adds C) r0) (on_set idx (occupy_op (Some c)))" by (intro occupy_adds_m.on_set_keeps) blast
  then have "keeps (ra_via (adds C) r0) (bind_act
       (if \<not> net_Contains d (ip_Mask (net_IP c) (net_Mask d)) \<and> \<not> net_Contains c (ip_Mask (net_IP d) (net_Mask c))
        then ret_act () else log_act (on_set idx (occupy_op (Some c)))) (\<lambda>_. filter_from (Suc idx) ds c))"
    using Cons by (intro keeps_bind) auto
  then show ?case by (simp add: keeps_def)
qed (simp add: keeps_def)

lemma filterOutServiceRange_adds:
  "(\<And>n. c = Some n \<Longrightarrow> canon_net n \<and> n \<in> C) \<Longrightarrow> keeps (ra_via (adds C) r0) (filterOutServiceRange c)"
  using filter_from_adds [of _ C r0] by (cases c) (auto simp: keeps_def filterOutServiceRange_def)

section \<open>The start\<close>

text \<open>The pod CIDRs of the nodes for set \<open>i\<close>.\<close>

definition nets_at :: "(string \<Rightarrow> IPNet option) \<Rightarrow> Node list \<Rightarrow> nat \<Rightarrow> IPNet set" where
  "nets_at parse ns i = {n. \<exists>node\<in>set ns. i < length (spec_PodCIDRs node) \<and> parse (spec_PodCIDRs node ! i) = Some n}"

definition adds_nodes :: "(nat \<Rightarrow> IPNet set) \<Rightarrow> RangeAllocator \<Rightarrow> RangeAllocator \<Rightarrow> bool" where
  "adds_nodes N r r' \<longleftrightarrow> ra_via grows r r' \<and> (\<forall>i<length (ra_cidrSets r). adds (N i) (ra_cidrSets r ! i) (ra_cidrSets r' ! i))"

lemma adds_nodes_trans: "adds_nodes N r s \<Longrightarrow> adds_nodes N s t \<Longrightarrow> adds_nodes N r t"
  unfolding adds_nodes_def using ra_via_trans [of r s t] adds_trans [of "N i" "ra_cidrSets r ! i" for i] by (auto simp: ra_via_nth)

lemma adds_nodes_refl: "ra_inv r \<Longrightarrow> adds_nodes N r r"
  by (simp add: adds_nodes_def ra_via_refl)

lemma occupy_from_adds:
  assumes "ra_inv r" and "cidrs_ok parse cidrs" and "\<And>k n. k < length cidrs \<Longrightarrow> parse (cidrs ! k) = Some n \<Longrightarrow> n \<in> N (idx + k)"
  shows "adds_nodes N r (snd (occupy_from parse idx cidrs r))"
  using assms
proof (induction cidrs arbitrary: idx r)
  case Nil
  then show ?case by (simp add: adds_nodes_refl)
next
  case (Cons c cs)
  show ?case
  proof (cases "parse c = None \<or> length (ra_cidrSets r) \<le> idx")
    case True
    then show ?thesis using Cons.prems(1) by (auto simp: adds_nodes_refl split: option.split)
  next
    case False
    then obtain n where n: "parse c = Some n" and idx: "idx < length (ra_cidrSets r)" by auto
    have cn: "canon_net n" and nN: "n \<in> N idx" using Cons.prems(2) Cons.prems(3) [of 0] n by (simp_all add: cidrs_ok_def)
    have ci: "cidr_inv (ra_cidrSets r ! idx)" using Cons.prems(1) idx by (simp add: ra_inv_nth)
    show ?thesis
    proof (cases "occupy_op (Some n) (ra_cidrSets r ! idx)")
      case (Ret y)
      obtain s where y: "y = ((), s)" by (cases y) auto
      let ?r = "r\<lparr>ra_cidrSets := (ra_cidrSets r)[idx := s]\<rparr>"
      have s: "cidr_inv s" "same_blocks (ra_cidrSets r ! idx) s" "adds (N idx) (ra_cidrSets r ! idx) s" "grows (ra_cidrSets r ! idx) s"
        using occupy_adds [OF ci cn nN] occupy_op_step [OF ci] Ret y by blast+
      then have one: "adds_nodes N r ?r"
        using Cons.prems(1) idx by (auto simp: adds_nodes_def ra_via_nth ra_inv_nth nth_list_update)
      have inv: "ra_inv ?r" using one ra_via_inv [OF Cons.prems(1)] by (auto simp: adds_nodes_def)
      have "adds_nodes N ?r (snd (occupy_from parse (Suc idx) cs ?r))"
        using Cons.prems(2) Cons.prems(3) [of "Suc k" for k] by (intro Cons.IH [OF inv]) (auto simp: cidrs_ok_def)
      then show ?thesis
        using adds_nodes_trans [OF one] n idx Ret y by (simp add: act_defs wrap_act_def on_set_def)
    qed (use Cons.prems(1) n idx in \<open>simp_all add: act_defs wrap_act_def on_set_def adds_nodes_refl\<close>)
  qed
qed

lemma occupy_nodes_adds:
  assumes "ra_inv r" and "\<And>node. node \<in> set ns \<Longrightarrow> cidrs_ok parse (spec_PodCIDRs node)"
    and "\<And>i. nets_at parse ns i \<subseteq> N i"
  shows "adds_nodes N r (snd (occupy_nodes parse ns r))"
  using assms
proof (induction ns arbitrary: r)
  case Nil
  then show ?case by (simp add: adds_nodes_refl)
next
  case (Cons node ns)
  have rest: "adds_nodes N r1 (snd (occupy_nodes parse ns r1))" if "ra_inv r1" for r1
    using Cons.prems(2,3) by (intro Cons.IH [OF that]) (force simp: nets_at_def)+
  have "adds_nodes N r (snd (occupyCIDRs parse node r))"
    using Cons.prems occupy_from_adds [OF Cons.prems(1), of parse "spec_PodCIDRs node" N 0]
    by (force simp: occupyCIDRs_def nets_at_def ret_act_def adds_nodes_refl)
  moreover from this have "ra_inv (snd (occupyCIDRs parse node r))" using ra_via_inv [OF Cons.prems(1)] by (auto simp: adds_nodes_def)
  ultimately show ?case
    using rest [OF Cons.prems(1)] rest adds_nodes_trans
    by (auto simp: bind_act_def split: prod.splits outcome.splits)
qed

lemma start_services:
  assumes ok: "params_ok params" and new: "NewCIDRRangeAllocator parse params None = Ret r" and i: "i < length (ra_cidrSets r)"
  shows "used_set (ra_cidrSets r ! i) \<subseteq> service_blocks params (ra_cidrSets r) i"
proof -
  obtain sets where sets: "new_sets (ClusterCIDRs params) (NodeCIDRMaskSizes params) = Ret sets"
    "list_all2 (\<lambda>c s. cidr_inv s \<and> clusterCIDR s = c) (ClusterCIDRs params) sets" "\<forall>s\<in>set sets. used_set s = {}"
    using new_sets_ok ok by (force simp: params_ok_def)
  let ?r0 = "\<lparr>ra_clusterCIDRs = ClusterCIDRs params, ra_cidrSets = sets, ra_events = [], ra_patched = []\<rparr>"
  let ?S = "service_cidrs params"
  let ?m = "bind_act (filterOutServiceRange (ServiceCIDR params)) (\<lambda>_. bind_act (filterOutServiceRange (SecondaryServiceCIDR params)) (\<lambda>_. ret_act ()))"
  have "ra_inv ?r0" using sets(2) by (simp add: ra_inv_def)
  then have "ra_via (adds ?S) ?r0 ?r0" by (intro ra_via_refl) simp_all
  moreover have "keeps (ra_via (adds ?S) ?r0) ?m"
    using ok by (intro keeps_bind filterOutServiceRange_adds) (auto simp: params_ok_def service_cidrs_def)
  moreover have "?m ?r0 = (Ret (), r)"
    using new sets(1) by (cases "?m ?r0") (auto simp: NewCIDRRangeAllocator_def bind_out_Ret_iff)
  ultimately have via: "ra_via (adds ?S) ?r0 r" by (metis keeps_result)
  then have len: "i < length sets" and a: "adds ?S (sets ! i) (ra_cidrSets r ! i)" using i by (auto simp: ra_via_nth)
  have "used_set (sets ! i) = {}" using sets(3) len by simp
  then show ?thesis using a same_blocksD(2,3) [of "sets ! i" "ra_cidrSets r ! i"] by (auto simp: adds_def service_blocks_def)
qed

text \<open>
  C14: A range allocator that starts in a running cluster marks exactly the blocks that overlap a service CIDR or a pod CIDR of a
  node: it cannot hand out their addresses again, and blocks that an earlier process lost, by a failed request or an
  exhausted set, are free again, as the comments of the code promise.
\<close>

theorem restart_recovers:
  assumes "params_ok params" and "\<forall>node\<in>set ns. cidrs_ok parse (spec_PodCIDRs node)"
    and "NewCIDRRangeAllocator parse params (Some ns) = Ret r" and "i < length (ra_cidrSets r)"
  shows "used_set (ra_cidrSets r ! i) = {j. j < capacity (ra_cidrSets r ! i) \<and>
    (\<exists>c\<in>service_cidrs params \<union> nets_at parse ns i. overlap (nth_block (ra_cidrSets r ! i) j) c)}"
proof -
  obtain sets r0 where r0: "ra_inv r0" "\<forall>c\<in>service_cidrs params. \<forall>s\<in>set (ra_cidrSets r0). reserved c s"
    "\<And>parse nodes. NewCIDRRangeAllocator parse params nodes =
      (case (case nodes of None \<Rightarrow> ret_act () | Some ns \<Rightarrow> occupy_nodes parse ns) r0 of (res, r') \<Rightarrow> bind_out res (\<lambda>_. Ret r'))"
    by (rule new_allocator [OF assms(1)]) (rule that)
  have new: "NewCIDRRangeAllocator parse params None = Ret r0" using r0(3) by (simp add: ret_act_def)
  have occ: "occupy_nodes parse ns r0 = (Ret (), r)"
    using assms(3) r0(3) [of parse "Some ns"] by (cases "occupy_nodes parse ns r0") (auto simp: bind_out_Ret_iff)
  note marks = occupy_nodes_marks [OF r0(1) _ occ]
  have "adds_nodes (nets_at parse ns) r0 (snd (occupy_nodes parse ns r0))"
    using assms(2) by (intro occupy_nodes_adds [OF r0(1)]) auto
  then have via: "ra_via grows r0 r" and ad: "adds (nets_at parse ns i) (ra_cidrSets r0 ! i) (ra_cidrSets r ! i)"
    using occ assms(4) by (auto simp: adds_nodes_def ra_via_nth)
  have i: "i < length (ra_cidrSets r0)" using via assms(4) by (simp add: ra_via_nth)
  have same: "same_blocks (ra_cidrSets r0 ! i) (ra_cidrSets r ! i)" using ad by (simp add: adds_def)
  have "reserved c (ra_cidrSets r ! i)" if "c \<in> service_cidrs params" for c
    using reserved_grows [OF _ same] r0(2) that via i by (simp add: ra_via_nth)
  moreover have "reserved n (ra_cidrSets r ! i)" if "n \<in> nets_at parse ns i" for n
    using marks assms(2) that unfolding nets_at_def by fastforce
  moreover have "used_set (ra_cidrSets r ! i) \<subseteq> (\<Union>c\<in>service_cidrs params \<union> nets_at parse ns i. hits (nth_block (ra_cidrSets r ! i)) (capacity (ra_cidrSets r ! i)) c)"
    using ad start_services [OF assms(1) new i] same_blocksD(2,3) [OF same] by (auto simp: adds_def service_blocks_def)
  ultimately show ?thesis by (fastforce simp: reserved_def hits_def)
qed

theorem restart_recovers_witness:
  "\<exists>r. NewCIDRRangeAllocator ParseCIDR demo_params (Some [whole_node]) = Ret r \<and>
    used_set (ra_cidrSets r ! 1) = {j. j < capacity (ra_cidrSets r ! 1) \<and>
      (\<exists>c\<in>service_cidrs demo_params \<union> nets_at ParseCIDR [whole_node] 1. overlap (nth_block (ra_cidrSets r ! 1) j) c)}"
proof -
  obtain s where new: "NewCIDRRangeAllocator ParseCIDR demo_params (Some [whole_node]) = Ret (demo_ra\<lparr>ra_cidrSets := [s, demo_set6]\<rparr>)"
    by (rule demo_started)
  show ?thesis
    by (rule exI, rule conjI [OF new]) (rule restart_recovers [OF demo_params_ok _ new], use whole_node_parse(2) in simp_all)
qed

end
