(* ===== verification/NodeNetwork.thy ===== *)
theory NodeNetwork
  imports K8sApi "HOL-Library.Char_ord" "HOL-Library.List_Lexorder" "HOL-Library.Product_Lexorder"
begin

text \<open>
  The addresses of a node: the choice of dual-stack addresses (\<^verbatim>\<open>pkg/utils/net\<close>), the discovery of
  public addresses and CIDRs on the interfaces that Talos reports (\<^verbatim>\<open>pkg/talosclient\<close>,
  \<^verbatim>\<open>pkg/talos/helper.go\<close>), and the address list of a \<^verbatim>\<open>v1.Node\<close> (\<^verbatim>\<open>pkg/utils/node\<close>).
\<close>

section \<open>Package utils/net\<close>

text \<open>The first element other than \<^verbatim>\<open>nodeIP\<close>, as a list of at most one.\<close>

fun first_other :: "string \<Rightarrow> string list \<Rightarrow> string list" where
  "first_other nodeIP [] = []"
| "first_other nodeIP (ip # ips) = (if ip \<noteq> nodeIP then [ip] else first_other nodeIP ips)"

definition SortedNodeIPs :: "string \<Rightarrow> string list \<Rightarrow> string list \<Rightarrow> string list" where
  "SortedNodeIPs nodeIP first second = first_other nodeIP (sort first) @ first_other nodeIP (sort second)"

text \<open>One pass of the loop of \<^verbatim>\<open>PreferredDualStackNodeIPs\<close> on \<^verbatim>\<open>(ipv6, ipv4)\<close>.\<close>

definition prefer_step :: "string \<Rightarrow> string \<times> string \<Rightarrow> string \<times> string" where
  "prefer_step ip acc =
     (case acc of (ipv6, ipv4) \<Rightarrow>
      case ParseAddr ip of
        None \<Rightarrow> acc
      | Some nip \<Rightarrow>
          if Is6 nip then (if ipv6 = '''' then (addr_String nip, ipv4) else acc)
          else (if ipv4 = '''' then (ipv6, addr_String nip) else acc))"

definition PreferredDualStackNodeIPs :: "bool \<Rightarrow> string list \<Rightarrow> string list" where
  "PreferredDualStackNodeIPs preferIPv6 ips =
     (case fold prefer_step ips ('''', '''') of (ipv6, ipv4) \<Rightarrow>
      if preferIPv6 then (if ipv6 \<noteq> '''' then [ipv6] else []) @ (if ipv4 \<noteq> '''' then [ipv4] else [])
      else (if ipv4 \<noteq> '''' then [ipv4] else []) @ (if ipv6 \<noteq> '''' then [ipv6] else []))"

text \<open>\<^verbatim>\<open>FilterIPs\<close> of \<^verbatim>\<open>siderolabs/net\<close> is a parameter.\<close>

definition FilterLocalNetIPs :: "(Addr list \<Rightarrow> string list \<Rightarrow> go_err + Addr list) \<Rightarrow> Addr list \<Rightarrow> go_err + Addr list" where
  "FilterLocalNetIPs FilterIPs ips = FilterIPs ips [''10.0.0.0/8'', ''172.16.0.0/12'', ''192.168.0.0/16'', ''fd00::/8'']"

section \<open>Discovery on the interfaces\<close>

record AddressStatusSpec =
  if_LinkName :: string
  if_Address :: Prefix
  if_Flags :: u32

definition AddressPermanent :: u32 where
  "AddressPermanent = 0x80"

text \<open>The links that carry no address of the node itself: the two discoveries differ in Cilium's.\<close>

definition helper_skips :: "string \<Rightarrow> bool" where
  "helper_skips link \<longleftrightarrow> link = ''kubespan'' \<or> link = ''siderolink'' \<or> link = ''lo'' \<or> link = ''cilium_host'' \<or> HasPrefix link ''dummy''"

definition client_skips :: "string \<Rightarrow> bool" where
  "client_skips link \<longleftrightarrow> link = ''kubespan'' \<or> link = ''siderolink'' \<or> link = ''lo'' \<or> HasPrefix link ''cilium'' \<or> HasPrefix link ''dummy''"

text \<open>The loop body that both discoveries of addresses share.\<close>

definition discover_step :: "(string \<Rightarrow> bool) \<Rightarrow> string list \<Rightarrow> AddressStatusSpec \<Rightarrow> string list \<times> string list \<Rightarrow> string list \<times> string list" where
  "discover_step skips nodeIPs iface acc =
     (case acc of (publicIPv4s, publicIPv6s) \<Rightarrow>
      if skips (if_LinkName iface) then acc
      else let ip = pfx_Addr (if_Address iface) in
        if IsGlobalUnicast ip \<and> \<not> IsPrivate ip then
          if addr_String ip \<in> set nodeIPs then acc
          else if Is6 ip then
            if if_Flags iface AND AddressPermanent \<noteq> 0 then (publicIPv4s, addr_String ip # publicIPv6s)
            else (publicIPv4s, publicIPv6s @ [addr_String ip])
          else (publicIPv4s @ [addr_String ip], publicIPv6s)
        else acc)"

definition ipDiscovery :: "string list \<Rightarrow> AddressStatusSpec list \<Rightarrow> string list \<times> string list" where
  "ipDiscovery nodeIPs ifaces = fold (discover_step helper_skips nodeIPs) ifaces ([], [])"

definition NodeIPDiscovery :: "string list \<Rightarrow> AddressStatusSpec list \<Rightarrow> string list \<times> string list" where
  "NodeIPDiscovery nodeIPs ifaces = fold (discover_step client_skips nodeIPs) ifaces ([], [])"

text \<open>The first loop of \<^verbatim>\<open>NodeCIDRDiscovery\<close>, on \<^verbatim>\<open>(publicCIDRv4s, v6Prefixes)\<close>.\<close>

definition cidr_step :: "Addr list \<Rightarrow> AddressStatusSpec \<Rightarrow> string list \<times> Prefix list \<Rightarrow> string list \<times> Prefix list" where
  "cidr_step filterIPs iface acc =
     (case acc of (publicCIDRv4s, v6Prefixes) \<Rightarrow>
      if client_skips (if_LinkName iface) then acc
      else let ip = pfx_Addr (if_Address iface) in
        if IsGlobalUnicast ip \<and> \<not> IsPrivate ip \<and> (filterIPs = [] \<or> ip \<in> set filterIPs) then
          if Is6 ip then
            if \<not> pfx_IsValid (if_Address iface) then acc
            else if if_Address iface \<in> set v6Prefixes then acc
            else (publicCIDRv4s, v6Prefixes @ [if_Address iface])
          else (publicCIDRv4s @ [pfx_String (if_Address iface)], v6Prefixes)
        else acc)"

text \<open>\<^verbatim>\<open>Addr.Compare\<close> as a key: the family, the number, the zone.\<close>

fun addr_key :: "Addr \<Rightarrow> int \<times> nat \<times> string" where
  "addr_key AddrZero = (0, 0, [])"
| "addr_key (Addr4 w) = (32, unat w, [])"
| "addr_key (Addr6 w z) = (128, unat w, z)"

definition prefix_key :: "Prefix \<Rightarrow> int \<times> int \<times> nat \<times> string" where
  "prefix_key p = (pfx_Bits p, addr_key (pfx_Addr p))"

text \<open>Whether another, shorter prefix of the list contains the prefix.\<close>

definition contained_in :: "Prefix list \<Rightarrow> Prefix \<Rightarrow> bool" where
  "contained_in ps p \<longleftrightarrow> list_ex (\<lambda>q. pfx_Bits q < pfx_Bits p \<and> pfx_Contains q (pfx_Addr p)) ps"

definition NodeCIDRDiscovery :: "Addr list \<Rightarrow> AddressStatusSpec list \<Rightarrow> string list \<times> string list" where
  "NodeCIDRDiscovery filterIPs ifaces =
     (case fold (cidr_step filterIPs) ifaces ([], []) of (publicCIDRv4s, v6Prefixes) \<Rightarrow>
      let sorted6 = sort_key prefix_key v6Prefixes
      in (publicCIDRv4s, map pfx_String (filter (\<lambda>p. \<not> contained_in sorted6 p) sorted6)))"

section \<open>The addresses of a node\<close>

definition external_step :: "string list \<Rightarrow> AddressStatusSpec \<Rightarrow> string list \<times> string list \<Rightarrow> string list \<times> string list" where
  "external_step nodeIPs iface acc =
     (case acc of (publicIPv4s, publicIPv6s) \<Rightarrow>
      if if_LinkName iface = ''external'' then
        let ip = pfx_Addr (if_Address iface) in
        if addr_String ip \<in> set nodeIPs then acc
        else if Is6 ip then (publicIPv4s, publicIPv6s @ [addr_String ip])
        else (publicIPv4s @ [addr_String ip], publicIPv6s)
      else acc)"

text \<open>The features are nil or hold the flag of public address discovery.\<close>

definition getNodeAddresses :: "bool \<Rightarrow> string \<Rightarrow> bool option \<Rightarrow> string list \<Rightarrow> AddressStatusSpec list \<Rightarrow> NodeAddress list" where
  "getNodeAddresses preferIPv6 platform features nodeIPs ifaces =
     (let (v4, v6) = (if platform \<in> {''nocloud'', ''metal'', ''openstack'', ''oracle''} then ipDiscovery nodeIPs ifaces
                      else fold (external_step nodeIPs) ifaces ([], []));
          (v4', v6') = (if features = Some True then (v4 @ fst (ipDiscovery nodeIPs ifaces), v6 @ snd (ipDiscovery nodeIPs ifaces))
                        else (v4, v6))
      in map (\<lambda>ip. \<lparr>addr_Type = ''InternalIP'', addr_Address = ip\<rparr>) (PreferredDualStackNodeIPs preferIPv6 nodeIPs) @
         map (\<lambda>ip. \<lparr>addr_Type = ''ExternalIP'', addr_Address = ip\<rparr>) (PreferredDualStackNodeIPs preferIPv6 (v4' @ v6')))"

abbreviation "AnnotationAlphaProvidedIPAddr \<equiv> ''alpha.kubernetes.io/provided-node-ip''"

fun status_ips :: "NodeAddress list \<Rightarrow> Addr list \<Rightarrow> go_err + Addr list" where
  "status_ips [] nodeIPs = Inr nodeIPs"
| "status_ips (v # vs) nodeIPs =
     (if addr_Type v \<noteq> ''ExternalIP'' \<and> addr_Type v \<noteq> ''InternalIP'' then status_ips vs nodeIPs
      else case ParseAddr (addr_Address v) of
        None \<Rightarrow> Inl (Errorf ''failed to parse IP address'')
      | Some ip \<Rightarrow> status_ips vs (nodeIPs @ [ip]))"

fun provided_ips :: "string list \<Rightarrow> Addr list \<Rightarrow> go_err + Addr list" where
  "provided_ips [] nodeIPs = Inr nodeIPs"
| "provided_ips (p # ps) nodeIPs =
     (case ParseAddr p of
        None \<Rightarrow> Inl (Errorf ''failed to parse IP address'')
      | Some ip \<Rightarrow> provided_ips ps (if ip \<in> set nodeIPs then nodeIPs else nodeIPs @ [ip]))"

definition GetNodeIPs :: "Node option \<Rightarrow> go_err + Addr list" where
  "GetNodeIPs node =
     (case node of
        None \<Rightarrow> Inl (Errorf ''node is nil'')
      | Some n \<Rightarrow>
          let providedIPs = (case node_Annotations n AnnotationAlphaProvidedIPAddr of None \<Rightarrow> [] | Some s \<Rightarrow> Split (CHR '','') s)
          in case status_ips (status_Addresses n) [] of
               Inl e \<Rightarrow> Inl e
             | Inr nodeIPs \<Rightarrow> provided_ips providedIPs nodeIPs)"

section \<open>Facts: the dual-stack choice\<close>

definition plain_addr :: "Addr \<Rightarrow> bool" where
  "plain_addr a = (case a of AddrZero \<Rightarrow> False | Addr4 w \<Rightarrow> True | Addr6 w z \<Rightarrow> z = [] \<and> \<not> is4in6 w)"

lemma ParseAddr_plain: "plain_addr a \<Longrightarrow> ParseAddr (addr_String a) = Some a"
  by (rule ParseAddr_String) (simp add: plain_addr_def)

text \<open>The first address of a family in a list of texts, as it prints.\<close>

definition of_family :: "bool \<Rightarrow> string \<Rightarrow> string list" where
  "of_family v6 ip = (case ParseAddr ip of None \<Rightarrow> [] | Some a \<Rightarrow> if Is6 a = v6 then [addr_String a] else [])"

definition first_of :: "bool \<Rightarrow> string list \<Rightarrow> string list" where
  "first_of v6 ips = take 1 (concat (map (of_family v6) ips))"

lemma addr_String_not_empty [simp]: "addr_String a \<noteq> []"
proof (cases a)
  case (Addr4 w)
  have "show4 w \<noteq> []" using parse4_show4 [of w] by (auto simp: parse4_def parse_octet_def)
  then show ?thesis using Addr4 by simp
next
  case (Addr6 w z)
  then show ?thesis using show6_colon [of w] by auto
qed simp

lemma first_of_Nil [simp]: "first_of v6 [] = []"
  by (simp add: first_of_def)

lemma first_of_Cons:
  "first_of v6 (ip # ips) = (if of_family v6 ip = [] then first_of v6 ips else of_family v6 ip)"
  by (auto simp: first_of_def of_family_def split: option.splits if_splits)

lemma of_family_cases: "of_family v6 ip = [] \<or> (\<exists>a. ParseAddr ip = Some a \<and> Is6 a = v6 \<and> of_family v6 ip = [addr_String a])"
  by (auto simp: of_family_def split: option.splits)

lemma prefer_step_eq:
  "prefer_step ip (s6, s4) =
    ((if s6 = [] then concat (of_family True ip) else s6), (if s4 = [] then concat (of_family False ip) else s4))"
  by (simp add: prefer_step_def of_family_def split: option.splits)

lemma prefer_fold:
  "fold prefer_step ips (s6, s4) =
    ((if s6 = [] then concat (first_of True ips) else s6), (if s4 = [] then concat (first_of False ips) else s4))"
proof (induction ips arbitrary: s6 s4)
  case (Cons ip ips)
  show ?case
    using of_family_cases [of True ip] of_family_cases [of False ip]
    by (auto simp: Cons prefer_step_eq first_of_Cons)
qed simp

lemma first_of_cases:
  "first_of v6 ips = [] \<or> (\<exists>ip a. ip \<in> set ips \<and> ParseAddr ip = Some a \<and> Is6 a = v6 \<and> first_of v6 ips = [addr_String a])"
proof (induction ips)
  case (Cons ip ips)
  then show ?case using of_family_cases [of v6 ip] by (auto simp: first_of_Cons)
qed simp

lemma PreferredDualStackNodeIPs_eq:
  "PreferredDualStackNodeIPs p ips = (if p then first_of True ips @ first_of False ips else first_of False ips @ first_of True ips)"
proof -
  have "(if concat (first_of v ips) \<noteq> [] then [concat (first_of v ips)] else []) = first_of v ips" for v
    using first_of_cases [of v ips] by auto
  then show ?thesis by (simp add: PreferredDualStackNodeIPs_def prefer_fold)
qed

section \<open>Facts: discovery of addresses\<close>

definition public_addr :: "Addr \<Rightarrow> bool" where
  "public_addr a \<longleftrightarrow> IsGlobalUnicast a \<and> \<not> IsPrivate a"

definition candidate :: "(string \<Rightarrow> bool) \<Rightarrow> string list \<Rightarrow> AddressStatusSpec \<Rightarrow> bool" where
  "candidate skips nodeIPs f \<longleftrightarrow> \<not> skips (if_LinkName f) \<and> public_addr (pfx_Addr (if_Address f)) \<and>
     addr_String (pfx_Addr (if_Address f)) \<notin> set nodeIPs"

abbreviation iface_addr :: "AddressStatusSpec \<Rightarrow> Addr" where "iface_addr f \<equiv> pfx_Addr (if_Address f)"
abbreviation iface_text :: "AddressStatusSpec \<Rightarrow> string" where "iface_text f \<equiv> addr_String (iface_addr f)"

definition permanent :: "AddressStatusSpec \<Rightarrow> bool" where
  "permanent f \<longleftrightarrow> if_Flags f AND AddressPermanent \<noteq> 0"

lemma discover_step_eq:
  "discover_step skips nodeIPs f (v4, v6) =
    (if candidate skips nodeIPs f then
       if Is6 (iface_addr f) then
         if permanent f then (v4, iface_text f # v6) else (v4, v6 @ [iface_text f])
       else (v4 @ [iface_text f], v6)
     else (v4, v6))"
  by (simp add: discover_step_def candidate_def public_addr_def permanent_def Let_def)

lemma discover_fold:
  "fold (discover_step skips nodeIPs) fs (v4, v6) =
   (v4 @ map iface_text (filter (\<lambda>f. candidate skips nodeIPs f \<and> \<not> Is6 (iface_addr f)) fs),
    rev (map iface_text (filter (\<lambda>f. candidate skips nodeIPs f \<and> Is6 (iface_addr f) \<and> permanent f) fs)) @ v6 @
    map iface_text (filter (\<lambda>f. candidate skips nodeIPs f \<and> Is6 (iface_addr f) \<and> \<not> permanent f) fs))"
proof (induction fs arbitrary: v4 v6)
  case (Cons f fs)
  show ?case by (simp add: Cons discover_step_eq)
qed simp

section \<open>Facts: discovery of CIDRs\<close>

definition eligible :: "Addr list \<Rightarrow> AddressStatusSpec \<Rightarrow> bool" where
  "eligible filterIPs f \<longleftrightarrow> \<not> client_skips (if_LinkName f) \<and> public_addr (iface_addr f) \<and>
     (filterIPs = [] \<or> iface_addr f \<in> set filterIPs)"

definition v6_prefixes :: "Addr list \<Rightarrow> AddressStatusSpec list \<Rightarrow> Prefix set" where
  "v6_prefixes filterIPs fs = if_Address ` {f \<in> set fs. eligible filterIPs f \<and> Is6 (iface_addr f) \<and> pfx_IsValid (if_Address f)}"

lemma cidr_fold:
  assumes "fold (cidr_step filterIPs) fs (v4, ps) = (v4', ps')" and "distinct ps"
  shows "v4' = v4 @ map (\<lambda>f. pfx_String (if_Address f)) (filter (\<lambda>f. eligible filterIPs f \<and> \<not> Is6 (iface_addr f)) fs)"
    and "set ps' = set ps \<union> v6_prefixes filterIPs fs" and "distinct ps'"
proof -
  have "v4' = v4 @ map (\<lambda>f. pfx_String (if_Address f)) (filter (\<lambda>f. eligible filterIPs f \<and> \<not> Is6 (iface_addr f)) fs) \<and>
     set ps' = set ps \<union> v6_prefixes filterIPs fs \<and> distinct ps'"
    using assms
  proof (induction fs arbitrary: v4 ps)
    case (Cons f fs)
    obtain v4a psa where step: "cidr_step filterIPs f (v4, ps) = (v4a, psa)" by (cases "cidr_step filterIPs f (v4, ps)")
    have d: "distinct psa" and s: "set psa = set ps \<union> v6_prefixes filterIPs [f]"
      and v: "v4a = v4 @ map (\<lambda>f. pfx_String (if_Address f)) (filter (\<lambda>f. eligible filterIPs f \<and> \<not> Is6 (iface_addr f)) [f])"
      using step Cons(3) by (auto simp: cidr_step_def eligible_def public_addr_def v6_prefixes_def Let_def split: if_splits)
    have "v6_prefixes filterIPs (f # fs) = v6_prefixes filterIPs [f] \<union> v6_prefixes filterIPs fs"
      by (auto simp: v6_prefixes_def)
    then show ?case using Cons(1) [of v4a psa] Cons(2) step d s v by auto
  qed (simp add: v6_prefixes_def)
  then show "v4' = v4 @ map (\<lambda>f. pfx_String (if_Address f)) (filter (\<lambda>f. eligible filterIPs f \<and> \<not> Is6 (iface_addr f)) fs)"
    and "set ps' = set ps \<union> v6_prefixes filterIPs fs" and "distinct ps'" by blast+
qed

text \<open>Containment of prefixes, on the addresses.\<close>

lemma pfx_Contains6:
  assumes "0 \<le> b" "b \<le> 128"
  shows "pfx_Contains (Prefix (Addr6 w z) b) (Addr6 a y) \<longleftrightarrow> y = [] \<and> a \<in> net_addrs w (nat b)"
proof -
  have "(w XOR a) AND prefix_mask (nat b) = 0 \<longleftrightarrow> w AND prefix_mask (nat b) = a AND prefix_mask (nat b)"
    by (auto simp: bit_eq_iff bit_simps)
  then show ?thesis
    using assms by (simp add: pfx_Contains_def pfx_IsValid_def and_prefix_mask_eq_iff)
qed

text \<open>Contained in a contained prefix is contained: the shorter prefix has the larger network.\<close>

lemma contains_trans:
  assumes "pfx_Contains r (pfx_Addr q)" and "pfx_Bits r \<le> pfx_Bits q" and "pfx_Contains q a" and "Is6 a" 
  shows "pfx_Contains r a"
proof -
  obtain w y where a: "a = Addr6 w y" using assms(4) by (cases a) auto
  obtain v z b where q: "q = Prefix (Addr6 v z) b" using assms(3) a by (cases q; cases "pfx_Addr q") (auto simp: pfx_Contains_def)
  obtain u x c where r: "r = Prefix (Addr6 u x) c" using assms(1) q by (cases r; cases "pfx_Addr r") (auto simp: pfx_Contains_def)
  have b: "0 \<le> b" "b \<le> 128" and c: "0 \<le> c" "c \<le> 128"
    using assms(1,3) q r by (auto simp: pfx_Contains_def pfx_IsValid_def)
  have "v \<in> net_addrs u (nat c)" using assms(1) q r c by (simp add: pfx_Contains6)
  moreover have "w \<in> net_addrs v (nat b)" "y = []" using assms(3) q a b by (simp_all add: pfx_Contains6)
  moreover have "net_addrs v (nat b) \<subseteq> net_addrs v (nat c)"
    using assms(2) q r b by (intro net_addrs_mono) (auto simp: nat_mono)
  ultimately show ?thesis
    using r a c net_addrs_cong [of v u "nat c"] by (auto simp: pfx_Contains6)
qed

lemma contains_self:
  assumes "pfx_IsValid p" and "pfx_Addr p = Addr6 w []"
  shows "pfx_Contains p (pfx_Addr p)"
  using assms by (simp add: pfx_Contains_def)

text \<open>Every prefix of a set lies in one that no shorter one contains.\<close>

lemma covered:
  assumes "\<forall>p \<in> P. pfx_IsValid p \<and> (\<exists>w. pfx_Addr p = Addr6 w [])" and "p \<in> P"
  shows "\<exists>q \<in> P. \<not> (\<exists>r \<in> P. pfx_Bits r < pfx_Bits q \<and> pfx_Contains r (pfx_Addr q)) \<and>
    pfx_Bits q \<le> pfx_Bits p \<and> pfx_Contains q (pfx_Addr p)"
  using assms(2)
proof (induction "nat (pfx_Bits p)" arbitrary: p rule: less_induct)
  case less
  have v: "0 \<le> pfx_Bits p" and "Is6 (pfx_Addr p)" and self: "pfx_Contains p (pfx_Addr p)"
    using assms(1) less(2) contains_self by (auto simp: pfx_IsValid_def)
  show ?case
  proof (cases "\<exists>r \<in> P. pfx_Bits r < pfx_Bits p \<and> pfx_Contains r (pfx_Addr p)")
    case False
    then show ?thesis using less(2) self by blast
  next
    case True
    then obtain r where r: "r \<in> P" "pfx_Bits r < pfx_Bits p" "pfx_Contains r (pfx_Addr p)" by blast
    have "0 \<le> pfx_Bits r" using assms(1) r(1) by (auto simp: pfx_IsValid_def)
    then have "nat (pfx_Bits r) < nat (pfx_Bits p)" using r(2) by simp
    from less(1) [OF this r(1)] obtain q where q: "q \<in> P" "pfx_Bits q \<le> pfx_Bits r" "pfx_Contains q (pfx_Addr r)"
      "\<not> (\<exists>s \<in> P. pfx_Bits s < pfx_Bits q \<and> pfx_Contains s (pfx_Addr q))" by blast
    have "pfx_Contains q (pfx_Addr p)"
      by (rule contains_trans [OF q(3,2) r(3)]) (rule \<open>Is6 (pfx_Addr p)\<close>)
    then show ?thesis using q r(2) by (intro bexI [OF _ q(1)]) auto
  qed
qed

lemma addr_key_inj: "addr_key a = addr_key b \<Longrightarrow> a = b"
  by (cases a; cases b) (auto dest: unsigned_word_eqI)

lemma prefix_key_inj: "inj_on prefix_key A"
  by (rule inj_onI) (auto simp: prefix_key_def intro!: Prefix.expand addr_key_inj)

definition sorted_prefixes :: "Addr list \<Rightarrow> AddressStatusSpec list \<Rightarrow> Prefix list" where
  "sorted_prefixes filterIPs fs = sort_key prefix_key (snd (fold (cidr_step filterIPs) fs ([], [])))"

lemma sorted_prefixes:
  "set (sorted_prefixes filterIPs fs) = v6_prefixes filterIPs fs" "distinct (sorted_prefixes filterIPs fs)"
  "sorted (map prefix_key (sorted_prefixes filterIPs fs))"
proof -
  obtain v4 ps where f: "fold (cidr_step filterIPs) fs ([], []) = (v4, ps)" by (cases "fold (cidr_step filterIPs) fs ([], [])")
  show "set (sorted_prefixes filterIPs fs) = v6_prefixes filterIPs fs" "distinct (sorted_prefixes filterIPs fs)"
    "sorted (map prefix_key (sorted_prefixes filterIPs fs))"
    using cidr_fold(2,3) [OF f] by (simp_all add: sorted_prefixes_def f)
qed

lemma NodeCIDRDiscovery_v6:
  "snd (NodeCIDRDiscovery filterIPs fs) =
     map pfx_String (filter (\<lambda>p. \<not> contained_in (sorted_prefixes filterIPs fs) p) (sorted_prefixes filterIPs fs))"
  by (simp add: NodeCIDRDiscovery_def sorted_prefixes_def Let_def split_def)

section \<open>Properties\<close>

text \<open>
  C17: \<^verbatim>\<open>NodeCIDRDiscovery\<close> returns, shortest prefix first and each once, exactly those IPv6 prefixes of the
  node's public interfaces that no shorter one of them contains, and every prefix of the interfaces
  lies in a returned one.
\<close>

theorem NodeCIDRDiscovery_maximal:
  assumes "\<forall>f \<in> set ifaces. case iface_addr f of Addr6 w z \<Rightarrow> z = [] | _ \<Rightarrow> True"
  shows "\<exists>ps. snd (NodeCIDRDiscovery filterIPs ifaces) = map pfx_String ps \<and> distinct ps \<and> sorted (map pfx_Bits ps) \<and>
    set ps = {p \<in> v6_prefixes filterIPs ifaces.
                \<not> (\<exists>q \<in> v6_prefixes filterIPs ifaces. pfx_Bits q < pfx_Bits p \<and> pfx_Contains q (pfx_Addr p))} \<and>
    (\<forall>p \<in> v6_prefixes filterIPs ifaces. \<exists>q \<in> set ps. pfx_Bits q \<le> pfx_Bits p \<and> pfx_Contains q (pfx_Addr p))"
proof -
  let ?V = "v6_prefixes filterIPs ifaces"
  let ?s = "sorted_prefixes filterIPs ifaces"
  let ?ps = "filter (\<lambda>p. \<not> contained_in ?s p) ?s"
  have V: "\<forall>p \<in> ?V. pfx_IsValid p \<and> (\<exists>w. pfx_Addr p = Addr6 w [])"
  proof
    fix p assume "p \<in> ?V"
    then obtain f where f: "f \<in> set ifaces" "p = if_Address f" "Is6 (iface_addr f)" "pfx_IsValid p"
      by (auto simp: v6_prefixes_def)
    then show "pfx_IsValid p \<and> (\<exists>w. pfx_Addr p = Addr6 w [])"
      using assms by (cases "iface_addr f") auto
  qed
  have set: "set ?ps = {p \<in> ?V. \<not> (\<exists>q \<in> ?V. pfx_Bits q < pfx_Bits p \<and> pfx_Contains q (pfx_Addr p))}"
    by (auto simp: contained_in_def list_ex_iff sorted_prefixes(1))
  have "sorted (map fst (map prefix_key ?s))"
    by (rule sorted_map_mono [OF sorted_prefixes(3)]) (auto simp: mono_on_def less_eq_prod_def)
  then have "sorted (map pfx_Bits ?s)" by (simp add: prefix_key_def comp_def)
  then have "sorted (map pfx_Bits ?ps)" by (rule sorted_filter)
  moreover have "\<forall>p \<in> ?V. \<exists>q \<in> set ?ps. pfx_Bits q \<le> pfx_Bits p \<and> pfx_Contains q (pfx_Addr p)"
    unfolding set using covered [OF V] by blast
  moreover have "distinct ?ps" by (rule distinct_filter) (rule sorted_prefixes(2))
  ultimately show ?thesis using set NodeCIDRDiscovery_v6 by (intro exI [of _ ?ps] conjI)
qed

text \<open>
  The IPv6 CIDRs that \<^verbatim>\<open>NodeCIDRDiscovery\<close> returns do not depend on the order in which the
  interfaces are listed, nor on repetitions.
\<close>

theorem NodeCIDRDiscovery_order:
  assumes "set ifaces = set ifaces'"
  shows "snd (NodeCIDRDiscovery filterIPs ifaces) = snd (NodeCIDRDiscovery filterIPs ifaces')"
proof -
  have "v6_prefixes filterIPs ifaces = v6_prefixes filterIPs ifaces'"
    using assms by (simp add: v6_prefixes_def)
  then have "set (sorted_prefixes filterIPs ifaces) = set (sorted_prefixes filterIPs ifaces')"
    by (simp add: sorted_prefixes(1))
  then have "sorted_prefixes filterIPs ifaces = sorted_prefixes filterIPs ifaces'"
    by (intro map_sorted_distinct_set_unique [OF prefix_key_inj])
      (simp_all add: sorted_prefixes distinct_map prefix_key_inj)
  then show ?thesis by (simp add: NodeCIDRDiscovery_v6)
qed

text \<open>
  Address discovery is the filter it means to be: the public addresses of the links that are not
  skipped, without the node's known addresses; IPv4 in the order of the interfaces, and of the IPv6
  addresses the permanent ones first (the last one listed in front), then the others in order.
\<close>

theorem ipDiscovery_filters:
  "ipDiscovery nodeIPs ifaces =
    (map iface_text (filter (\<lambda>f. candidate helper_skips nodeIPs f \<and> \<not> Is6 (iface_addr f)) ifaces),
     rev (map iface_text (filter (\<lambda>f. candidate helper_skips nodeIPs f \<and> Is6 (iface_addr f) \<and> permanent f) ifaces)) @
     map iface_text (filter (\<lambda>f. candidate helper_skips nodeIPs f \<and> Is6 (iface_addr f) \<and> \<not> permanent f) ifaces))"
  by (simp add: ipDiscovery_def discover_fold)

lemma external_step_eq:
  "external_step nodeIPs f (v4, v6) =
    (if if_LinkName f = ''external'' \<and> iface_text f \<notin> set nodeIPs then
       if Is6 (iface_addr f) then (v4, v6 @ [iface_text f]) else (v4 @ [iface_text f], v6)
     else (v4, v6))"
  by (simp add: external_step_def Let_def)

text \<open>
  The entries that may give a node an external address of a family: an address that the node does not list itself,
  of the link \<^verbatim>\<open>external\<close> on the platforms that publish it there; a public one of any link that is not skipped on
  the other four platforms, or if public address discovery is on.
\<close>

abbreviation discovery_platforms :: "string set" where
  "discovery_platforms \<equiv> {''nocloud'', ''metal'', ''openstack'', ''oracle''}"

definition offers :: "string \<Rightarrow> bool option \<Rightarrow> string list \<Rightarrow> bool \<Rightarrow> AddressStatusSpec \<Rightarrow> bool" where
  "offers platform features nodeIPs v6 f \<longleftrightarrow> Is6 (iface_addr f) = v6 \<and> iface_text f \<notin> set nodeIPs \<and>
     ((platform \<in> discovery_platforms \<or> features = Some True) \<and> \<not> helper_skips (if_LinkName f) \<and> public_addr (iface_addr f) \<or>
      platform \<notin> discovery_platforms \<and> if_LinkName f = ''external'')"

text \<open>The same entries in the order in which the code looks at them.\<close>

definition public_ifaces :: "string list \<Rightarrow> bool \<Rightarrow> AddressStatusSpec list \<Rightarrow> AddressStatusSpec list" where
  "public_ifaces nodeIPs v6 fs =
     (if v6 then rev (filter (\<lambda>f. candidate helper_skips nodeIPs f \<and> Is6 (iface_addr f) \<and> permanent f) fs) @
                 filter (\<lambda>f. candidate helper_skips nodeIPs f \<and> Is6 (iface_addr f) \<and> \<not> permanent f) fs
      else filter (\<lambda>f. candidate helper_skips nodeIPs f \<and> \<not> Is6 (iface_addr f)) fs)"

definition link_ifaces :: "string list \<Rightarrow> bool \<Rightarrow> AddressStatusSpec list \<Rightarrow> AddressStatusSpec list" where
  "link_ifaces nodeIPs v6 = filter (\<lambda>f. if_LinkName f = ''external'' \<and> iface_text f \<notin> set nodeIPs \<and> Is6 (iface_addr f) = v6)"

definition external_choices :: "string \<Rightarrow> bool option \<Rightarrow> string list \<Rightarrow> bool \<Rightarrow> AddressStatusSpec list \<Rightarrow> AddressStatusSpec list" where
  "external_choices platform features nodeIPs v6 fs =
     (if platform \<in> discovery_platforms then public_ifaces nodeIPs v6 fs else link_ifaces nodeIPs v6 fs) @
     (if features = Some True then public_ifaces nodeIPs v6 fs else [])"

lemma external_choices_set:
  "set (external_choices platform features nodeIPs v6 fs) = {f \<in> set fs. offers platform features nodeIPs v6 f}"
  by (auto simp: external_choices_def public_ifaces_def link_ifaces_def offers_def candidate_def)

lemma external_fold:
  "fold (external_step nodeIPs) fs (v4, v6) =
    (v4 @ map iface_text (link_ifaces nodeIPs False fs), v6 @ map iface_text (link_ifaces nodeIPs True fs))"
  by (induction fs arbitrary: v4 v6) (simp_all add: external_step_eq link_ifaces_def)

lemma ipDiscovery_ifaces:
  "ipDiscovery nodeIPs fs = (map iface_text (public_ifaces nodeIPs False fs), map iface_text (public_ifaces nodeIPs True fs))"
  by (simp add: ipDiscovery_def discover_fold public_ifaces_def rev_map)

lemma first_of_texts:
  assumes "\<forall>f \<in> set fs. plain_addr (iface_addr f)"
  shows "first_of v6 (map iface_text fs) = map iface_text (take 1 (filter (\<lambda>f. Is6 (iface_addr f) = v6) fs))"
  using assms by (induction fs) (auto simp: first_of_Cons of_family_def ParseAddr_plain)

lemma first_choice:
  assumes "\<forall>f \<in> set fs. plain_addr (iface_addr f)"
  shows "first_of v6 (map iface_text (external_choices platform features nodeIPs False fs @ external_choices platform features nodeIPs True fs)) =
     map iface_text (take 1 (external_choices platform features nodeIPs v6 fs))"
proof -
  have fam: "filter (\<lambda>f. Is6 (iface_addr f) = v6) (external_choices platform features nodeIPs w fs) =
      (if w = v6 then external_choices platform features nodeIPs w fs else [])" for w
    using external_choices_set [of platform features nodeIPs w fs] by (auto simp: offers_def filter_id_conv filter_empty_conv)
  have "\<forall>f \<in> set (external_choices platform features nodeIPs False fs @ external_choices platform features nodeIPs True fs). plain_addr (iface_addr f)"
    using assms by (auto simp: external_choices_set)
  from first_of_texts [OF this, of v6] show ?thesis unfolding filter_append fam by (cases v6) simp_all
qed

lemma getNodeAddresses_eq:
  assumes "\<forall>f \<in> set ifaces. plain_addr (iface_addr f)"
  shows "getNodeAddresses p platform features nodeIPs ifaces =
    map (\<lambda>ip. \<lparr>addr_Type = ''InternalIP'', addr_Address = ip\<rparr>) (PreferredDualStackNodeIPs p nodeIPs) @
    (let ext = (\<lambda>v6. map iface_text (take 1 (external_choices platform features nodeIPs v6 ifaces))) in
     map (\<lambda>ip. \<lparr>addr_Type = ''ExternalIP'', addr_Address = ip\<rparr>) (if p then ext True @ ext False else ext False @ ext True))"
proof -
  have "getNodeAddresses p platform features nodeIPs ifaces =
    map (\<lambda>ip. \<lparr>addr_Type = ''InternalIP'', addr_Address = ip\<rparr>) (PreferredDualStackNodeIPs p nodeIPs) @
    map (\<lambda>ip. \<lparr>addr_Type = ''ExternalIP'', addr_Address = ip\<rparr>) (PreferredDualStackNodeIPs p
      (map iface_text (external_choices platform features nodeIPs False ifaces @ external_choices platform features nodeIPs True ifaces)))"
    unfolding getNodeAddresses_def external_choices_def by (simp add: external_fold ipDiscovery_ifaces Let_def)
  then show ?thesis
    by (simp only: PreferredDualStackNodeIPs_eq [of p "map iface_text _"] first_choice [OF assms] Let_def)
qed

text \<open>The order of the choices: the link \<^verbatim>\<open>external\<close> before discovered addresses, and permanent IPv6 addresses first.\<close>

lemma external_first:
  assumes "platform \<notin> discovery_platforms" and "offers platform features nodeIPs v6 f" and "f \<in> set fs" and "if_LinkName f = ''external''"
    and "e \<in> set (take 1 (external_choices platform features nodeIPs v6 fs))"
  shows "if_LinkName e = ''external''"
proof -
  have "f \<in> set (link_ifaces nodeIPs v6 fs)" using assms(2-4) by (auto simp: link_ifaces_def offers_def)
  then obtain g gs where g: "link_ifaces nodeIPs v6 fs = g # gs" by (cases "link_ifaces nodeIPs v6 fs") auto
  then have "g \<in> set (link_ifaces nodeIPs v6 fs)" by simp
  then show ?thesis using assms(1,5) g by (auto simp: external_choices_def link_ifaces_def)
qed

lemma permanent_first:
  assumes "platform \<in> discovery_platforms" and "offers platform features nodeIPs True f" and "f \<in> set fs" and "permanent f"
    and "e \<in> set (take 1 (external_choices platform features nodeIPs True fs))"
  shows "permanent e"
proof -
  let ?ps = "rev (filter (\<lambda>f. candidate helper_skips nodeIPs f \<and> Is6 (iface_addr f) \<and> permanent f) fs)"
  have "f \<in> set ?ps" using assms(1-4) by (auto simp: offers_def candidate_def)
  then obtain g gs where g: "?ps = g # gs" by (cases ?ps) auto
  then have "g \<in> set ?ps" by simp
  then have "permanent g" by simp
  then show ?thesis using assms(1,5) g by (simp add: external_choices_def public_ifaces_def)
qed

text \<open>
  C30: The address list of a node: first its internal addresses, the first valid one of each family among
  those the node gives; then at most one external address of each family; both in the preferred order of the
  families. There is an external address of a family exactly if an entry of the interfaces offers one, and it is
  the address of such an entry: of the link \<^verbatim>\<open>external\<close>, if there is one on a platform that publishes the addresses
  there, and a permanent IPv6 address, if there is one on a platform where the public addresses are discovered. It is
  never one of the addresses the node gives. The addresses of the interfaces have to be plain ones: with no zone, and
  not IPv4-mapped.
\<close>

theorem getNodeAddresses_shape:
  assumes "\<forall>f \<in> set ifaces. plain_addr (iface_addr f)"
  shows "\<exists>ext. getNodeAddresses p platform features nodeIPs ifaces =
      map (\<lambda>ip. \<lparr>addr_Type = ''InternalIP'', addr_Address = ip\<rparr>)
        (if p then first_of True nodeIPs @ first_of False nodeIPs else first_of False nodeIPs @ first_of True nodeIPs) @
      map (\<lambda>ip. \<lparr>addr_Type = ''ExternalIP'', addr_Address = ip\<rparr>)
        (map iface_text (if p then ext True @ ext False else ext False @ ext True)) \<and>
    (\<forall>v6. length (ext v6) \<le> 1 \<and>
       (ext v6 = [] \<longleftrightarrow> \<not> (\<exists>f \<in> set ifaces. offers platform features nodeIPs v6 f)) \<and>
       (\<forall>e \<in> set (ext v6). e \<in> set ifaces \<and> offers platform features nodeIPs v6 e) \<and>
       (\<forall>e \<in> set (ext v6). \<forall>f \<in> set ifaces. platform \<notin> discovery_platforms \<longrightarrow> offers platform features nodeIPs v6 f \<longrightarrow>
          if_LinkName f = ''external'' \<longrightarrow> if_LinkName e = ''external'')) \<and>
    (\<forall>e \<in> set (ext True). \<forall>f \<in> set ifaces. platform \<in> discovery_platforms \<longrightarrow> offers platform features nodeIPs True f \<longrightarrow>
       permanent f \<longrightarrow> permanent e)"
proof -
  let ?ext = "\<lambda>v6. take 1 (external_choices platform features nodeIPs v6 ifaces)"
  have "set (?ext v6) \<subseteq> {f \<in> set ifaces. offers platform features nodeIPs v6 f}" for v6
    unfolding external_choices_set [symmetric] by (rule set_take_subset)
  moreover have "?ext v6 = [] \<longleftrightarrow> \<not> (\<exists>f \<in> set ifaces. offers platform features nodeIPs v6 f)" for v6
    using external_choices_set [of platform features nodeIPs v6 ifaces]
    by (cases "external_choices platform features nodeIPs v6 ifaces") auto
  moreover have "getNodeAddresses p platform features nodeIPs ifaces =
      map (\<lambda>ip. \<lparr>addr_Type = ''InternalIP'', addr_Address = ip\<rparr>)
        (if p then first_of True nodeIPs @ first_of False nodeIPs else first_of False nodeIPs @ first_of True nodeIPs) @
      map (\<lambda>ip. \<lparr>addr_Type = ''ExternalIP'', addr_Address = ip\<rparr>)
        (map iface_text (if p then ?ext True @ ?ext False else ?ext False @ ?ext True))"
    unfolding getNodeAddresses_eq [OF assms] PreferredDualStackNodeIPs_eq Let_def by simp
  ultimately show ?thesis
    using external_first permanent_first by (intro exI [of _ ?ext]) (simp, blast)
qed

definition ip_addresses :: "Node \<Rightarrow> string list" where
  "ip_addresses n = map addr_Address (filter (\<lambda>a. addr_Type a \<in> {''ExternalIP'', ''InternalIP''}) (status_Addresses n))"

definition provided_texts :: "Node \<Rightarrow> string list" where
  "provided_texts n = (case node_Annotations n ''alpha.kubernetes.io/provided-node-ip'' of None \<Rightarrow> [] | Some s \<Rightarrow> Split (CHR '','') s)"

lemma status_ips_eq:
  "status_ips vs acc =
    (if \<forall>v \<in> set vs. addr_Type v \<in> {''ExternalIP'', ''InternalIP''} \<longrightarrow> ParseAddr (addr_Address v) \<noteq> None
     then Inr (acc @ map (the \<circ> ParseAddr \<circ> addr_Address) (filter (\<lambda>a. addr_Type a \<in> {''ExternalIP'', ''InternalIP''}) vs))
     else Inl (Errorf ''failed to parse IP address''))"
  by (induction vs arbitrary: acc) (auto split: option.splits)

lemma provided_ips_eq:
  "provided_ips ps acc =
    (if \<forall>p \<in> set ps. ParseAddr p \<noteq> None
     then Inr (fold (\<lambda>ip acc. if ip \<in> set acc then acc else acc @ [ip]) (map (the \<circ> ParseAddr) ps) acc)
     else Inl (Errorf ''failed to parse IP address''))"
  by (induction ps arbitrary: acc) (auto split: option.splits)

lemma fold_add_set: "set (fold (\<lambda>ip acc. if ip \<in> set acc then acc else acc @ [ip]) xs acc) = set acc \<union> set xs"
  by (induction xs arbitrary: acc) auto

lemma fold_add_append: "\<exists>ys. fold (\<lambda>ip acc. if ip \<in> set acc then acc else acc @ [ip]) xs acc = acc @ ys"
proof (induction xs arbitrary: acc)
  case (Cons x xs)
  show ?case using Cons [of acc] Cons [of "acc @ [x]"] by auto
qed simp

text \<open>
  \<^verbatim>\<open>GetNodeIPs\<close> returns the addresses of the node's status in order, followed by those of the
  annotation that are not among them; it fails exactly when one of these texts is not an address.
\<close>

theorem GetNodeIPs_addresses:
  "(case GetNodeIPs (Some n) of
      Inl e \<Rightarrow> \<exists>t \<in> set (ip_addresses n @ provided_texts n). ParseAddr t = None
    | Inr as \<Rightarrow> (\<forall>t \<in> set (ip_addresses n @ provided_texts n). ParseAddr t \<noteq> None) \<and>
        set as = (the \<circ> ParseAddr) ` set (ip_addresses n @ provided_texts n) \<and>
        take (length (ip_addresses n)) as = map (the \<circ> ParseAddr) (ip_addresses n))"
proof -
  let ?ts = "filter (\<lambda>a. addr_Type a \<in> {''ExternalIP'', ''InternalIP''}) (status_Addresses n)"
  let ?ips = "map (the \<circ> ParseAddr) (ip_addresses n)"
  let ?all = "fold (\<lambda>ip acc. if ip \<in> set acc then acc else acc @ [ip]) (map (the \<circ> ParseAddr) (provided_texts n)) ?ips"
  have r: "GetNodeIPs (Some n) = (if \<forall>t \<in> set (ip_addresses n). ParseAddr t \<noteq> None
      then provided_ips (provided_texts n) ?ips else Inl (Errorf ''failed to parse IP address''))"
    by (auto simp: GetNodeIPs_def status_ips_eq ip_addresses_def provided_texts_def Let_def comp_assoc)
  obtain ys where ys: "?all = ?ips @ ys" using fold_add_append by blast
  have "take (length (ip_addresses n)) ?all = ?ips" unfolding ys by simp
  moreover have "set ?all = (the \<circ> ParseAddr) ` set (ip_addresses n) \<union> (the \<circ> ParseAddr) ` set (provided_texts n)"
    by (simp only: fold_add_set set_map)
  ultimately show ?thesis unfolding r provided_ips_eq set_append image_Un by (simp split: if_splits) blast
qed

subsection \<open>Witnesses\<close>

definition demo_ifaces :: "AddressStatusSpec list" where
  "demo_ifaces =
     [\<lparr>if_LinkName = ''eth0'', if_Address = Prefix (Addr6 0x20010db8000100000000000000000001 []) 64, if_Flags = 0x80\<rparr>,
      \<lparr>if_LinkName = ''eth0'', if_Address = Prefix (Addr6 0x20010db8000000000000000000000000 []) 32, if_Flags = 0\<rparr>,
      \<lparr>if_LinkName = ''eth0'', if_Address = Prefix (Addr4 0x08080808) 24, if_Flags = 0x80\<rparr>]"

lemma demo_ifaces_plain: "\<forall>f \<in> set demo_ifaces. plain_addr (iface_addr f)"
  by (simp add: demo_ifaces_def plain_addr_def is4in6_def)

theorem NodeCIDRDiscovery_maximal_witness:
  "\<exists>ps. snd (NodeCIDRDiscovery [] demo_ifaces) = map pfx_String ps \<and>
    Prefix (Addr6 0x20010db8000000000000000000000000 []) 32 \<in> set ps \<and>
    Prefix (Addr6 0x20010db8000100000000000000000001 []) 64 \<notin> set ps"
proof -
  let ?p = "Prefix (Addr6 0x20010db8000000000000000000000000 []) 32"
  let ?q = "Prefix (Addr6 0x20010db8000100000000000000000001 []) 64"
  have "\<forall>f \<in> set demo_ifaces. case iface_addr f of Addr6 w z \<Rightarrow> z = [] | _ \<Rightarrow> True" by (simp add: demo_ifaces_def)
  from NodeCIDRDiscovery_maximal [OF this, of "[]"] obtain ps where ps: "snd (NodeCIDRDiscovery [] demo_ifaces) = map pfx_String ps"
    "set ps = {p \<in> v6_prefixes [] demo_ifaces. \<not> (\<exists>q \<in> v6_prefixes [] demo_ifaces. pfx_Bits q < pfx_Bits p \<and> pfx_Contains q (pfx_Addr p))}"
    by (elim exE conjE) rule
  have v: "v6_prefixes [] demo_ifaces = {?p, ?q}"
  proof -
    have "eligible [] f" if "f \<in> set demo_ifaces" for f
    proof -
      have "\<forall>f \<in> set demo_ifaces. eligible [] f" by code_simp
      then show ?thesis using that by blast
    qed
    then have "{f \<in> set demo_ifaces. eligible [] f \<and> Is6 (iface_addr f) \<and> pfx_IsValid (if_Address f)} =
        set (filter (\<lambda>f. Is6 (iface_addr f) \<and> pfx_IsValid (if_Address f)) demo_ifaces)" by auto
    then show ?thesis by (simp add: v6_prefixes_def demo_ifaces_def pfx_IsValid_def insert_commute)
  qed
  have "pfx_Contains ?p (pfx_Addr ?q)" by code_simp
  then have "?p \<in> set ps \<and> ?q \<notin> set ps" unfolding ps(2) v by simp
  then show ?thesis using ps(1) by (intro exI [of _ ps] conjI) simp_all
qed

theorem GetNodeIPs_addresses_witness:
  "\<exists>as. GetNodeIPs (Some ((blank_node ''w'')\<lparr>node_Annotations := [''alpha.kubernetes.io/provided-node-ip'' \<mapsto> ''10.0.0.1,10.0.0.2''],
      status_Addresses := [\<lparr>addr_Type = ''InternalIP'', addr_Address = ''10.0.0.2''\<rparr>]\<rparr>)) = Inr as \<and>
    set as = {Addr4 0x0a000001, Addr4 0x0a000002}"
proof -
  let ?n = "(blank_node ''w'')\<lparr>node_Annotations := [''alpha.kubernetes.io/provided-node-ip'' \<mapsto> ''10.0.0.1,10.0.0.2''],
      status_Addresses := [\<lparr>addr_Type = ''InternalIP'', addr_Address = ''10.0.0.2''\<rparr>]\<rparr>"
  have p: "ParseAddr ''10.0.0.1'' = Some (Addr4 0x0a000001)" "ParseAddr ''10.0.0.2'' = Some (Addr4 0x0a000002)" by code_simp+
  have t: "ip_addresses ?n = [''10.0.0.2'']" "provided_texts ?n = [''10.0.0.1'', ''10.0.0.2'']"
    by (simp_all add: ip_addresses_def provided_texts_def)
  show ?thesis
    using GetNodeIPs_addresses [of ?n] unfolding t
    by (cases "GetNodeIPs (Some ?n)") (auto simp: p)
qed

theorem NodeCIDRDiscovery_order_witness:
  "snd (NodeCIDRDiscovery [] demo_ifaces) = snd (NodeCIDRDiscovery [] (rev demo_ifaces))"
  by (rule NodeCIDRDiscovery_order) simp

theorem getNodeAddresses_shape_witness:
  "\<exists>e6 e4. getNodeAddresses True ''metal'' None [''x'', ''10.0.0.1'', ''10.0.0.2''] demo_ifaces =
     [\<lparr>addr_Type = ''InternalIP'', addr_Address = ''10.0.0.1''\<rparr>,
      \<lparr>addr_Type = ''ExternalIP'', addr_Address = iface_text e6\<rparr>, \<lparr>addr_Type = ''ExternalIP'', addr_Address = iface_text e4\<rparr>] \<and>
     Is6 (iface_addr e6) \<and> permanent e6 \<and> \<not> Is6 (iface_addr e4)"
proof -
  let ?ips = "[''x'', ''10.0.0.1'', ''10.0.0.2'']" and ?p = "demo_ifaces ! 0" and ?q = "demo_ifaces ! 2"
  have f: "first_of False ?ips = [''10.0.0.1'']" "first_of True ?ips = []" by code_simp+
  have o: "offers ''metal'' None ?ips True ?p" "offers ''metal'' None ?ips False ?q" "permanent ?p" by code_simp+
  have m: "?p \<in> set demo_ifaces" "?q \<in> set demo_ifaces" by (simp_all add: demo_ifaces_def)
  obtain ext where e: "getNodeAddresses True ''metal'' None ?ips demo_ifaces =
      map (\<lambda>ip. \<lparr>addr_Type = ''InternalIP'', addr_Address = ip\<rparr>) (first_of True ?ips @ first_of False ?ips) @
      map (\<lambda>ip. \<lparr>addr_Type = ''ExternalIP'', addr_Address = ip\<rparr>) (map iface_text (ext True @ ext False))"
    and l: "length (ext v6) \<le> 1" "ext v6 = [] \<longleftrightarrow> \<not> (\<exists>f \<in> set demo_ifaces. offers ''metal'' None ?ips v6 f)"
      "\<forall>e \<in> set (ext v6). e \<in> set demo_ifaces \<and> offers ''metal'' None ?ips v6 e"
    and perm: "\<forall>e \<in> set (ext True). \<forall>f \<in> set demo_ifaces. offers ''metal'' None ?ips True f \<longrightarrow> permanent f \<longrightarrow> permanent e" for v6
    using getNodeAddresses_shape [OF demo_ifaces_plain, of True "''metal''" None ?ips] by auto
  have "ext True \<noteq> []" "ext False \<noteq> []" using l(2) o(1,2) m by blast+
  then obtain e6 e4 where x: "ext True = [e6]" "ext False = [e4]"
    using l(1) [of True] l(1) [of False] by (cases "ext True"; cases "ext False") auto
  moreover have "Is6 (iface_addr e6)" "\<not> Is6 (iface_addr e4)" using l(3) [of True] l(3) [of False] x by (auto simp: offers_def)
  moreover have "permanent e6" using perm x(1) o(1,3) m(1) by auto
  ultimately show ?thesis using e unfolding f by auto
qed

end
