(* ===== verification/CloudAllocator.thy ===== *)
theory CloudAllocator
  imports RangeAllocatorLemmas NodeNetwork
begin

text \<open>
  \<^verbatim>\<open>pkg/nodeipam/ipam/cloud_allocator.go\<close>: the allocator that keeps a map from prefixes to CIDR sets. Besides
  the cluster CIDRs the map holds the public IPv6 networks that Talos finds on the nodes, added as the
  nodes appear; a node gets its IPv6 block from the network it is on.

  The outside world is the record \<open>cloud_env\<close>: the parsers of \<^verbatim>\<open>k8s.io/utils/net\<close>, the node lister and the
  answers to patches as for the range allocator, and what the Talos client returns for an address.

  Go visits a map in an order that differs from loop to loop. The map is a list of entries with
  distinct keys, the loops of a run are numbered by \<open>ca_tick\<close>, and \<open>cl_order n ks\<close> is the order in which loop
  \<open>n\<close> visits the keys \<open>ks\<close>; a statement about every order covers every run.
\<close>

section \<open>State\<close>

record cloud_env =
  cl_parseCIDR :: "string \<Rightarrow> IPNet option"
  cl_lister :: "nat \<Rightarrow> string \<Rightarrow> go_err + Node"
  cl_send_patch :: "nat \<Rightarrow> string \<Rightarrow> nodeSpecForMergePatch \<Rightarrow> go_err option"
  cl_order :: "nat \<Rightarrow> Prefix list \<Rightarrow> Prefix list"
  cl_talosNew :: "go_err option"
  cl_ParseCIDRs :: "string list \<Rightarrow> go_err + IPNet list"
  cl_GetNodeIfaces :: "string \<Rightarrow> go_err + AddressStatusSpec list"

record CloudAllocator =
  ca_clusterCIDRs :: "IPNet list"
  ca_cidrSets :: "(Prefix \<times> CidrSet) list"
  ca_tick :: nat
  ca_events :: "Event list"
  ca_patched :: "(string \<times> string list) list"

definition UninitializedTaint :: Taint where
  "UninitializedTaint = \<lparr>taint_Key = ''node.cloudprovider.kubernetes.io/uninitialized'', taint_Value = '''', taint_Effect = ''NoSchedule''\<rparr>"

text \<open>The loop \<^verbatim>\<open>for k := range r.cidrSets { if P(k) { ... } }\<close> that stops at the first hit.\<close>

definition find_key :: "cloud_env \<Rightarrow> (Prefix \<Rightarrow> bool) \<Rightarrow> (CloudAllocator, Prefix option) act" where
  "find_key env P r = (Ret (find P (cl_order env (ca_tick r) (map fst (ca_cidrSets r)))), r\<lparr>ca_tick := ca_tick r + 1\<rparr>)"

definition put_set :: "Prefix \<Rightarrow> CidrSet \<Rightarrow> (Prefix \<times> CidrSet) list \<Rightarrow> (Prefix \<times> CidrSet) list" where
  "put_set k s sets = map (\<lambda>(k', s'). (k', if k' = k then s else s')) sets"

text \<open>A call \<^verbatim>\<open>r.cidrSets[k].M()\<close>; an absent entry is a nil pointer.\<close>

definition on_key :: "Prefix \<Rightarrow> (CidrSet \<Rightarrow> (cidr_error, 'a \<times> CidrSet) outcome) \<Rightarrow> (CloudAllocator, 'a) act" where
  "on_key k f r =
     (case map_of (ca_cidrSets r) k of
        None \<Rightarrow> (Panic, r)
      | Some s \<Rightarrow> (case f s of
            Ret (x, s') \<Rightarrow> (Ret x, r\<lparr>ca_cidrSets := put_set k s' (ca_cidrSets r)\<rparr>)
          | Err e \<Rightarrow> (Err (CidrError e), r)
          | Panic \<Rightarrow> (Panic, r)))"

section \<open>Occupying\<close>

definition occupyCIDR :: "cloud_env \<Rightarrow> IPNet \<Rightarrow> (CloudAllocator, bool) act" where
  "occupyCIDR env cidr =
     (let ip = (case AddrFromSlice (net_IP cidr) of Some a \<Rightarrow> a | None \<Rightarrow> AddrZero) in
      bind_act (find_key env (\<lambda>k. pfx_Contains k ip)) (\<lambda>hit.
        case hit of
          None \<Rightarrow> ret_act False
        | Some k \<Rightarrow>
            bind_act (wrap_act (Errorf_v ''failed to mark cidr as occupied in subnet'') (on_key k (occupy_op (Some cidr))))
              (\<lambda>_. ret_act True)))"

fun occupyNodeIPs :: "cloud_env \<Rightarrow> Addr list \<Rightarrow> (CloudAllocator, unit) act" where
  "occupyNodeIPs env [] r = (Ret (), r)"
| "occupyNodeIPs env (addr # addrs) r =
     (if \<not> Is6 addr \<or> IsPrivate addr then occupyNodeIPs env addrs r
      else let ip = ParseIP (addr_String addr) in
        if ip = IPnil then occupyNodeIPs env addrs r
        else bind_act (occupyCIDR env \<lparr>net_IP = ip, net_Mask = CIDRMask 128 128\<rparr>) (\<lambda>_. occupyNodeIPs env addrs) r)"

section \<open>Adding networks\<close>

definition defaultNodeMaxPods :: int where
  "defaultNodeMaxPods = 110"

definition getNodeMaxPods :: "Node option \<Rightarrow> int" where
  "getNodeMaxPods node =
     (case node of
        None \<Rightarrow> defaultNodeMaxPods
      | Some n \<Rightarrow>
          (case status_Allocatable_pods n of
             Some (Some v) \<Rightarrow> if v > 0 then v else
               (case status_Capacity_pods n of Some (Some c) \<Rightarrow> if c > 0 then c else defaultNodeMaxPods | _ \<Rightarrow> defaultNodeMaxPods)
           | _ \<Rightarrow>
               (case status_Capacity_pods n of Some (Some c) \<Rightarrow> if c > 0 then c else defaultNodeMaxPods | _ \<Rightarrow> defaultNodeMaxPods)))"

text \<open>The switch of \<^verbatim>\<open>addCIDRSet\<close>: the network that is managed and the mask of a pod subnet.\<close>

definition pod_subnet :: "Prefix \<Rightarrow> int \<Rightarrow> (go_err, Prefix \<times> int) outcome" where
  "pod_subnet subnet maxPods =
     (let mask = pfx_Bits subnet in
      if mask < 64 then
        (case addr_Prefix (pfx_Addr subnet) 64 of
           None \<Rightarrow> Err (Errorf ''prefix length too large'')
         | Some s \<Rightarrow> Ret (s, 80))
      else if mask > 123 then Err (Errorf ''CIDRv6 is too small'')
      else if mask > 117 then
        let addresses = 2 ^ nat (128 - (mask + 1)) - 2 in
        if maxPods mod 2 ^ 64 > addresses then Err (Errorf ''CIDRv6 is too small: pod subnet provides only too few addresses'')
        else Ret (subnet, mask + 1)
      else if mask > 111 then Ret (subnet, mask + 2)
      else if mask > 105 then Ret (subnet, mask + 4)
      else if mask > 99 then Ret (subnet, mask + 8)
      else Ret (subnet, mask + 16))"

definition addCIDRSet :: "string \<Rightarrow> int \<Rightarrow> (CloudAllocator, unit) act" where
  "addCIDRSet cidr maxPods =
     (case ParsePrefix cidr of
        None \<Rightarrow> fail_act (Errorf ''netip.ParsePrefix'')
      | Some subnet0 \<Rightarrow>
          bind_act (lift_act (pod_subnet subnet0 maxPods)) (\<lambda>(subnet, mask).
            let k = pfx_Masked subnet;
                net = \<lparr>net_IP = ParseIP (addr_String (pfx_Addr k)), net_Mask = CIDRMask (pfx_Bits subnet) 128\<rparr> in
            bind_act (lift_act (map_err CidrError (NewCIDRSet net mask))) (\<lambda>cidrSet r.
              (Ret (), if k \<in> fst ` set (ca_cidrSets r) then r else r\<lparr>ca_cidrSets := ca_cidrSets r @ [(k, cidrSet)]\<rparr>))))"

fun add_cidrs :: "string list \<Rightarrow> int \<Rightarrow> (CloudAllocator, unit) act" where
  "add_cidrs [] maxPods r = (Ret (), r)"
| "add_cidrs (cidr # cidrs) maxPods r =
     (case ParsePrefix cidr of
        None \<Rightarrow> (Panic, r)
      | Some p \<Rightarrow>
          if pfx_Bits p = 128 then add_cidrs cidrs maxPods r
          else bind_act (wrap_act (Errorf_v ''error to add CIDRv6 to CIDRSet'') (addCIDRSet cidr maxPods))
                 (\<lambda>_. add_cidrs cidrs maxPods) r)"

section \<open>The network of a node\<close>

text \<open>The first address whose Talos answers; the error of the last one is dropped.\<close>

fun first_ifaces :: "(string \<Rightarrow> go_err + AddressStatusSpec list) \<Rightarrow> Addr list \<Rightarrow> AddressStatusSpec list" where
  "first_ifaces get [] = []"
| "first_ifaces get (ip # ips) = (case get (addr_String ip) of Inr ifaces \<Rightarrow> ifaces | Inl _ \<Rightarrow> first_ifaces get ips)"

definition global_key :: "IPNet list \<Rightarrow> Prefix \<Rightarrow> bool" where
  "global_key subnets k \<longleftrightarrow> \<not> (Is4 (pfx_Addr k) \<or> IsPrivate (pfx_Addr k)) \<and>
     list_ex (\<lambda>subnet. case AddrFromSlice (net_IP subnet) of Some ip \<Rightarrow> pfx_Contains k ip | None \<Rightarrow> False) subnets"

definition defineNodeGlobalCIDRs :: "cloud_env \<Rightarrow> Node option \<Rightarrow> (CloudAllocator, string) act" where
  "defineNodeGlobalCIDRs env nodep =
     (case nodep of
        None \<Rightarrow> fail_act (Errorf ''node is nil'')
      | Some node \<Rightarrow>
          (case GetNodeIPs (Some node) of
             Inl e \<Rightarrow> fail_act (Errorf_v ''failed to get IPs for node'' e)
           | Inr nodeIPs \<Rightarrow>
               if nodeIPs = [] then fail_act (Errorf ''node has no addresses'')
               else case cl_talosNew env of
                 Some e \<Rightarrow> fail_act e
               | None \<Rightarrow>
                   let ifaces = first_ifaces (cl_GetNodeIfaces env) nodeIPs;
                       ipv6 = filter (\<lambda>a. Is6 a \<and> \<not> IsPrivate a) nodeIPs;
                       cidrs = snd (NodeCIDRDiscovery ipv6 ifaces)
                   in if cidrs \<noteq> [] then
                        bind_act (lift_act (of_sum (cl_ParseCIDRs env cidrs))) (\<lambda>subnets.
                        bind_act (find_key env (global_key subnets)) (\<lambda>hit.
                          case hit of
                            Some k \<Rightarrow>
                              bind_act (wrap_act (Errorf_v ''error to occupy node IPs in CIDRSet'') (occupyNodeIPs env ipv6))
                                (\<lambda>_. ret_act (pfx_String k))
                          | None \<Rightarrow>
                              bind_act (add_cidrs cidrs (getNodeMaxPods (Some node))) (\<lambda>_.
                              bind_act (wrap_act (Errorf_v ''error to occupy node IPs in CIDRSet'') (occupyNodeIPs env ipv6))
                                (\<lambda>_. ret_act (hd cidrs)))))
                      else ret_act ''''))"

section \<open>The pod CIDRs of a node\<close>

fun occupy_pods :: "cloud_env \<Rightarrow> Node \<Rightarrow> string list \<Rightarrow> (CloudAllocator, unit) act" where
  "occupy_pods env node [] r = (Ret (), r)"
| "occupy_pods env node (cidr # cidrs) r =
     (case cl_parseCIDR env cidr of
        None \<Rightarrow> (Err (Errorf ''failed to parse node, CIDR''), r)
      | Some podCIDR \<Rightarrow>
          bind_act (wrap_act (Errorf_v ''failed to mark cidr as occupied for node'') (occupyCIDR env podCIDR)) (\<lambda>ok.
          bind_act (if ok then ret_act ()
                    else bind_act (wrap_act (Errorf_v ''failed to find a CIDRSet for node, CIDR'') (defineNodeGlobalCIDRs env (Some node)))
                           (\<lambda>_. ret_act ())) (\<lambda>_.
          occupy_pods env node cidrs)) r)"

definition occupyPodCIDRs :: "cloud_env \<Rightarrow> Node \<Rightarrow> (CloudAllocator, unit) act" where
  "occupyPodCIDRs env node =
     (if spec_PodCIDRs node = [] \<or> length (spec_PodCIDRs node) > 2 then ret_act ()
      else occupy_pods env node (spec_PodCIDRs node))"

fun releaseCIDRs :: "cloud_env \<Rightarrow> string list \<Rightarrow> (CloudAllocator, unit) act" where
  "releaseCIDRs env [] r = (Ret (), r)"
| "releaseCIDRs env (cidr # cidrs) r =
     (case cl_parseCIDR env cidr of
        None \<Rightarrow> (Err (Errorf ''failed to parse CIDR''), r)
      | Some podCIDR \<Rightarrow>
          bind_act
            (if ca_cidrSets r = [] then ret_act ()
             else case ParseAddr (ip_String (net_IP podCIDR)) of
               None \<Rightarrow> panic_act
             | Some ip \<Rightarrow>
                 bind_act (find_key env (\<lambda>k. pfx_Contains k ip)) (\<lambda>hit.
                   case hit of
                     None \<Rightarrow> ret_act ()
                   | Some k \<Rightarrow> wrap_act (Errorf_v ''error when releasing CIDR'') (on_key k (release_op (Some podCIDR)))))
            (\<lambda>_. releaseCIDRs env cidrs) r)"

definition ReleaseCIDR :: "cloud_env \<Rightarrow> Node option \<Rightarrow> (CloudAllocator, unit) act" where
  "ReleaseCIDR env nodep =
     (case nodep of
        None \<Rightarrow> ret_act ()
      | Some node \<Rightarrow> if spec_PodCIDRs node = [] then ret_act () else releaseCIDRs env (spec_PodCIDRs node))"

text \<open>Giving proposed CIDRs back by their text; an absent one prints as \<^verbatim>\<open><nil>\<close>. Failures are logged.\<close>

fun give_back :: "cloud_env \<Rightarrow> IPNet option list \<Rightarrow> (CloudAllocator, unit) act" where
  "give_back env [] r = (Ret (), r)"
| "give_back env (cidr # cidrs) r =
     bind_act (log_act (releaseCIDRs env [netp_String cidr])) (\<lambda>_. give_back env cidrs) r"

definition updateCIDRsAllocation :: "cloud_env \<Rightarrow> string \<Rightarrow> IPNet option list \<Rightarrow> (CloudAllocator, unit) act" where
  "updateCIDRsAllocation env nodeName allocated r =
     (let cidrsString = ipnetToStringList allocated in
      case cl_lister env 1 nodeName of
        Inl e \<Rightarrow> (Err e, r)
      | Inr node \<Rightarrow>
          if cidrs_match cidrsString (spec_PodCIDRs node) then (Ret (), r)
          else if spec_PodCIDRs node \<noteq> [] then give_back env allocated r
          else (case patch_loop (cl_send_patch env) cidrUpdateRetries 0 (node_Name node) cidrsString (Ret ()) of
              Ret _ \<Rightarrow> (Ret (), r\<lparr>ca_patched := ca_patched r @ [(node_Name node, cidrsString)]\<rparr>)
            | Panic \<Rightarrow> (Panic, r)
            | Err e \<Rightarrow>
                let r' = r\<lparr>ca_events := ca_events r @ [RecordNodeStatusChange node ''CIDRAssignmentFailed'']\<rparr> in
                if \<not> IsServerTimeout e
                then bind_act (give_back env allocated) (\<lambda>_. fail_act e) r'
                else (Err e, r')))"

text \<open>The loop over the cluster CIDRs: one block of the set that holds the address, nil if no set does.\<close>

definition event_on_err :: "Node \<Rightarrow> string \<Rightarrow> (CloudAllocator, 'a) act \<Rightarrow> (CloudAllocator, 'a) act" where
  "event_on_err node status m r =
     (case m r of
        (Err e, r') \<Rightarrow> (Err e, r'\<lparr>ca_events := ca_events r' @ [RecordNodeStatusChange node status]\<rparr>)
      | res \<Rightarrow> res)"

definition target_addr :: "IPNet \<Rightarrow> string \<Rightarrow> Addr option" where
  "target_addr cidr globalCIDR =
     (case ParseAddr (ip_String (net_IP cidr)) of
        None \<Rightarrow> None
      | Some ip \<Rightarrow>
          if To4 (net_IP cidr) = None \<and> globalCIDR \<noteq> '''' then map_option pfx_Addr (ParsePrefix globalCIDR) else Some ip)"

fun allocate_pods :: "cloud_env \<Rightarrow> Node \<Rightarrow> string \<Rightarrow> IPNet list \<Rightarrow> (CloudAllocator, IPNet option list) act" where
  "allocate_pods env node globalCIDR [] r = (Ret [], r)"
| "allocate_pods env node globalCIDR (cidr # cidrs) r =
     (case target_addr cidr globalCIDR of
        None \<Rightarrow> (Panic, r)
      | Some ip \<Rightarrow>
          bind_act (find_key env (\<lambda>k. pfx_Contains k ip)) (\<lambda>hit.
          bind_act (case hit of
                      None \<Rightarrow> ret_act None
                    | Some k \<Rightarrow>
                        bind_act (event_on_err node ''CIDRNotAvailable''
                          (wrap_act (Errorf_v ''failed to allocate cidr from cluster cidr'') (on_key k AllocateNext)))
                          (\<lambda>podCIDR. ret_act (Some podCIDR))) (\<lambda>podCIDR.
          bind_act (allocate_pods env node globalCIDR cidrs) (\<lambda>rest. ret_act (podCIDR # rest)))) r)"

definition AllocateOrOccupyCIDR :: "cloud_env \<Rightarrow> Node option \<Rightarrow> (CloudAllocator, unit) act" where
  "AllocateOrOccupyCIDR env nodep r =
     (case nodep of
        None \<Rightarrow> (Ret (), r)
      | Some node \<Rightarrow>
          if spec_PodCIDRs node \<noteq> [] then occupyPodCIDRs env node r
          else bind_act (defineNodeGlobalCIDRs env (Some node)) (\<lambda>globalCIDR.
               bind_act (allocate_pods env node globalCIDR (ca_clusterCIDRs r)) (\<lambda>allocated.
               updateCIDRsAllocation env (node_Name node) allocated)) r)"

definition syncNode :: "cloud_env \<Rightarrow> string \<Rightarrow> (CloudAllocator, unit) act" where
  "syncNode env key r =
     (case cl_lister env 0 key of
        Inl e \<Rightarrow> if IsNotFound e then (Ret (), r) else (Err e, r)
      | Inr node \<Rightarrow>
          if node_Deleting node then ReleaseCIDR env (Some node) r
          else if list_ex (\<lambda>taint. MatchTaint taint UninitializedTaint) (spec_Taints node) then (Ret (), r)
          else AllocateOrOccupyCIDR env (Some node) r)"

section \<open>Construction, handlers and the work queue\<close>

text \<open>\<^verbatim>\<open>cidrSets[k] = s\<close> replaces an entry or adds one.\<close>

definition assign_set :: "Prefix \<Rightarrow> CidrSet \<Rightarrow> (Prefix \<times> CidrSet) list \<Rightarrow> (Prefix \<times> CidrSet) list" where
  "assign_set k s sets = (if k \<in> fst ` set sets then put_set k s sets else sets @ [(k, s)])"

fun new_cloud_sets :: "IPNet list \<Rightarrow> int list \<Rightarrow> (Prefix \<times> CidrSet) list \<Rightarrow> (go_err, (Prefix \<times> CidrSet) list) outcome" where
  "new_cloud_sets [] ms sets = Ret sets"
| "new_cloud_sets (c # cs) [] sets = Panic"
| "new_cloud_sets (c # cs) (m # ms) sets =
     bind_out (map_err CidrError (NewCIDRSet c m)) (\<lambda>s.
       case ParsePrefix (net_String c) of
         None \<Rightarrow> Panic
       | Some k \<Rightarrow> new_cloud_sets cs ms (assign_set k s sets))"

definition filterOutServiceRange :: "cloud_env \<Rightarrow> IPNet option \<Rightarrow> (CloudAllocator, unit) act" where
  "filterOutServiceRange env service = (case service of None \<Rightarrow> ret_act () | Some c \<Rightarrow> log_act (occupyCIDR env c))"

fun occupy_listed :: "cloud_env \<Rightarrow> Node list \<Rightarrow> (CloudAllocator, unit) act" where
  "occupy_listed env [] r = (Ret (), r)"
| "occupy_listed env (node # nodes) r =
     (if spec_PodCIDRs node = [] then occupy_listed env nodes r
      else bind_act (occupyPodCIDRs env node) (\<lambda>_. occupy_listed env nodes) r)"

definition NewCIDRCloudAllocator :: "cloud_env \<Rightarrow> CIDRAllocatorParams \<Rightarrow> Node list option \<Rightarrow> (go_err, CloudAllocator) outcome" where
  "NewCIDRCloudAllocator env params nodeList =
     bind_out (new_cloud_sets (ClusterCIDRs params) (NodeCIDRMaskSizes params) []) (\<lambda>sets.
       let ra = \<lparr>ca_clusterCIDRs = ClusterCIDRs params, ca_cidrSets = sets, ca_tick = 0, ca_events = [], ca_patched = []\<rparr> in
       case bind_act (filterOutServiceRange env (ServiceCIDR params)) (\<lambda>_.
            bind_act (filterOutServiceRange env (SecondaryServiceCIDR params)) (\<lambda>_.
              case nodeList of None \<Rightarrow> ret_act () | Some nodes \<Rightarrow> occupy_listed env nodes)) ra
       of (res, ra') \<Rightarrow> bind_out res (\<lambda>_. Ret ra'))"

definition onDelete :: "cloud_env \<Rightarrow> informer_obj \<Rightarrow> (CloudAllocator, queue_call list) act" where
  "onDelete env obj r =
     (case obj of
        Tombstone key lastState \<Rightarrow> (Panic, r)
      | ObjNode node \<Rightarrow> bind_act (log_act (ReleaseCIDR env (Some node))) (\<lambda>_. ret_act [q_Add (node_Name node)]) r)"

text \<open>\<open>None\<close> is the shutdown of the queue; the deferred \<^verbatim>\<open>Done\<close> comes last.\<close>

definition processNextNodeWorkItem :: "cloud_env \<Rightarrow> string option \<Rightarrow> (CloudAllocator, bool \<times> queue_call list) act" where
  "processNextNodeWorkItem env item r =
     (case item of
        None \<Rightarrow> (Ret (False, []), r)
      | Some key \<Rightarrow>
          (case syncNode env key r of
             (Ret _, r') \<Rightarrow> (Ret (True, [q_Forget key, q_Done key]), r')
           | (Err e, r') \<Rightarrow> (Ret (True, [q_AddRateLimited key, q_Done key]), r')
           | (Panic, r') \<Rightarrow> (Panic, r')))"

end
