(* ===== verification/CloudSets.thy ===== *)
theory CloudSets
  imports CloudAllocator
begin

text \<open>
  The state of the cloud allocator and its invariant: every prefix of the map stands for the network of
  its CIDR set. The pod subnets that \<^verbatim>\<open>addCIDRSet\<close> cuts out of a discovered network always make a
  well-formed set, and every method called through the map keeps the invariant.
\<close>

section \<open>Networks of prefixes\<close>

text \<open>The network of a prefix, as the \<^verbatim>\<open>net\<close> package has it.\<close>

definition key_net :: "Prefix \<Rightarrow> IPNet" where
  "key_net k = (case pfx_Addr k of
     Addr4 w \<Rightarrow> net4 w (nat (pfx_Bits k))
   | Addr6 w z \<Rightarrow> net6 w (nat (pfx_Bits k))
   | AddrZero \<Rightarrow> \<lparr>net_IP = IPnil, net_Mask = Masknil\<rparr>)"

text \<open>An IPv6 address outside \<^verbatim>\<open>::/64\<close>, the range of the IPv4-mapped and IPv4-compatible addresses.\<close>

definition native6 :: "u128 \<Rightarrow> bool" where
  "native6 w \<longleftrightarrow> drop_bit 64 w \<noteq> 0"

lemma native6_no4in6:
  assumes "native6 w" and "64 \<le> c" and "c \<le> 128"
  shows "no4in6 (w AND prefix_mask c) c"
proof -
  obtain k where k: "bit w k" "64 \<le> k" "k < 128"
  proof -
    have "\<exists>j. bit (drop_bit 64 w) j" using assms(1) by (auto simp: native6_def bit_eq_iff)
    then obtain j where "bit w (64 + j)" by (auto simp: bit_drop_bit_eq)
    then show ?thesis using that [of "64 + j"] bit_imp_le_length [of w "64 + j"] by simp
  qed
  then have b: "bit (w AND prefix_mask c) k" "128 - c \<le> k" using assms(2,3) by (auto simp: bit_simps bit_facts)
  have f: "\<not> bit (0xffff :: u128) (k - 32)"
  proof -
    have m: "(0xffff :: u128) = mask 16" by (simp add: mask_numeral)
    show ?thesis unfolding m bit_mask_iff using k by auto
  qed
  have "\<not> is4in6 (w AND prefix_mask c)"
  proof
    assume "is4in6 (w AND prefix_mask c)"
    then have "bit (drop_bit 32 (w AND prefix_mask c)) (k - 32) = bit (0xffff :: u128) (k - 32)" by (simp only: is4in6_def)
    then have "\<not> bit (w AND prefix_mask c) (32 + (k - 32))" using f by (simp only: bit_drop_bit_eq comp_apply simp_thms)
    then show False using b(1) k(2) by simp
  qed
  moreover have "drop_bit (128 - c) (push_bit 32 0xffff) \<noteq> drop_bit (128 - c) (w AND prefix_mask c)" (is "?x \<noteq> ?y")
  proof
    assume "?x = ?y"
    then have "bit ?x (k - (128 - c)) = bit ?y (k - (128 - c))" by simp
    then have "bit (push_bit 32 (0xffff :: u128)) (128 - c + (k - (128 - c))) = bit (w AND prefix_mask c) (128 - c + (k - (128 - c)))"
      by (simp only: bit_drop_bit_eq comp_apply)
    moreover have "128 - c + (k - (128 - c)) = k" using b(2) by simp
    ultimately have "bit (push_bit 32 (0xffff :: u128)) k" using b(1) by (simp only:)
    then show False using f by (simp only: bit_push_bit_iff simp_thms)
  qed
  ultimately show ?thesis by (simp add: no4in6_def)
qed

lemma native6_plain: "native6 w \<Longrightarrow> 64 \<le> c \<Longrightarrow> c \<le> 128 \<Longrightarrow> \<not> is4in6 (w AND prefix_mask c)"
  using native6_no4in6 by (simp add: no4in6_def)

lemma parse6_Addr6: "parse6 s = Some a \<Longrightarrow> \<exists>w z. a = Addr6 w z"
  by (auto simp: parse6_def Let_def split: if_splits option.splits prod.splits)

lemma ParseAddr_not_zero: "ParseAddr s \<noteq> Some AddrZero"
  using parse6_Addr6 [of s] by (auto simp: ParseAddr_def split: list.splits if_splits)

lemma ParsePrefix_valid:
  assumes "ParsePrefix s = Some p"
  shows "pfx_IsValid p" and "pfx_Addr p = Addr6 w z \<Longrightarrow> z = []"
  using assms ParseAddr_not_zero
  by (auto simp: ParsePrefix_def Let_def pfx_IsValid_def split: if_splits option.splits)

section \<open>The pod subnets of a discovered network\<close>

text \<open>
  What the switch of \<^verbatim>\<open>addCIDRSet\<close> returns: an IPv6 network of 64 to 123 bits and pod subnets of one
  to sixteen more bits.
\<close>

lemma pod_subnet_shape:
  assumes p: "pfx_IsValid p" and r: "pod_subnet p m = Ret (q, n)"
  obtains w z c d where "pfx_Addr p = Addr6 w z" "pfx_Bits q = int c" "n = int (c + d)"
    "pfx_Masked q = Prefix (Addr6 (w AND prefix_mask c) []) (int c)" "64 \<le> c" "c \<le> 123" "1 \<le> d" "d \<le> 16" "c + d \<le> 124"
proof -
  obtain w z where a: "pfx_Addr p = Addr6 w z"
  proof (cases "pfx_Addr p")
    case (Addr4 v)
    then show ?thesis using r p by (simp add: pod_subnet_def addr_Prefix_def pfx_IsValid_def)
  qed (use that p in \<open>simp_all add: pfx_IsValid_def\<close>)
  show ?thesis
  proof (cases "pfx_Bits p < 64")
    case True
    then have "q = Prefix (Addr6 (w AND prefix_mask 64) []) 64" "n = 80"
      using r a by (auto simp: pod_subnet_def addr_Prefix_def)
    then show ?thesis using that [of w z 64 16] a by (simp add: pfx_Masked_def addr_Prefix_def and.assoc)
  next
    case False
    then have "q = p" "pfx_Bits p \<le> 123" "pfx_Bits p + 1 \<le> n" "n \<le> pfx_Bits p + 16" "n \<le> 124"
      using r by (auto simp: pod_subnet_def Let_def split: if_splits)
    moreover define c d where "c = nat (pfx_Bits p)" and "d = nat (n - pfx_Bits p)"
    ultimately show ?thesis
      using that [of w z c d] False a by (simp add: pfx_Masked_def addr_Prefix_def nat_le_iff le_nat_iff)
  qed
qed

lemma pod_subnet_accepts:
  assumes "pfx_IsValid p" and "pfx_Addr p = Addr6 w z" and "0 \<le> maxPods" and "maxPods < 2 ^ 63"
  defines "c \<equiv> max 64 (pfx_Bits p)"
  defines "n \<equiv> c + (if pfx_Bits p \<le> 99 then 16 else if pfx_Bits p \<le> 105 then 8 else if pfx_Bits p \<le> 111 then 4
      else if pfx_Bits p \<le> 117 then 2 else 1)"
  assumes "\<not> (123 < pfx_Bits p \<or> 117 < pfx_Bits p \<and> 2 ^ nat (128 - n) - 2 < maxPods)"
  shows "\<exists>q. pod_subnet p maxPods = Ret (q, n) \<and> pfx_Masked q = Prefix (Addr6 (w AND prefix_mask (nat c)) []) c \<and> pfx_Bits q = c"
proof (cases "pfx_Bits p < 64")
  case True
  then show ?thesis
    using assms(2) by (intro exI [of _ "Prefix (Addr6 (w AND prefix_mask 64) []) 64"])
      (simp add: pod_subnet_def addr_Prefix_def pfx_Masked_def n_def c_def and.assoc)
next
  case False
  then have c: "c = pfx_Bits p" by (simp add: c_def)
  have "maxPods mod 2 ^ 64 = maxPods" using assms(3,4) by simp
  then have "pod_subnet p maxPods = Ret (p, n)"
    using False assms(7) unfolding n_def c by (simp add: pod_subnet_def Let_def)
  moreover have "pfx_Masked p = Prefix (Addr6 (w AND prefix_mask (nat c)) []) c"
    using False assms(2,7) c by (simp add: pfx_Masked_def addr_Prefix_def)
  ultimately show ?thesis using c by blast
qed

lemma pod_subnet_refuses:
  assumes "0 \<le> maxPods" and "maxPods < 2 ^ 63"
    and "123 < pfx_Bits p \<or> 117 < pfx_Bits p \<and> 2 ^ nat (128 - (pfx_Bits p + 1)) - 2 < maxPods"
  shows "\<exists>e. pod_subnet p maxPods = Err e"
proof (cases "123 < pfx_Bits p")
  case True
  then show ?thesis by (simp add: pod_subnet_def)
next
  case False
  moreover have "maxPods mod 2 ^ 64 = maxPods" using assms(1,2) by simp
  ultimately show ?thesis using assms(3) by (simp add: pod_subnet_def Let_def)
qed

text \<open>The set that a discovered network gets: its network is the key, and it is well-formed.\<close>

lemma discovered_set:
  assumes "native6 w" and "64 \<le> c" and "c + d \<le> 124" and "d \<le> 16"
  shows "cluster_ok (net6 (w AND prefix_mask c) c) (int (c + d))"
    and "ParseIP (addr_String (Addr6 (w AND prefix_mask c) [])) = IP16 (w AND prefix_mask c)"
proof -
  have n: "no4in6 (w AND prefix_mask c) c" and p: "\<not> is4in6 (w AND prefix_mask c)"
    using native6_no4in6 native6_plain assms by simp_all
  show "cluster_ok (net6 (w AND prefix_mask c) c) (int (c + d))"
    using assms n p by (simp add: cluster_ok_def net_base_and_prefix_mask clusterSubnetMaxDiff_def)
  show "ParseIP (addr_String (Addr6 (w AND prefix_mask c) [])) = IP16 (w AND prefix_mask c)"
    using ParseAddr_plain [of "Addr6 (w AND prefix_mask c) []"] p by (simp add: ParseIP_def plain_addr_def)
qed

section \<open>Well-formed allocators\<close>

text \<open>A set stands under the prefix of its network, and every key occurs once.\<close>

definition keyed :: "Prefix \<Rightarrow> CidrSet \<Rightarrow> bool" where
  "keyed k s \<longleftrightarrow> cidr_inv s \<and> clusterCIDR s = key_net k \<and> pfx_IsValid k"

definition ca_inv :: "CloudAllocator \<Rightarrow> bool" where
  "ca_inv r \<longleftrightarrow> distinct (map fst (ca_cidrSets r)) \<and> list_all (\<lambda>(k, s). keyed k s) (ca_cidrSets r)"

text \<open>
  An allocator that came from another one: every set of the first one is still there under its key,
  related to its former state by \<open>R\<close>.
\<close>

definition ca_via :: "(CidrSet \<Rightarrow> CidrSet \<Rightarrow> bool) \<Rightarrow> CloudAllocator \<Rightarrow> CloudAllocator \<Rightarrow> bool" where
  "ca_via R r0 r \<longleftrightarrow> ca_inv r \<and> ca_clusterCIDRs r = ca_clusterCIDRs r0 \<and>
     (\<forall>k s0. map_of (ca_cidrSets r0) k = Some s0 \<longrightarrow>
        (\<exists>s. map_of (ca_cidrSets r) k = Some s \<and> same_blocks s0 s \<and> R s0 s))"

abbreviation ca_from :: "CloudAllocator \<Rightarrow> CloudAllocator \<Rightarrow> bool" where
  "ca_from \<equiv> ca_via (\<lambda>_ _. True)"

lemma ca_inv_upd [simp]:
  "ca_inv (r\<lparr>ca_tick := n\<rparr>) = ca_inv r" "ca_inv (r\<lparr>ca_events := e\<rparr>) = ca_inv r" "ca_inv (r\<lparr>ca_patched := p\<rparr>) = ca_inv r"
  by (simp_all add: ca_inv_def)

lemma ca_via_upd [simp]:
  "ca_via R r0 (r\<lparr>ca_tick := n\<rparr>) = ca_via R r0 r" "ca_via R r0 (r\<lparr>ca_events := e\<rparr>) = ca_via R r0 r"
  "ca_via R r0 (r\<lparr>ca_patched := p\<rparr>) = ca_via R r0 r"
  by (simp_all add: ca_via_def)

lemma ca_inv_get: "ca_inv r \<Longrightarrow> map_of (ca_cidrSets r) k = Some s \<Longrightarrow> keyed k s"
  by (auto simp: ca_inv_def list_all_iff dest: map_of_SomeD)

lemma ca_via_refl: "ca_inv r \<Longrightarrow> (\<And>s. R s s) \<Longrightarrow> ca_via R r r"
  by (simp add: ca_via_def)

lemma ca_via_inv: "ca_via R r0 r \<Longrightarrow> ca_inv r"
  by (simp add: ca_via_def)

lemma ca_via_trans:
  assumes r: "ca_via R r0 r" and t: "ca_via R r t" and R: "\<And>s t u. R s t \<Longrightarrow> R t u \<Longrightarrow> R s u"
  shows "ca_via R r0 t"
proof -
  have "\<exists>u. map_of (ca_cidrSets t) k = Some u \<and> same_blocks s0 u \<and> R s0 u" if k: "map_of (ca_cidrSets r0) k = Some s0" for k s0
  proof -
    obtain s where s: "map_of (ca_cidrSets r) k = Some s" "same_blocks s0 s" "R s0 s"
      using r k unfolding ca_via_def by blast
    then obtain u where "map_of (ca_cidrSets t) k = Some u" "same_blocks s u" "R s u"
      using t unfolding ca_via_def by blast
    then show ?thesis using same_blocks_trans [OF s(2)] R [OF s(3)] by blast
  qed
  then show ?thesis using r t by (simp add: ca_via_def)
qed

lemma ca_via_weaken: "ca_via R r0 r \<Longrightarrow> ca_from r0 r"
  unfolding ca_via_def by blast

text \<open>An operation that only uses blocks up also keeps the allocator well-formed.\<close>

lemma keeps_grown:
  assumes "\<And>r0. keeps (ca_via grows r0) m"
  shows "keeps (ca_from r0) m"
proof (rule keepsI)
  fix r assume r: "ca_from r0 r"
  have "ca_via grows r r" using ca_via_refl [OF ca_via_inv [OF r]] by simp
  then have "ca_from r (snd (m r))" using keepsD [OF assms] ca_via_weaken by blast
  then show "ca_from r0 (snd (m r))" using ca_via_trans [OF r] by blast
qed

lemma keyed_step: "keyed k s \<Longrightarrow> cidr_inv t \<Longrightarrow> same_blocks s t \<Longrightarrow> keyed k t"
  by (simp add: keyed_def same_blocks_def)

lemma map_fst_put_set [simp]: "map fst (put_set k s sets) = map fst sets"
  by (simp add: put_set_def comp_def split_def)

lemma map_of_put_set [simp]:
  "map_of (put_set k s sets) k' = (if k' = k then map_option (\<lambda>_. s) (map_of sets k) else map_of sets k')"
  by (induction sets) (auto simp: put_set_def)

lemma ca_inv_put:
  assumes "ca_inv r" and "keyed k s"
  shows "ca_inv (r\<lparr>ca_cidrSets := put_set k s (ca_cidrSets r)\<rparr>)"
  using assms by (auto simp: ca_inv_def list_all_iff put_set_def comp_def split_def)

section \<open>Methods of one set\<close>

context set_method
begin

lemma on_key_cases:
  assumes "ok p" and "ca_inv r" and "on_key k (f p) r = (res, r')"
  shows "r' = r \<or> (\<exists>s s' x. map_of (ca_cidrSets r) k = Some s \<and> f p s = Ret (x, s') \<and> res = Ret x \<and> keyed k s' \<and>
    same_blocks s s' \<and> R s s' \<and> r' = r\<lparr>ca_cidrSets := put_set k s' (ca_cidrSets r)\<rparr>)"
proof (cases "map_of (ca_cidrSets r) k")
  case (Some s)
  then have s: "keyed k s" using ca_inv_get assms(2) by blast
  show ?thesis
  proof (cases "f p s")
    case (Ret y)
    then obtain x s' where f: "f p s = Ret (x, s')" by (cases y) simp
    then have s': "cidr_inv s'" "same_blocks s s'" "R s s'" using step [OF assms(1)] s by (auto simp: keyed_def)
    then show ?thesis using keyed_step [OF s s'(1,2)] assms(3) Some f by (simp add: on_key_def)
  qed (use assms(3) Some in \<open>simp_all add: on_key_def\<close>)
qed (use assms(3) in \<open>simp add: on_key_def\<close>)

lemma on_key_inv: "ok p \<Longrightarrow> keeps ca_inv (on_key k (f p))"
proof (rule keepsI)
  fix r assume "ok p" "ca_inv r"
  then show "ca_inv (snd (on_key k (f p) r))"
    using on_key_cases [of p r k] ca_inv_put by (cases "on_key k (f p) r") fastforce
qed

lemma on_key_via: "ok p \<Longrightarrow> keeps (ca_via R r0) (on_key k (f p))"
proof (rule keepsI)
  fix r assume ok: "ok p" and r: "ca_via R r0 r"
  obtain res r' where res: "on_key k (f p) r = (res, r')" by (cases "on_key k (f p) r")
  have inv: "ca_inv r'" using keepsD [OF on_key_inv [OF ok] ca_via_inv [OF r]] res by (metis snd_conv)
  from on_key_cases [OF ok ca_via_inv [OF r] res] have "ca_via R r0 r'"
  proof
    assume "\<exists>s s' x. map_of (ca_cidrSets r) k = Some s \<and> f p s = Ret (x, s') \<and> res = Ret x \<and> keyed k s' \<and>
      same_blocks s s' \<and> R s s' \<and> r' = r\<lparr>ca_cidrSets := put_set k s' (ca_cidrSets r)\<rparr>"
    then obtain s s' where s: "map_of (ca_cidrSets r) k = Some s" "same_blocks s s'" "R s s'"
      "r' = r\<lparr>ca_cidrSets := put_set k s' (ca_cidrSets r)\<rparr>" by blast
    have "\<exists>t. map_of (ca_cidrSets r') j = Some t \<and> same_blocks s0 t \<and> R s0 t"
      if j: "map_of (ca_cidrSets r0) j = Some s0" for j s0
    proof -
      obtain t where t: "map_of (ca_cidrSets r) j = Some t" "same_blocks s0 t" "R s0 t"
        using r j unfolding ca_via_def by blast
      show ?thesis
        using t s(1,4) same_blocks_trans [OF t(2), of s'] R_trans [OF t(3), of s'] s(2,3) by (cases "j = k") auto
    qed
    then show ?thesis using r inv s(4) by (simp add: ca_via_def)
  qed (use r in simp)
  then show "ca_via R r0 (snd (on_key k (f p) r))" using res by simp
qed

end

interpretation occupy_any: set_method occupy_op "\<lambda>_. True" grows
  by unfold_locales (use occupy_op_step in \<open>auto simp: grows_def\<close>)

interpretation release_any: set_method release_op "\<lambda>_. True" shrinks
  by unfold_locales (use release_op_step in \<open>auto simp: shrinks_def\<close>)

lemma release_on_key: "keeps (ca_from r0) (on_key k (release_op c))"
proof (rule keepsI)
  fix r assume r: "ca_from r0 r"
  have "ca_via shrinks r r" using ca_via_refl [OF ca_via_inv [OF r]] by (simp add: shrinks_def)
  then have "ca_from r (snd (on_key k (release_op c) r))"
    using keepsD [OF release_any.on_key_via [OF TrueI]] ca_via_weaken by blast
  then show "ca_from r0 (snd (on_key k (release_op c) r))" using ca_via_trans [OF r] by blast
qed

lemmas on_key_from = keeps_grown [OF allocate_m.on_key_via [OF TrueI]] keeps_grown [OF occupy_any.on_key_via [OF TrueI]]
  release_on_key
lemmas on_key_via = allocate_m.on_key_via [OF TrueI] occupy_any.on_key_via [OF TrueI]

section \<open>Adding discovered networks\<close>

text \<open>Text of a discovered network: IPv4, or IPv6 outside the mapped range.\<close>

definition text_ok :: "string \<Rightarrow> bool" where
  "text_ok cidr = (case ParsePrefix cidr of Some (Prefix (Addr6 w z) b) \<Rightarrow> native6 w | _ \<Rightarrow> True)"

lemma ca_via_add:
  assumes "ca_via R r0 r" and "keyed k s" and "k \<notin> fst ` set (ca_cidrSets r)"
  shows "ca_via R r0 (r\<lparr>ca_cidrSets := ca_cidrSets r @ [(k, s)]\<rparr>)"
proof -
  have "map_of (ca_cidrSets r @ [(k, s)]) j = Some t" if "map_of (ca_cidrSets r) j = Some t" for j t
    using that by (simp add: map_add_def)
  moreover have "ca_inv (r\<lparr>ca_cidrSets := ca_cidrSets r @ [(k, s)]\<rparr>)"
    using assms by (simp add: ca_via_def ca_inv_def)
  ultimately show ?thesis using assms(1) unfolding ca_via_def by fastforce
qed

text \<open>Adding a discovered network: the masked prefix is the key, and a known key stays as it is.\<close>

lemma addCIDRSet_eq:
  assumes p: "ParsePrefix cidr = Some p" "pfx_Addr p = Addr6 w z" "native6 w" and q: "pod_subnet p maxPods = Ret (q, n)"
  obtains s where "keyed (pfx_Masked q) s" "used_set s = {}" "int (capacity s) = 2 ^ nat (n - pfx_Bits q)" "nodeMaskSize s = n"
    "addCIDRSet cidr maxPods =
      (\<lambda>r. (Ret (), if pfx_Masked q \<in> fst ` set (ca_cidrSets r) then r else r\<lparr>ca_cidrSets := ca_cidrSets r @ [(pfx_Masked q, s)]\<rparr>))"
proof -
  obtain w' z' c d where sh': "pfx_Addr p = Addr6 w' z'" "pfx_Bits q = int c" "n = int (c + d)"
    "pfx_Masked q = Prefix (Addr6 (w' AND prefix_mask c) []) (int c)" "64 \<le> c" "c + d \<le> 124" "d \<le> 16"
    by (rule pod_subnet_shape [OF ParsePrefix_valid(1) [OF p(1)] q])
  then have sh: "pfx_Bits q = int c" "n = int (c + d)" "pfx_Masked q = Prefix (Addr6 (w AND prefix_mask c) []) (int c)"
    using p(2) by simp_all
  note d = discovered_set [OF p(3) sh'(5,6,7)]
  let ?net = "net6 (w AND prefix_mask c) c"
  obtain s where s: "NewCIDRSet ?net n = Ret s" using NewCIDRSet_total [OF d(1)] sh(2) by blast
  have ok: "cluster_ok ?net n" using d(1) sh(2) by simp
  have "keyed (pfx_Masked q) s"
    using NewCIDRSet_inv(1) [OF ok s] NewCIDRSet_fields(1) [OF s] sh sh'(5,6)
    by (simp add: keyed_def key_net_def pfx_IsValid_def)
  moreover have "int (capacity s) = 2 ^ nat (n - pfx_Bits q)"
    using NewCIDRSet_fields(3) [OF s] getMaxCIDRs_exp [of c "c + d"] sh sh'(6,7) by (simp add: capacity_def)
  moreover have "addCIDRSet cidr maxPods =
      (\<lambda>r. (Ret (), if pfx_Masked q \<in> fst ` set (ca_cidrSets r) then r else r\<lparr>ca_cidrSets := ca_cidrSets r @ [(pfx_Masked q, s)]\<rparr>))"
    using p(1) q sh d(2) s sh'(6) by (simp add: addCIDRSet_def Let_def CIDRMask_def fun_eq_iff act_defs)
  ultimately show ?thesis using that NewCIDRSet_inv(2) [OF ok s] NewCIDRSet_fields(2) [OF s] by blast
qed

lemma addCIDRSet_fails: "ParsePrefix cidr = Some p \<Longrightarrow> (\<nexists>q n. pod_subnet p maxPods = Ret (q, n)) \<Longrightarrow> snd (addCIDRSet cidr maxPods r) = r"
  by (cases "pod_subnet p maxPods") (auto simp: addCIDRSet_def act_defs)

lemma addCIDRSet_via:
  assumes ok: "text_ok cidr"
  shows "keeps (ca_via grows r0) (addCIDRSet cidr maxPods)"
proof (cases "ParsePrefix cidr")
  case None
  then show ?thesis by (simp add: addCIDRSet_def)
next
  case (Some p)
  show ?thesis
  proof (cases "\<exists>q n. pod_subnet p maxPods = Ret (q, n)")
    case True
    then obtain q n where q: "pod_subnet p maxPods = Ret (q, n)" by blast
    obtain w z where w: "pfx_Addr p = Addr6 w z" by (rule pod_subnet_shape [OF ParsePrefix_valid(1) [OF Some] q])
    then have "native6 w" using ok Some by (cases p) (simp add: text_ok_def)
    then obtain s where "keyed (pfx_Masked q) s" "addCIDRSet cidr maxPods =
        (\<lambda>r. (Ret (), if pfx_Masked q \<in> fst ` set (ca_cidrSets r) then r else r\<lparr>ca_cidrSets := ca_cidrSets r @ [(pfx_Masked q, s)]\<rparr>))"
      using addCIDRSet_eq [OF Some w _ q] by blast
    then show ?thesis using ca_via_add by (auto simp: keeps_def)
  qed (use addCIDRSet_fails [OF Some] in \<open>simp add: keeps_def\<close>)
qed

text \<open>
  What is relied on of Talos: the public IPv6 prefixes that it reports for a link the discovery does
  not skip carry no zone (a \<^verbatim>\<open>netip.Prefix\<close> never does) and lie outside \<^verbatim>\<open>::/64\<close>, which is no public
  address space (it holds the unspecified and the loopback address, the IPv4-mapped and the IPv4-compatible
  ones). Nothing is asked of the other entries: the loopback address on \<^verbatim>\<open>lo\<close>, link-local and private
  addresses, and everything of IPv4.
\<close>

definition iface_native :: "AddressStatusSpec \<Rightarrow> bool" where
  "iface_native f \<longleftrightarrow>
     (\<not> client_skips (if_LinkName f) \<and> public_addr (iface_addr f) \<longrightarrow>
      (case iface_addr f of Addr6 w z \<Rightarrow> z = [] \<and> native6 w | _ \<Rightarrow> True))"

definition talos_ok :: "cloud_env \<Rightarrow> bool" where
  "talos_ok env \<longleftrightarrow> (\<forall>ip fs. cl_GetNodeIfaces env ip = Inr fs \<longrightarrow> list_all iface_native fs)"

text \<open>The entries that every node has: the loopback address and a link-local one.\<close>

definition local_ifaces :: "AddressStatusSpec list" where
  "local_ifaces =
     [\<lparr>if_LinkName = ''lo'', if_Address = Prefix (Addr6 1 []) 128, if_Flags = 0\<rparr>,
      \<lparr>if_LinkName = ''eth0'', if_Address = Prefix (Addr6 (word_of_int 338288524927261089654018896841347694593) []) 64, if_Flags = 0\<rparr>]"

lemma link_local: "\<not> IsGlobalUnicast (Addr6 (word_of_int 338288524927261089654018896841347694593) [])"
  by code_simp

lemma local_ifaces_native [simp]: "list_all iface_native local_ifaces"
  using link_local by (simp add: local_ifaces_def iface_native_def client_skips_def public_addr_def)

lemma native6_not_mapped: "native6 w \<Longrightarrow> \<not> is4in6 w"
  using native6_plain [of w 128] by (simp add: prefix_mask_def)

lemma discovered_text:
  assumes "list_all iface_native fs" and "cidr \<in> set (snd (NodeCIDRDiscovery ips fs))"
  obtains w b where "cidr = pfx_String (Prefix (Addr6 w []) (int b))" "b \<le> 128" "native6 w"
    "ParsePrefix cidr = Some (Prefix (Addr6 w []) (int b))"
proof -
  obtain f where f: "f \<in> set fs" "cidr = pfx_String (if_Address f)" "Is6 (iface_addr f)" "pfx_IsValid (if_Address f)"
    and el: "\<not> client_skips (if_LinkName f)" "public_addr (iface_addr f)"
    using assms(2) by (auto simp: NodeCIDRDiscovery_v6 sorted_prefixes(1) v6_prefixes_def eligible_def)
  then have "iface_native f" using assms(1) by (simp add: list_all_iff)
  then obtain w where w: "iface_addr f = Addr6 w []" "native6 w"
    using f(3) el by (cases "iface_addr f") (simp_all add: iface_native_def)
  define b where "b = nat (pfx_Bits (if_Address f))"
  have p: "if_Address f = Prefix (Addr6 w []) (int b)" and b: "b \<le> 128"
    using w(1) f(4) by (auto simp: b_def pfx_IsValid_def Prefix.expand nat_le_iff)
  have "ParsePrefix cidr = Some (Prefix (Addr6 w []) (int b))"
    using ParsePrefix_String [of "Addr6 w []" b] native6_not_mapped [OF w(2)] b f(2,4) unfolding p by (simp add: pfx_String_def)
  then show ?thesis using that p b w(2) f(2) by metis
qed

lemma discovered_ok: "list_all iface_native fs \<Longrightarrow> list_all text_ok (snd (NodeCIDRDiscovery ips fs))"
proof (unfold list_all_iff [of text_ok], rule ballI)
  fix c assume "list_all iface_native fs" "c \<in> set (snd (NodeCIDRDiscovery ips fs))"
  then show "text_ok c" by (rule discovered_text) (simp add: text_ok_def)
qed

lemma first_ifaces_ok: "talos_ok env \<Longrightarrow> list_all iface_native (first_ifaces (cl_GetNodeIfaces env) ips)"
  by (induction ips) (auto simp: talos_ok_def split: sum.splits)

end
