(* ===== verification/CloudLemmas.thy ===== *)
theory CloudLemmas
  imports CloudSets
begin

text \<open>
  What the operations of the cloud allocator keep: locales for predicates on its state that the methods of
  one set, the addition of a network and the patches keep, with the operations of the source proved once
  for each of them; the interpretations give the invariant, the monotonicity of the marks, the stability
  of the keys and of the accepted patches. Then the construction, and the runs of the controller.
\<close>

section \<open>The loops, one pass at a time\<close>

lemma occupyNodeIPs_Cons:
  "occupyNodeIPs env (a # as) =
    (if \<not> Is6 a \<or> IsPrivate a \<or> ParseIP (addr_String a) = IPnil then occupyNodeIPs env as
     else bind_act (occupyCIDR env \<lparr>net_IP = ParseIP (addr_String a), net_Mask = CIDRMask 128 128\<rparr>) (\<lambda>_. occupyNodeIPs env as))"
  by (rule ext) (simp add: Let_def)

lemma allocate_pods_Cons:
  "allocate_pods env node g (c # cs) =
    (case target_addr c g of None \<Rightarrow> panic_act
     | Some ip \<Rightarrow>
          bind_act (find_key env (\<lambda>k. pfx_Contains k ip)) (\<lambda>hit.
          bind_act (case hit of
                      None \<Rightarrow> ret_act None
                    | Some k \<Rightarrow>
                        bind_act (event_on_err node ''CIDRNotAvailable''
                          (wrap_act (Errorf_v ''failed to allocate cidr from cluster cidr'') (on_key k AllocateNext)))
                          (\<lambda>podCIDR. ret_act (Some podCIDR))) (\<lambda>podCIDR.
          bind_act (allocate_pods env node g cs) (\<lambda>rest. ret_act (podCIDR # rest)))))"
  by (rule ext) (simp add: panic_act_def split: option.splits)

lemma add_cidrs_Cons:
  "add_cidrs (c # cs) maxPods =
    (case ParsePrefix c of None \<Rightarrow> panic_act
     | Some p \<Rightarrow> if pfx_Bits p = 128 then add_cidrs cs maxPods
         else bind_act (wrap_act (Errorf_v ''error to add CIDRv6 to CIDRSet'') (addCIDRSet c maxPods)) (\<lambda>_. add_cidrs cs maxPods))"
  by (rule ext) (simp add: panic_act_def split: option.splits)

lemma occupy_pods_Cons:
  "occupy_pods env node (c # cs) =
    (case cl_parseCIDR env c of None \<Rightarrow> fail_act (Errorf ''failed to parse node, CIDR'')
     | Some podCIDR \<Rightarrow>
         bind_act (wrap_act (Errorf_v ''failed to mark cidr as occupied for node'') (occupyCIDR env podCIDR)) (\<lambda>ok.
          bind_act (if ok then ret_act ()
                    else bind_act (wrap_act (Errorf_v ''failed to find a CIDRSet for node, CIDR'') (defineNodeGlobalCIDRs env (Some node)))
                           (\<lambda>_. ret_act ())) (\<lambda>_. occupy_pods env node cs)))"
  by (rule ext) (simp add: fail_act_def split: option.splits)

section \<open>Invariants of the loops\<close>

text \<open>
  Two contracts for a predicate on allocators. The operations that look sets up, occupy and allocate
  keep every predicate that \<^verbatim>\<open>AllocateNext\<close> and \<^verbatim>\<open>Occupy\<close> on one set keep; those that give blocks back
  also need that of \<^verbatim>\<open>Release\<close>.
\<close>

locale up_invariant =
  fixes P :: "CloudAllocator \<Rightarrow> bool"
  assumes tick: "P r \<Longrightarrow> P (r\<lparr>ca_tick := n\<rparr>)" and events: "P r \<Longrightarrow> P (r\<lparr>ca_events := e\<rparr>)"
    and allocate: "keeps P (on_key k AllocateNext)" and occupy: "keeps P (on_key k (occupy_op c))"
begin

lemma find_key_keeps [intro]: "keeps P (find_key env Q)"
  by (simp add: keeps_def find_key_def tick)

lemma event_keeps [intro]: "keeps P m \<Longrightarrow> keeps P (event_on_err node status m)"
proof (rule keepsI)
  fix r assume "keeps P m" "P r"
  then have "P (snd (m r))" by (rule keepsD)
  then show "P (snd (event_on_err node status m r))"
    by (cases "m r"; cases "fst (m r)") (simp_all add: event_on_err_def events)
qed

lemma occupyCIDR_keeps [intro]: "keeps P (occupyCIDR env cidr)"
  unfolding occupyCIDR_def Let_def
  by (intro keeps_bind find_key_keeps) (auto split: option.splits intro!: keeps_bind keeps_wrap occupy)

lemma occupyNodeIPs_keeps [intro]: "keeps P (occupyNodeIPs env addrs)"
proof (induction addrs)
  case (Cons a as)
  then show ?case unfolding occupyNodeIPs_Cons by (auto intro!: keeps_bind)
qed (simp add: keeps_def)

lemma allocate_pods_keeps [intro]: "keeps P (allocate_pods env node g cidrs)"
proof (induction cidrs)
  case (Cons c cs)
  then show ?case unfolding allocate_pods_Cons
    by (auto split: option.splits intro!: keeps_bind keeps_wrap event_keeps allocate)
qed (simp add: keeps_def)

end

locale release_invariant = up_invariant +
  assumes release: "keeps P (on_key k (release_op c))"
begin

lemma releaseCIDRs_keeps [intro]: "keeps P (releaseCIDRs env cidrs)"
proof (induction cidrs)
  case Nil
  then show ?case by (simp add: keeps_def)
next
  case (Cons c cs)
  have "keeps P (bind_act
            (if e then ret_act ()
             else case ParseAddr (ip_String (net_IP podCIDR)) of
               None \<Rightarrow> panic_act
             | Some ip \<Rightarrow>
                 bind_act (find_key env (\<lambda>k. pfx_Contains k ip)) (\<lambda>hit.
                   case hit of
                     None \<Rightarrow> ret_act ()
                   | Some k \<Rightarrow> wrap_act (Errorf_v ''error when releasing CIDR'') (on_key k (release_op (Some podCIDR)))))
            (\<lambda>_. releaseCIDRs env cs))" for e podCIDR
    using Cons by (auto split: option.splits intro!: keeps_bind keeps_wrap release)
  then show ?case by (auto simp: keeps_def split: option.splits)
qed

lemma give_back_keeps [intro]: "keeps P (give_back env cidrs)"
proof (induction cidrs)
  case (Cons c cs)
  have "keeps P (bind_act (log_act (releaseCIDRs env [netp_String c])) (\<lambda>_. give_back env cs))"
    by (intro keeps_bind keeps_log releaseCIDRs_keeps Cons)
  then show ?case by (simp add: keeps_def)
qed (simp add: keeps_def)

lemma ReleaseCIDR_keeps [intro]: "keeps P (CloudAllocator.ReleaseCIDR env nodep)"
  by (auto simp: CloudAllocator.ReleaseCIDR_def split: option.splits)

lemma onDelete_keeps: "keeps P (CloudAllocator.onDelete env obj)"
proof (cases obj)
  case (ObjNode n)
  have "keeps P (bind_act (log_act (CloudAllocator.ReleaseCIDR env (Some n))) (\<lambda>_. ret_act [q_Add (node_Name n)]))"
    by (intro keeps_bind keeps_log ReleaseCIDR_keeps keeps_ret)
  then show ?thesis using ObjNode by (simp add: keeps_def CloudAllocator.onDelete_def)
qed (simp add: keeps_def CloudAllocator.onDelete_def)

end

locale grow_invariant = up_invariant +
  assumes add: "text_ok cidr \<Longrightarrow> keeps P (addCIDRSet cidr maxPods)"
begin

lemma add_cidrs_keeps: "list_all text_ok cidrs \<Longrightarrow> keeps P (add_cidrs cidrs maxPods)"
proof (induction cidrs)
  case (Cons c cs)
  then show ?case unfolding add_cidrs_Cons using add by (auto split: option.splits intro!: keeps_bind keeps_wrap)
qed (simp add: keeps_def)

lemma define_keeps:
  assumes "talos_ok env"
  shows "keeps P (defineNodeGlobalCIDRs env nodep)"
  using add_cidrs_keeps [OF discovered_ok [OF first_ifaces_ok [OF assms]]] unfolding defineNodeGlobalCIDRs_def Let_def
  by (auto split: option.splits sum.splits intro!: keeps_bind keeps_wrap)

lemma occupy_pods_keeps: "talos_ok env \<Longrightarrow> keeps P (occupy_pods env node cidrs)"
proof (induction cidrs)
  case (Cons c cs)
  then show ?case
    unfolding occupy_pods_Cons by (auto split: option.splits intro!: keeps_bind keeps_wrap define_keeps)
qed (simp add: keeps_def)

lemma occupyPodCIDRs_keeps: "talos_ok env \<Longrightarrow> keeps P (occupyPodCIDRs env node)"
  by (simp add: occupyPodCIDRs_def occupy_pods_keeps)

lemma occupy_listed_keeps: "talos_ok env \<Longrightarrow> keeps P (occupy_listed env nodes)"
proof (induction nodes)
  case (Cons n ns)
  then have "keeps P (bind_act (occupyPodCIDRs env n) (\<lambda>_. occupy_listed env ns))"
    using occupyPodCIDRs_keeps by (intro keeps_bind) simp_all
  then show ?case using Cons by (simp add: keeps_def)
qed (simp add: keeps_def)

lemma filter_keeps: "keeps P (CloudAllocator.filterOutServiceRange env c)"
  by (auto simp: CloudAllocator.filterOutServiceRange_def split: option.splits)

end

locale run_invariant = release_invariant + grow_invariant +
  assumes patched: "P r \<Longrightarrow> P (r\<lparr>ca_patched := p\<rparr>)"
begin

lemma updateCIDRsAllocation_keeps [intro]: "keeps P (CloudAllocator.updateCIDRsAllocation env n allocated)"
proof (rule keepsI)
  fix r assume r: "P r"
  have "P (snd (bind_act (give_back env allocated) (\<lambda>_. fail_act e) (r\<lparr>ca_events := x\<rparr>)))" for e x
    by (rule keepsD [OF keeps_bind [OF give_back_keeps]]) (simp_all add: r events)
  then show "P (snd (CloudAllocator.updateCIDRsAllocation env n allocated r))"
    using r keepsD [OF give_back_keeps r]
    by (auto simp: CloudAllocator.updateCIDRsAllocation_def Let_def patched events split: sum.splits outcome.splits)
qed

lemma AllocateOrOccupyCIDR_keeps:
  assumes "talos_ok env"
  shows "keeps P (CloudAllocator.AllocateOrOccupyCIDR env nodep)"
proof -
  have "keeps P (bind_act (defineNodeGlobalCIDRs env nodep) (\<lambda>g.
      bind_act (allocate_pods env node g cs) (\<lambda>allocated. CloudAllocator.updateCIDRsAllocation env (node_Name node) allocated)))" for cs node
    by (intro keeps_bind updateCIDRsAllocation_keeps define_keeps allocate_pods_keeps assms)
  then show ?thesis
    using occupyPodCIDRs_keeps [OF assms] by (auto simp: keeps_def CloudAllocator.AllocateOrOccupyCIDR_def split: option.splits)
qed

lemma syncNode_keeps: "talos_ok env \<Longrightarrow> keeps P (CloudAllocator.syncNode env key)"
  using AllocateOrOccupyCIDR_keeps [of env] ReleaseCIDR_keeps [of env]
  by (auto simp: keeps_def CloudAllocator.syncNode_def split: sum.splits)

lemma process_keeps: "talos_ok env \<Longrightarrow> keeps P (CloudAllocator.processNextNodeWorkItem env item)"
proof (rule keepsI)
  fix r assume t: "talos_ok env" and r: "P r"
  show "P (snd (CloudAllocator.processNextNodeWorkItem env item r))"
  proof (cases item)
    case (Some key)
    then show ?thesis
      using keepsD [OF syncNode_keeps [OF t] r, of key]
      by (auto simp: CloudAllocator.processNextNodeWorkItem_def split: prod.splits outcome.splits)
  qed (use r in \<open>simp add: CloudAllocator.processNextNodeWorkItem_def\<close>)
qed

end

text \<open>The set of keys, which only \<^verbatim>\<open>addCIDRSet\<close> changes.\<close>

definition keys :: "CloudAllocator \<Rightarrow> Prefix set" where
  "keys r = fst ` set (ca_cidrSets r)"

lemma keys_upd [simp]:
  "keys (r\<lparr>ca_tick := n\<rparr>) = keys r" "keys (r\<lparr>ca_events := e\<rparr>) = keys r" "keys (r\<lparr>ca_patched := p\<rparr>) = keys r"
  "keys (r\<lparr>ca_cidrSets := put_set k s (ca_cidrSets r)\<rparr>) = keys r"
  unfolding keys_def list.set_map [symmetric] by (simp_all del: list.set_map)

lemma keys_on_key: "keeps (\<lambda>r. keys r = K) (on_key k f)"
  by (auto simp: keeps_def on_key_def split: option.splits outcome.splits prod.splits)

interpretation ks: release_invariant "\<lambda>r. keys r = K" for K
  by unfold_locales (simp_all add: keys_on_key)

text \<open>The patches that the API server accepted; only \<^verbatim>\<open>updateCIDRsAllocation\<close> adds one.\<close>

lemma patched_on_key: "keeps (\<lambda>r. ca_patched r = p) (on_key k f)"
  by (auto simp: keeps_def on_key_def split: option.splits outcome.splits prod.splits)

lemma patched_add: "keeps (\<lambda>r. ca_patched r = p) (addCIDRSet cidr maxPods)"
proof -
  have "keeps (\<lambda>r. ca_patched r = p)
      (\<lambda>r. (Ret (), if k \<in> fst ` set (ca_cidrSets r) then r else r\<lparr>ca_cidrSets := ca_cidrSets r @ [(k, s)]\<rparr>))" for k s
    by (simp add: keeps_def)
  then show ?thesis
    unfolding addCIDRSet_def Let_def by (auto split: option.splits prod.splits intro!: keeps_bind)
qed

interpretation pa: release_invariant "\<lambda>r. ca_patched r = p" for p
  by unfold_locales (simp_all add: patched_on_key)

interpretation pg: grow_invariant "\<lambda>r. ca_patched r = p" for p
  by unfold_locales (simp_all add: patched_add)

interpretation up: grow_invariant "ca_via grows r0" for r0
  by unfold_locales (simp_all add: on_key_via addCIDRSet_via)

interpretation fr: run_invariant "ca_from r0" for r0
  by unfold_locales (simp_all add: on_key_from keeps_grown [OF addCIDRSet_via])

section \<open>Construction and the running controller\<close>

lemma cluster_key:
  assumes "canon_net c"
  obtains k where "ParsePrefix (net_String c) = Some k" "key_net k = c" "pfx_IsValid k"
  using assms
proof (rule canon_net_cases)
  fix v m assume n: "c = net4 v m" "m \<le> 32"
  then have "net_String c = addr_String (Addr4 v) @ ''/'' @ itoa m"
    by (simp add: net_String_def networkNumberAndMask_def ip_String_def mask_len_def)
  then have "ParsePrefix (net_String c) = Some (Prefix (Addr4 v) (int m))"
    using ParsePrefix_String [of "Addr4 v" m] n(2) by simp
  then show ?thesis using that [of "Prefix (Addr4 v) (int m)"] n by (simp add: key_net_def pfx_IsValid_def)
next
  fix v m assume n: "c = net6 v m" "m \<le> 128" "\<not> is4in6 v"
  then have "net_String c = addr_String (Addr6 v []) @ ''/'' @ itoa m"
    by (simp add: net_String_def networkNumberAndMask_def ip_String_def mask_len_def)
  then have "ParsePrefix (net_String c) = Some (Prefix (Addr6 v []) (int m))"
    using ParsePrefix_String [of "Addr6 v []" m] n(2,3) by simp
  then show ?thesis using that [of "Prefix (Addr6 v []) (int m)"] n by (simp add: key_net_def pfx_IsValid_def)
qed

definition keyed_sets :: "(Prefix \<times> CidrSet) list \<Rightarrow> bool" where
  "keyed_sets sets \<longleftrightarrow> distinct (map fst sets) \<and> list_all (\<lambda>(k, s). keyed k s) sets"

lemma keyed_sets_assign: "keyed_sets sets \<Longrightarrow> keyed k s \<Longrightarrow> keyed_sets (assign_set k s sets)"
  by (auto simp: keyed_sets_def assign_set_def put_set_def list_all_iff comp_def split_def)

lemma keys_assign: "fst ` set (assign_set k s sets) = insert k (fst ` set sets)"
proof -
  have "fst ` set (put_set k s sets) = fst ` set sets" using map_fst_put_set [of k s sets] by (metis list.set_map)
  then show ?thesis by (auto simp: assign_set_def)
qed

lemma new_cloud_sets_ok:
  assumes "list_all2 cluster_ok cs ms" and "keyed_sets acc"
  shows "\<exists>sets. new_cloud_sets cs ms acc = Ret sets \<and> keyed_sets sets \<and> fst ` set acc \<subseteq> fst ` set sets \<and>
    (\<forall>c\<in>set cs. \<exists>k\<in>fst ` set sets. key_net k = c)"
  using assms
proof (induction cs ms acc rule: new_cloud_sets.induct)
  case (3 c cs m ms acc)
  have ok: "cluster_ok c m" "list_all2 cluster_ok cs ms" using 3(2) by simp_all
  obtain s where s: "NewCIDRSet c m = Ret s" using NewCIDRSet_total [OF ok(1)] by blast
  obtain k where k: "ParsePrefix (net_String c) = Some k" "key_net k = c" "pfx_IsValid k"
    using cluster_key ok(1) by (auto simp: cluster_ok_def)
  have "keyed k s" using NewCIDRSet_inv(1) [OF ok(1) s] NewCIDRSet_fields(1) [OF s] k by (simp add: keyed_def)
  then have "keyed_sets (assign_set k s acc)" using keyed_sets_assign 3(3) by blast
  then obtain sets where sets: "new_cloud_sets cs ms (assign_set k s acc) = Ret sets" "keyed_sets sets"
    "fst ` set (assign_set k s acc) \<subseteq> fst ` set sets" "\<forall>c\<in>set cs. \<exists>k\<in>fst ` set sets. key_net k = c"
    using 3(1) [OF k(1) ok(2), of s] by blast
  then show ?case using s k keys_assign [of k s acc] by auto
qed simp_all

lemma new_cloud_inv:
  assumes t: "talos_ok env" and ok: "list_all2 cluster_ok (ClusterCIDRs params) (NodeCIDRMaskSizes params)"
    and r: "NewCIDRCloudAllocator env params nodes = Ret r"
  shows "ca_inv r \<and> ca_clusterCIDRs r = ClusterCIDRs params \<and>
    (\<forall>c\<in>set (ClusterCIDRs params). \<exists>k s. map_of (ca_cidrSets r) k = Some s \<and> clusterCIDR s = c)"
proof -
  obtain sets where sets: "new_cloud_sets (ClusterCIDRs params) (NodeCIDRMaskSizes params) [] = Ret sets" "keyed_sets sets"
    "\<forall>c\<in>set (ClusterCIDRs params). \<exists>k\<in>fst ` set sets. key_net k = c"
    using new_cloud_sets_ok [OF ok, of "[]"] by (auto simp: keyed_sets_def)
  let ?ra = "\<lparr>ca_clusterCIDRs = ClusterCIDRs params, ca_cidrSets = sets, ca_tick = 0, ca_events = [], ca_patched = []\<rparr>"
  let ?m = "bind_act (CloudAllocator.filterOutServiceRange env (ServiceCIDR params)) (\<lambda>_.
            bind_act (CloudAllocator.filterOutServiceRange env (SecondaryServiceCIDR params)) (\<lambda>_.
              case nodes of None \<Rightarrow> ret_act () | Some ns \<Rightarrow> occupy_listed env ns))"
  have kp: "keeps (ca_from ?ra) ?m"
    by (intro keeps_bind fr.filter_keeps) (auto split: option.splits intro: fr.occupy_listed_keeps [OF t])
  have inv: "ca_inv ?ra" using sets(2) by (simp add: ca_inv_def keyed_sets_def)
  have "ca_from ?ra (snd (?m ?ra))" by (rule keepsD [OF kp ca_via_refl [OF inv TrueI]])
  moreover obtain res r1 where m: "?m ?ra = (res, r1)" by (cases "?m ?ra")
  moreover have "NewCIDRCloudAllocator env params nodes = bind_out res (\<lambda>_. Ret r1)"
    unfolding NewCIDRCloudAllocator_def sets(1) bind_out.simps Let_def m by simp
  then have "r1 = r" using r by (cases res) simp_all
  ultimately have fr: "ca_from ?ra r" by simp
  have "\<exists>k s. map_of (ca_cidrSets r) k = Some s \<and> clusterCIDR s = c" if c: "c \<in> set (ClusterCIDRs params)" for c
  proof -
    obtain k where k: "k \<in> fst ` set sets" "key_net k = c" using sets(3) c by blast
    then have "map_of sets k \<noteq> None" by (simp add: map_of_eq_None_iff)
    then obtain s0 where s0: "map_of (ca_cidrSets ?ra) k = Some s0" by (cases "map_of sets k") simp_all
    have "\<exists>s. map_of (ca_cidrSets r) k = Some s"
      using conjunct2 [OF conjunct2 [OF fr [unfolded ca_via_def]]] s0 by blast
    then obtain s where s: "map_of (ca_cidrSets r) k = Some s" ..
    then show ?thesis using ca_inv_get [OF ca_via_inv [OF fr] s] k(2) by (auto simp: keyed_def)
  qed
  then show ?thesis using fr by (simp add: ca_via_def)
qed

text \<open>
  The runs of the controller: construction, then work items and delete events in any order, with any
  answers of the API server, the parser and Talos, and any order of map iteration.
\<close>

inductive cloud_reach :: "CIDRAllocatorParams \<Rightarrow> CloudAllocator \<Rightarrow> bool" for params :: CIDRAllocatorParams where
  start: "talos_ok env \<Longrightarrow> NewCIDRCloudAllocator env params nodes = Ret r \<Longrightarrow> cloud_reach params r"
| work: "cloud_reach params r \<Longrightarrow> talos_ok env \<Longrightarrow> CloudAllocator.processNextNodeWorkItem env item r = (res, r') \<Longrightarrow> cloud_reach params r'"
| delete: "cloud_reach params r \<Longrightarrow> talos_ok env \<Longrightarrow> CloudAllocator.onDelete env obj r = (q, r') \<Longrightarrow> cloud_reach params r'"

end
