(* ===== verification/CloudProps.thy ===== *)
theory CloudProps
  imports CloudLemmas RangeProps
begin

text \<open>
  The properties of the cloud allocator: the source of every block it hands out, that pod CIDRs avoid the
  node's own addresses, the consistency of its sets in every run, and the pod subnets of discovered networks.
\<close>

lemma keeps_up: "keeps (ca_via grows r) m \<Longrightarrow> m r = (x, r') \<Longrightarrow> ca_inv r \<Longrightarrow> ca_via grows r r'"
  by (erule (1) keeps_result) (rule ca_via_refl, simp_all)

section \<open>Lookup in the map\<close>

text \<open>Go's \<^verbatim>\<open>range\<close> over a map visits every entry, in some order.\<close>

definition order_ok :: "cloud_env \<Rightarrow> bool" where
  "order_ok env \<longleftrightarrow> (\<forall>n ks. set (cl_order env n ks) = set ks)"

text \<open>No address lies in the networks of two keys.\<close>

definition keys_disjoint :: "CloudAllocator \<Rightarrow> bool" where
  "keys_disjoint r \<longleftrightarrow> (\<forall>k\<in>keys r. \<forall>k'\<in>keys r. \<forall>a. pfx_Contains k a \<longrightarrow> pfx_Contains k' a \<longrightarrow> k = k')"

lemma find_key_spec:
  assumes "order_ok env"
  shows "\<exists>hit. find_key env P r = (Ret hit, r\<lparr>ca_tick := ca_tick r + 1\<rparr>) \<and>
    (case hit of None \<Rightarrow> \<forall>k\<in>keys r. \<not> P k | Some k \<Rightarrow> k \<in> keys r \<and> P k)"
proof -
  let ?ks = "cl_order env (ca_tick r) (map fst (ca_cidrSets r))"
  have ks: "set ?ks = keys r" using assms by (simp add: order_ok_def keys_def)
  have "case find P ?ks of None \<Rightarrow> \<forall>k\<in>keys r. \<not> P k | Some k \<Rightarrow> k \<in> keys r \<and> P k"
    using find_None_iff [of P ?ks] find_Some_iff [of P ?ks] nth_mem [of _ ?ks] unfolding ks [symmetric]
    by (auto split: option.splits)
  then show ?thesis by (simp add: find_key_def)
qed

lemma keys_get: "k \<in> keys r \<Longrightarrow> \<exists>s. map_of (ca_cidrSets r) k = Some s"
  by (cases "map_of (ca_cidrSets r) k") (auto simp: keys_def map_of_eq_None_iff)

lemma get_keys: "map_of (ca_cidrSets r) k = Some s \<Longrightarrow> k \<in> keys r"
  by (force simp: keys_def dest: map_of_SomeD)

section \<open>What is marked\<close>

text \<open>The network \<open>c\<close> is marked as used in every set whose network holds the address \<open>a\<close>.\<close>

definition marked :: "CloudAllocator \<Rightarrow> Addr \<Rightarrow> IPNet \<Rightarrow> bool" where
  "marked r a c \<longleftrightarrow> (\<forall>k s. map_of (ca_cidrSets r) k = Some s \<longrightarrow> pfx_Contains k a \<longrightarrow> reserved c s)"

lemma marked_up:
  assumes m: "marked r a c" and up: "ca_via grows r r'" and ks: "keys r' = keys r"
  shows "marked r' a c"
  unfolding marked_def
proof (intro allI impI)
  fix k s' assume k: "map_of (ca_cidrSets r') k = Some s'" "pfx_Contains k a"
  then obtain s where s: "map_of (ca_cidrSets r) k = Some s" using get_keys keys_get ks by blast
  then have "reserved c s" using m k(2) by (simp add: marked_def)
  moreover have "same_blocks s s'" "grows s s'" using up s k(1) unfolding ca_via_def by fastforce+
  ultimately show "reserved c s'" by (rule reserved_grows)
qed

lemma on_key_Ret_iff:
  "on_key k f r = (Ret x, r') \<longleftrightarrow> (\<exists>s s'. map_of (ca_cidrSets r) k = Some s \<and> f s = Ret (x, s') \<and>
     r' = r\<lparr>ca_cidrSets := put_set k s' (ca_cidrSets r)\<rparr>)"
  by (auto simp: on_key_def split: option.splits outcome.splits)

lemma occupyCIDR_marks:
  assumes ord: "order_ok env" and inv: "ca_inv r" and dis: "keys_disjoint r" and c: "canon_net c"
    and a: "AddrFromSlice (net_IP c) = Some a" and res: "occupyCIDR env c r = (Ret b, r')"
  shows "marked r' a c"
proof -
  obtain hit where hit: "find_key env (\<lambda>k. pfx_Contains k a) r = (Ret hit, r\<lparr>ca_tick := ca_tick r + 1\<rparr>)"
    "case hit of None \<Rightarrow> \<forall>k\<in>keys r. \<not> pfx_Contains k a | Some k \<Rightarrow> k \<in> keys r \<and> pfx_Contains k a"
    using find_key_spec [OF ord] by blast
  show ?thesis
  proof (cases hit)
    case None
    then have "r' = r\<lparr>ca_tick := ca_tick r + 1\<rparr>" using res hit(1) a by (simp add: occupyCIDR_def act_defs)
    then show ?thesis using None hit(2) get_keys by (auto simp: marked_def)
  next
    case (Some k)
    let ?r = "r\<lparr>ca_tick := ca_tick r + 1\<rparr>"
    obtain s where s: "map_of (ca_cidrSets r) k = Some s" using hit(2) Some keys_get by auto
    have "\<exists>u. on_key k (occupy_op (Some c)) ?r = (Ret u, r')"
      using res a Some unfolding occupyCIDR_def Let_def by (simp add: bind_act_Ret_iff hit(1) wrap_act_Ret_iff ret_act_def)
    then obtain s' where s': "Occupy s (Some c) = Ret s'" "r' = ?r\<lparr>ca_cidrSets := put_set k s' (ca_cidrSets r)\<rparr>"
      using s by (auto simp: on_key_Ret_iff occupy_op_def no_result_Ret)
    have r': "reserved c s'" using Occupy_reserves [OF _ c s'(1)] ca_inv_get [OF inv s] by (simp add: keyed_def)
    show ?thesis
      unfolding marked_def
    proof (intro allI impI)
      fix j t assume j: "map_of (ca_cidrSets r') j = Some t" "pfx_Contains j a"
      show "reserved c t"
      proof (cases "j = k")
        case True
        then show ?thesis using j(1) r' s s'(2) by simp
      next
        case False
        then have "j \<in> keys r" using j(1) s'(2) get_keys by simp
        then show ?thesis using dis hit(2) Some j(2) False by (auto simp: keys_disjoint_def)
      qed
    qed
  qed
qed

text \<open>The network of a single IPv6 address.\<close>

lemma host_net:
  assumes "\<not> is4in6 w"
  shows "ParseIP (addr_String (Addr6 w [])) = IP16 w" and "canon_net (net6 w 128)" and "CIDRMask 128 128 = Mask16 (prefix_mask 128)"
    and "net_Contains (net6 w 128) (IP16 w)"
  using ParseAddr_plain [of "Addr6 w []"] assms
  by (simp_all add: ParseIP_def plain_addr_def CIDRMask_def net_base_def net_Contains6)

lemma occupyNodeIPs_marks:
  assumes ord: "order_ok env" and w: "\<not> is4in6 w" "\<not> IsPrivate (Addr6 w [])"
    and "ca_inv r" and "keys_disjoint r" and "Addr6 w [] \<in> set as" and "occupyNodeIPs env as r = (Ret (), r')"
  shows "marked r' (Addr6 w []) (net6 w 128)"
  using assms(4-)
proof (induction as arbitrary: r)
  case (Cons a as)
  let ?c = "\<lparr>net_IP = ParseIP (addr_String a), net_Mask = CIDRMask 128 128\<rparr>"
  show ?case
  proof (cases "\<not> Is6 a \<or> IsPrivate a \<or> ParseIP (addr_String a) = IPnil")
    case True
    then have "a \<noteq> Addr6 w []" using w host_net(1) [OF w(1)] by auto
    then show ?thesis using Cons True by (simp add: occupyNodeIPs_Cons)
  next
    case False
    then obtain b r1 where r1: "occupyCIDR env ?c r = (Ret b, r1)" "occupyNodeIPs env as r1 = (Ret (), r')"
      using Cons.prems(4) unfolding occupyNodeIPs_Cons by (simp add: bind_act_Ret_iff) blast
    have up: "ca_via grows r r1" and ks: "keys r1 = keys r" and up': "ca_via grows r1 r'" and ks': "keys r' = keys r1"
    proof -
      show u: "ca_via grows r r1" by (rule keeps_up [OF up.occupyCIDR_keeps r1(1) Cons.prems(1)])
      show "keys r1 = keys r" by (rule keeps_result [OF ks.occupyCIDR_keeps r1(1) refl])
      show "ca_via grows r1 r'" by (rule keeps_up [OF up.occupyNodeIPs_keeps r1(2) ca_via_inv [OF u]])
      show "keys r' = keys r1" by (rule keeps_result [OF ks.occupyNodeIPs_keeps r1(2) refl])
    qed
    have dis: "keys_disjoint r1" using Cons.prems(2) ks by (simp add: keys_disjoint_def)
    show ?thesis
    proof (cases "a = Addr6 w []")
      case True
      then have "?c = net6 w 128" using host_net [OF w(1)] by simp
      then have "occupyCIDR env (net6 w 128) r = (Ret b, r1)" using r1(1) by simp
      then have "marked r1 (Addr6 w []) (net6 w 128)"
        using occupyCIDR_marks [OF ord Cons.prems(1,2) host_net(2) [OF w(1)], of "Addr6 w []"] by simp
      then show ?thesis using marked_up up' ks' by blast
    next
      case False
      then show ?thesis using Cons.IH [OF ca_via_inv [OF up] dis _ r1(2)] Cons.prems(3) by simp
    qed
  qed
qed simp

section \<open>What is allocated\<close>

text \<open>A block that is not in use, of a set whose network holds the address.\<close>

definition fresh_in :: "CloudAllocator \<Rightarrow> Addr \<Rightarrow> IPNet \<Rightarrow> bool" where
  "fresh_in r ip pod \<longleftrightarrow> (\<exists>k s j. map_of (ca_cidrSets r) k = Some s \<and> pfx_Contains k ip \<and> j < capacity s \<and>
     j \<notin> used_set s \<and> pod = nth_block s j)"

lemma fresh_in_up:
  assumes f: "fresh_in r' ip pod" and up: "ca_via grows r r'" and ks: "keys r' = keys r"
  shows "fresh_in r ip pod"
proof -
  obtain k s' j where k: "map_of (ca_cidrSets r') k = Some s'" "pfx_Contains k ip" "j < capacity s'" "j \<notin> used_set s'"
    "pod = nth_block s' j" using f by (auto simp: fresh_in_def)
  then obtain s where s: "map_of (ca_cidrSets r) k = Some s" using get_keys keys_get ks by blast
  then have b: "same_blocks s s'" and "grows s s'" using up k(1) unfolding ca_via_def by fastforce+
  then have "j < capacity s" "j \<notin> used_set s" "pod = nth_block s j"
    using k same_blocksD(2,3) [OF b] by (auto simp: grows_def)
  then show ?thesis using s k(2) by (auto simp: fresh_in_def)
qed

lemma event_on_err_Ret_iff: "event_on_err node status m r = (Ret x, r') \<longleftrightarrow> m r = (Ret x, r')"
  by (cases "m r"; cases "fst (m r)") (auto simp: event_on_err_def)

text \<open>The source of one block: the target address and what the search over the map found.\<close>

definition sourced :: "CloudAllocator \<Rightarrow> string \<Rightarrow> IPNet \<Rightarrow> IPNet option \<Rightarrow> bool" where
  "sourced r g c p \<longleftrightarrow> (\<exists>ip. target_addr c g = Some ip \<and>
     (case p of None \<Rightarrow> \<forall>k\<in>keys r. \<not> pfx_Contains k ip | Some pod \<Rightarrow> fresh_in r ip pod))"

lemma sourced_up:
  "sourced r' g c p \<Longrightarrow> ca_via grows r r' \<Longrightarrow> keys r' = keys r \<Longrightarrow> sourced r g c p"
  unfolding sourced_def using fresh_in_up by (auto split: option.splits)

lemma AllocateNext_fresh:
  assumes "cidr_inv s" and "AllocateNext s = Ret (pod, s')"
  shows "\<exists>j. j < capacity s \<and> j \<notin> used_set s \<and> pod = nth_block s j"
proof -
  have "used_set s \<noteq> {..<capacity s}" using assms AllocateNext_full by fastforce
  then show ?thesis using AllocateNext_contract [OF assms(1)] assms(2) by auto
qed

lemma allocate_pods_sourced:
  assumes ord: "order_ok env" and "ca_inv r" and "allocate_pods env node g cs r = (Ret allocated, r')"
  shows "list_all2 (sourced r g) cs allocated"
  using assms(2-)
proof (induction cs arbitrary: r allocated)
  case (Cons c cs)
  obtain ip where ip: "target_addr c g = Some ip"
    using Cons.prems(2) by (cases "target_addr c g") (simp_all add: allocate_pods_Cons panic_act_def)
  let ?r = "r\<lparr>ca_tick := ca_tick r + 1\<rparr>"
  obtain hit where hit: "find_key env (\<lambda>k. pfx_Contains k ip) r = (Ret hit, ?r)"
    "case hit of None \<Rightarrow> \<forall>k\<in>keys r. \<not> pfx_Contains k ip | Some k \<Rightarrow> k \<in> keys r \<and> pfx_Contains k ip"
    using find_key_spec [OF ord] by blast
  define one where "one = (case hit of
                      None \<Rightarrow> ret_act None
                    | Some k \<Rightarrow>
                        bind_act (event_on_err node ''CIDRNotAvailable''
                          (wrap_act (Errorf_v ''failed to allocate cidr from cluster cidr'') (on_key k AllocateNext)))
                          (\<lambda>podCIDR. ret_act (Some podCIDR)))"
  obtain p r1 rest where p: "one ?r = (Ret p, r1)" "allocate_pods env node g cs r1 = (Ret rest, r')" "allocated = p # rest"
    using Cons.prems(2) ip hit(1) unfolding allocate_pods_Cons one_def by (auto simp: bind_act_Ret_iff ret_act_def)
  have "keeps (ca_via grows r) one" "keeps (\<lambda>x. keys x = keys r) one"
    unfolding one_def
    by (auto split: option.splits intro!: keeps_bind keeps_wrap up.event_keeps ks.event_keeps up.allocate ks.allocate)
  then have up: "ca_via grows r r1" and ks: "keys r1 = keys r"
    using keepsD [of _ one ?r] p(1) ca_via_refl [OF Cons.prems(1), of grows] by fastforce+
  have "list_all2 (sourced r1 g) cs rest" using Cons.IH [OF ca_via_inv [OF up] p(2)] .
  then have "list_all2 (sourced r g) cs rest" by (rule list_all2_mono) (rule sourced_up [OF _ up ks])
  moreover have "sourced r g c p"
  proof (cases hit)
    case None
    then show ?thesis using p(1) hit(2) ip by (auto simp: one_def ret_act_def sourced_def)
  next
    case (Some k)
    then obtain pod where pod: "p = Some pod" "on_key k AllocateNext ?r = (Ret pod, r1)"
      using p(1) by (auto simp: one_def bind_act_Ret_iff event_on_err_Ret_iff wrap_act_Ret_iff ret_act_def)
    then obtain s s' where s: "map_of (ca_cidrSets r) k = Some s" "AllocateNext s = Ret (pod, s')"
      by (auto simp: on_key_Ret_iff)
    then show ?thesis
      using AllocateNext_fresh [OF _ s(2)] ca_inv_get [OF Cons.prems(1) s(1)] pod(1) ip hit(2) Some
      by (auto simp: sourced_def fresh_in_def keyed_def)
  qed
  ultimately show ?case using p(3) by simp
qed simp

section \<open>The addresses of the node itself\<close>

text \<open>The public IPv6 addresses of a node and the IPv6 networks that Talos finds them on.\<close>

abbreviation public6 :: "Addr list \<Rightarrow> Addr list" where
  "public6 ips \<equiv> filter (\<lambda>a. Is6 a \<and> \<not> IsPrivate a) ips"

definition node_networks :: "cloud_env \<Rightarrow> Addr list \<Rightarrow> string list" where
  "node_networks env ips = snd (NodeCIDRDiscovery (public6 ips) (first_ifaces (cl_GetNodeIfaces env) ips))"

lemma xor_mask_eq_0: "(v XOR w) AND m = 0 \<longleftrightarrow> v AND m = w AND (m :: 'a::len word)"
  by (auto simp: bit_eq_iff bit_simps)

lemma keyed_contains:
  assumes k: "keyed k s" and w: "\<not> is4in6 w" and c: "net_Contains (clusterCIDR s) (IP16 w)"
  shows "pfx_Contains k (Addr6 w [])"
proof -
  have g: "cidr_geom s" and n: "clusterCIDR s = key_net k" and v: "pfx_IsValid k"
    using k cidr_inv_geom by (simp_all add: keyed_def)
  show ?thesis
  proof (cases "pfx_Addr k")
    case AddrZero
    then show ?thesis using v by (simp add: pfx_IsValid_def)
  next
    case (Addr4 u)
    then show ?thesis using c w by (simp add: n key_net_def net_Contains4)
  next
    case (Addr6 u z)
    then have "net_IP (clusterCIDR s) = IP16 u" by (simp add: n key_net_def)
    then have "\<not> is4in6 u" using g by (auto simp: cidr_geom_def geom6_def no4in6_def)
    then have "w \<in> net_addrs u (nat (pfx_Bits k))" using c Addr6 by (simp add: n key_net_def net_Contains6)
    then show ?thesis using v Addr6 by (simp add: pfx_Contains_def xor_mask_eq_0 and_prefix_mask_eq_iff)
  qed
qed

lemma fresh_avoids:
  assumes inv: "ca_inv r" and w: "\<not> is4in6 w" and m: "marked r (Addr6 w []) (net6 w 128)" and f: "fresh_in r ip pod"
  shows "\<not> net_Contains pod (IP16 w)" and "canon_net pod"
proof -
  obtain k s j where k: "map_of (ca_cidrSets r) k = Some s" "j < capacity s" "j \<notin> used_set s" "pod = nth_block s j"
    using f by (auto simp: fresh_in_def)
  have ks: "keyed k s" using ca_inv_get [OF inv k(1)] .
  then have g: "cidr_geom s" using cidr_inv_geom by (simp add: keyed_def)
  show "canon_net pod" using block_canon_net [OF g k(2)] k(4) by simp
  show "\<not> net_Contains pod (IP16 w)"
  proof
    assume c: "net_Contains pod (IP16 w)"
    then have "net_Contains (clusterCIDR s) (IP16 w)"
      using block_contains [OF g, of "int j"] k(2,4) capacity_geom(1) [OF g] by simp
    then have "reserved (net6 w 128) s" using m k(1) keyed_contains [OF ks w] by (simp add: marked_def)
    moreover have "j \<in> hits (nth_block s) (capacity s) (net6 w 128)"
      using c k(2,4) host_net(4) [OF w] by (auto simp: hits_def overlap_def)
    ultimately show False using k(3) by (auto simp: reserved_def)
  qed
qed

text \<open>The node's networks are known: they are looked for in the map, or added to it.\<close>

definition settle :: "cloud_env \<Rightarrow> Node \<Rightarrow> Addr list \<Rightarrow> Prefix option \<Rightarrow> (CloudAllocator, string) act" where
  "settle env node ips hit =
     (let occ = wrap_act (Errorf_v ''error to occupy node IPs in CIDRSet'') (occupyNodeIPs env (public6 ips)) in
      case hit of
        Some k \<Rightarrow> bind_act occ (\<lambda>_. ret_act (pfx_String k))
      | None \<Rightarrow> bind_act (add_cidrs (node_networks env ips) (getNodeMaxPods (Some node)))
          (\<lambda>_. bind_act occ (\<lambda>_. ret_act (hd (node_networks env ips)))))"

lemma define_eq:
  assumes "GetNodeIPs (Some node) = Inr ips" and "ips \<noteq> []" and "cl_talosNew env = None" and "node_networks env ips \<noteq> []"
  shows "defineNodeGlobalCIDRs env (Some node) =
    bind_act (lift_act (of_sum (cl_ParseCIDRs env (node_networks env ips))))
      (\<lambda>subnets. bind_act (find_key env (global_key subnets)) (settle env node ips))"
  using assms unfolding node_networks_def settle_def Let_def by (simp add: defineNodeGlobalCIDRs_def Let_def)

lemma define_occupies:
  assumes t: "talos_ok env" and inv: "ca_inv r" and ips: "GetNodeIPs (Some node) = Inr ips" and net: "node_networks env ips \<noteq> []"
    and res: "defineNodeGlobalCIDRs env (Some node) r = (Ret g, r1)"
  shows "\<exists>rm. ca_inv rm \<and> occupyNodeIPs env (public6 ips) rm = (Ret (), r1)"
proof -
  let ?cidrs = "node_networks env ips"
  let ?occ = "wrap_act (Errorf_v ''error to occupy node IPs in CIDRSet'') (occupyNodeIPs env (public6 ips))"
  have "ips \<noteq> []" "cl_talosNew env = None"
    using res ips unfolding defineNodeGlobalCIDRs_def by (auto simp: fail_act_def split: if_splits option.splits)
  from res [unfolded define_eq [OF ips this net]]
  obtain subnets where "bind_act (find_key env (global_key subnets)) (settle env node ips) r = (Ret g, r1)"
    by (auto simp: bind_act_Ret_iff lift_act_def)
  then have b: "settle env node ips (find (global_key subnets) (cl_order env (ca_tick r) (map fst (ca_cidrSets r)))) (r\<lparr>ca_tick := ca_tick r + 1\<rparr>) = (Ret g, r1)"
    by (simp add: bind_act_def find_key_def)
  obtain hit r2 where r2: "ca_inv r2" "settle env node ips hit r2 = (Ret g, r1)"
    by (rule that [OF _ b]) (simp add: inv)
  show ?thesis
  proof (cases hit)
    case None
    then obtain r3 where r3: "add_cidrs ?cidrs (getNodeMaxPods (Some node)) r2 = (Ret (), r3)" "?occ r3 = (Ret (), r1)"
      using r2(2) by (auto simp: settle_def Let_def bind_act_Ret_iff ret_act_def)
    have kp: "keeps (ca_via grows r2) (add_cidrs ?cidrs (getNodeMaxPods (Some node)))"
      using up.add_cidrs_keeps [OF discovered_ok [OF first_ifaces_ok [OF t]]] by (simp add: node_networks_def)
    have "ca_inv r3" by (rule ca_via_inv [OF keeps_up [OF kp r3(1) r2(1)]])
    then show ?thesis using r3(2) by (auto simp: wrap_act_Ret_iff)
  next
    case (Some k)
    then show ?thesis using r2 by (auto simp: settle_def Let_def bind_act_Ret_iff ret_act_def wrap_act_Ret_iff)
  qed
qed

lemma patched_entry:
  assumes "CloudAllocator.updateCIDRsAllocation env n allocated r = (res, r')"
    and "ca_patched r' = ca_patched r @ [(m, cidrs)]"
  shows "cidrs = ipnetToStringList allocated \<and> ca_cidrSets r' = ca_cidrSets r"
proof -
  have g: "ca_patched (snd (give_back env allocated r)) = ca_patched r"
    by (rule keepsD [OF pa.give_back_keeps refl])
  have f: "ca_patched b = ca_patched r"
    if "bind_act (give_back env allocated) (\<lambda>_. fail_act e) (r\<lparr>ca_events := x\<rparr>) = (a, b)" for e x a b
    by (rule keeps_result [OF keeps_bind [OF pa.give_back_keeps] that]) simp_all
  show ?thesis
    using assms g
    by (auto simp: CloudAllocator.updateCIDRsAllocation_def Let_def split: sum.splits outcome.splits if_splits dest!: f)
qed

section \<open>A first node on a network of its own\<close>

definition demo_w :: u128 where
  "demo_w = 0x20010db8000000000000000000000001"

definition demo_prefix :: Prefix where
  "demo_prefix = Prefix (Addr6 demo_w []) 64"

definition demo_node :: Node where
  "demo_node = (blank_node ''n'')\<lparr>status_Addresses := [\<lparr>addr_Type = ''ExternalIP'', addr_Address = addr_String (Addr6 demo_w [])\<rparr>]\<rparr>"

definition demo_cloud_env :: cloud_env where
  "demo_cloud_env = \<lparr>cl_parseCIDR = ParseCIDR, cl_lister = \<lambda>_ _. Inr demo_node, cl_send_patch = \<lambda>_ _ _. None,
     cl_order = \<lambda>_ ks. ks, cl_talosNew = None,
     cl_ParseCIDRs = \<lambda>cs. if list_all (\<lambda>c. ParseCIDR c \<noteq> None) cs then Inr (map (the \<circ> ParseCIDR) cs) else Inl (Errorf ''invalid CIDR''),
     cl_GetNodeIfaces = \<lambda>_. Inr (local_ifaces @ [\<lparr>if_LinkName = ''eth0'', if_Address = demo_prefix, if_Flags = 0\<rparr>])\<rparr>"

definition demo_cloud :: CloudAllocator where
  "demo_cloud = \<lparr>ca_clusterCIDRs = [demo6], ca_cidrSets = [], ca_tick = 0, ca_events = [], ca_patched = []\<rparr>"

abbreviation demo_base :: u128 where "demo_base \<equiv> demo_w AND prefix_mask 64"
abbreviation demo_key :: Prefix where "demo_key \<equiv> Prefix (Addr6 demo_base []) 64"

lemma demo_w_facts: "native6 demo_w" "\<not> is4in6 demo_w" "\<not> IsPrivate (Addr6 demo_w [])" "IsGlobalUnicast (Addr6 demo_w [])"
proof -
  show n: "native6 demo_w" unfolding native6_def demo_w_def by code_simp
  then show p: "\<not> is4in6 demo_w" by (rule native6_not_mapped)
  show "\<not> IsPrivate (Addr6 demo_w [])" "IsGlobalUnicast (Addr6 demo_w [])" unfolding demo_w_def by code_simp+
qed

lemma demo_text: "ParsePrefix (pfx_String demo_prefix) = Some demo_prefix"
proof -
  have "pfx_String demo_prefix = addr_String (Addr6 demo_w []) @ ''/'' @ itoa 64"
    by (simp add: pfx_String_def demo_prefix_def pfx_IsValid_def)
  then show ?thesis using ParsePrefix_String [of "Addr6 demo_w []" 64] demo_w_facts(2) by (simp add: demo_prefix_def)
qed

lemma demo_node_ips: "GetNodeIPs (Some demo_node) = Inr [Addr6 demo_w []]"
  using ParseAddr_plain [of "Addr6 demo_w []"] demo_w_facts(2)
  by (simp add: GetNodeIPs_def demo_node_def blank_node_def plain_addr_def)

lemma demo_networks: "node_networks demo_cloud_env [Addr6 demo_w []] = [pfx_String demo_prefix]"
  using demo_w_facts(3,4) link_local
  by (simp add: node_networks_def demo_cloud_env_def local_ifaces_def NodeCIDRDiscovery_def cidr_step_def client_skips_def HasPrefix_def
      demo_prefix_def pfx_IsValid_def contained_in_def pfx_Contains_def)

lemma demo_env_ok: "order_ok demo_cloud_env" "talos_ok demo_cloud_env"
  using demo_w_facts(1) by (simp_all add: order_ok_def talos_ok_def demo_cloud_env_def iface_native_def demo_prefix_def)

lemma demo_fresh_set:
  obtains s0 where "NewCIDRSet (net6 demo_base 64) 80 = Ret s0" "cidr_inv s0" "used_set s0 = {}" "clusterCIDR s0 = net6 demo_base 64"
    "capacity s0 = 65536"
proof -
  have ok: "cluster_ok (net6 demo_base 64) 80" using discovered_set(1) [of demo_w 64 16] demo_w_facts(1) by simp
  then obtain s0 where s0: "NewCIDRSet (net6 demo_base 64) 80 = Ret s0" using NewCIDRSet_total by blast
  moreover have "capacity s0 = 65536"
    using NewCIDRSet_fields(3) [OF s0] getMaxCIDRs_exp [of 64 80] by (simp add: capacity_def)
  ultimately show ?thesis using that NewCIDRSet_inv [OF ok s0] NewCIDRSet_fields(1) [OF s0] by blast
qed

lemma demo_contains: "pfx_Contains demo_key (Addr6 demo_w [])" "net_Contains (net6 demo_base 64) (IP16 demo_w)"
proof -
  have "demo_w \<in> net_addrs demo_base 64" by (simp flip: and_prefix_mask_eq_iff add: and.assoc)
  then show "net_Contains (net6 demo_base 64) (IP16 demo_w)" using demo_w_facts native6_plain [of demo_w 64] by (simp add: net_Contains6)
  show "pfx_Contains demo_key (Addr6 demo_w [])" by (simp add: pfx_Contains_def pfx_IsValid_def xor_mask_eq_0 and.assoc)
qed

lemma demo_add:
  assumes "NewCIDRSet (net6 demo_base 64) 80 = Ret s0" and "ca_cidrSets r = []"
  shows "addCIDRSet (pfx_String demo_prefix) m r = (Ret (), r\<lparr>ca_cidrSets := [(demo_key, s0)]\<rparr>)"
  using assms discovered_set(2) [of demo_w 64 16] demo_w_facts(1) demo_text
  by (simp add: addCIDRSet_def demo_prefix_def pod_subnet_def pfx_Masked_def addr_Prefix_def CIDRMask_def act_defs Let_def)

text \<open>Marking one address uses up at most one block.\<close>

lemma occupy_address:
  assumes inv: "cidr_inv s" and w: "\<not> is4in6 w" and in_s: "net_Contains (clusterCIDR s) (IP16 w)"
  obtains s' where "Occupy s (Some (net6 w 128)) = Ret s'" "cidr_inv s'" "same_blocks s s'" "card (used_set s') \<le> Suc (card (used_set s))" "used_set s \<subseteq> used_set s'"
proof -
  let ?h = "hits (nth_block s) (capacity s) (net6 w 128)"
  have "overlap (clusterCIDR s) (net6 w 128)" using in_s host_net(4) [OF w] by (auto simp: overlap_def)
  then have h: "?h \<noteq> {}" using hits_cluster [OF cidr_inv_geom [OF inv]] by simp
  have one: "i = j" if "i \<in> ?h" "j \<in> ?h" for i j
  proof (rule ccontr)
    assume "i \<noteq> j"
    have "net_Contains (nth_block s x) (IP16 w)" if "x \<in> ?h" for x
      using that w by (auto simp: hits_def overlap_def net_Contains6 net_addrs_def)
    then have "overlap (nth_block s i) (nth_block s j)" using that by (auto simp: overlap_def)
    then show False using cs.blocks_disjoint [OF inv _ _ \<open>i \<noteq> j\<close>] that by (auto simp: hits_def)
  qed
  then obtain i where i: "?h = {i}" using h by blast
  obtain s1 where s1: "Occupy s (Some (net6 w 128)) = Ret s1" "used_set s1 = used_set s \<union> {i}"
    using cs.occupy_hit [OF inv host_net(2) [OF w] h] i by auto
  moreover have "card (used_set s1) \<le> Suc (card (used_set s))"
    using s1(2) card_insert_le_m1 cs.taken_finite [OF inv] by (simp add: card_insert_if)
  ultimately show ?thesis using that Occupy_step [OF inv host_net(2) [OF w] s1(1)] by blast
qed

lemma one_address_leaves_room:
  assumes inv: "cidr_inv s" and w: "\<not> is4in6 w" and in_s: "net_Contains (clusterCIDR s) (IP16 w)" and cap: "1 < capacity s" and e: "used_set s = {}"
  obtains s1 pod s2 where "Occupy s (Some (net6 w 128)) = Ret s1" "cidr_inv s1" "AllocateNext s1 = Ret (pod, s2)"
proof -
  obtain s1 where s1: "Occupy s (Some (net6 w 128)) = Ret s1" "cidr_inv s1" "same_blocks s s1" "card (used_set s1) \<le> Suc (card (used_set s))"
    by (rule occupy_address [OF inv w in_s])
  have "card (used_set s1) < capacity s1" using s1(4) cap e same_blocksD(2) [OF s1(3)] by simp
  then have "used_set s1 \<noteq> {..<capacity s1}" by (metis card_lessThan less_irrefl)
  then show ?thesis using cs.alloc_free [OF s1(2)] s1(1,2) that by blast
qed

lemma demo_parse: "ParseCIDR (pfx_String demo_prefix) = Some (net6 demo_base 64)"
  using demo_text by (simp add: ParseCIDR_def demo_prefix_def)

lemma demo_env_simps [simp]:
  "cl_talosNew demo_cloud_env = None" "cl_parseCIDR demo_cloud_env = ParseCIDR" "cl_order demo_cloud_env n ks = ks"
  "cl_ParseCIDRs demo_cloud_env cs = (if list_all (\<lambda>c. ParseCIDR c \<noteq> None) cs then Inr (map (the \<circ> ParseCIDR) cs) else Inl (Errorf ''invalid CIDR''))"
  "cl_lister demo_cloud_env i key = Inr demo_node" "cl_send_patch demo_cloud_env j m p = None"
  by (simp_all add: demo_cloud_env_def)

lemma demo_define:
  assumes s0: "NewCIDRSet (net6 demo_base 64) 80 = Ret s0" and s1: "Occupy s0 (Some (net6 demo_w 128)) = Ret s1"
  shows "defineNodeGlobalCIDRs demo_cloud_env (Some demo_node) demo_cloud =
    (Ret (pfx_String demo_prefix), demo_cloud\<lparr>ca_tick := 2, ca_cidrSets := [(demo_key, s1)]\<rparr>)"
proof -
  let ?r = "demo_cloud\<lparr>ca_tick := 1, ca_cidrSets := [(demo_key, s0)]\<rparr>"
  have occ: "occupyNodeIPs demo_cloud_env [Addr6 demo_w []] ?r = (Ret (), demo_cloud\<lparr>ca_tick := 2, ca_cidrSets := [(demo_key, s1)]\<rparr>)"
    using s1 demo_w_facts(2,3) demo_contains(1) host_net [OF demo_w_facts(2)]
    by (simp add: occupyNodeIPs_Cons occupyCIDR_def find_key_def on_key_def occupy_op_def no_result_def
        put_set_def wrap_act_def act_defs demo_cloud_def)
  have add: "add_cidrs [pfx_String demo_prefix] m (demo_cloud\<lparr>ca_tick := 1\<rparr>) = (Ret (), ?r)" for m
    using demo_text demo_add [OF s0, of "demo_cloud\<lparr>ca_tick := 1\<rparr>" m]
    by (simp add: wrap_act_def bind_act_def demo_prefix_def demo_cloud_def)
  have "settle demo_cloud_env demo_node [Addr6 demo_w []] None (demo_cloud\<lparr>ca_tick := 1\<rparr>) =
      (Ret (pfx_String demo_prefix), demo_cloud\<lparr>ca_tick := 2, ca_cidrSets := [(demo_key, s1)]\<rparr>)"
    using demo_w_facts(3) occ add
    by (simp add: settle_def Let_def demo_networks bind_act_def wrap_act_def ret_act_def del: occupyNodeIPs.simps add_cidrs.simps)
  moreover have "find_key demo_cloud_env P demo_cloud = (Ret None, demo_cloud\<lparr>ca_tick := 1\<rparr>)" for P
    by (simp add: find_key_def demo_cloud_def)
  ultimately show ?thesis
    using demo_parse by (simp add: define_eq [OF demo_node_ips] demo_networks bind_act_def lift_act_def)
qed

lemma demo_target: "target_addr demo6 (pfx_String demo_prefix) = Some (Addr6 demo_w [])"
proof -
  have "To4 (net_IP demo6) = None" "\<exists>a. ParseAddr (ip_String (net_IP demo6)) = Some a"
    using ParseAddr_plain [of "Addr6 0xfd000000000000000000000000000000 []"]
    by (simp_all add: demo6_def is4in6_def ip_String_def plain_addr_def)
  then show ?thesis
    using demo_text by (auto simp: target_addr_def demo_prefix_def pfx_String_def pfx_IsValid_def)
qed

lemma demo_run:
  "\<exists>r' c pod. CloudAllocator.AllocateOrOccupyCIDR demo_cloud_env (Some demo_node) demo_cloud = (Ret (), r') \<and>
     keys r' = {demo_key} \<and> ca_patched r' = [(''n'', [c])] \<and> ParseCIDR c = Some pod"
proof -
  obtain s0 where s0: "NewCIDRSet (net6 demo_base 64) 80 = Ret s0" "cidr_inv s0" "used_set s0 = {}"
    "clusterCIDR s0 = net6 demo_base 64" "capacity s0 = 65536" by (rule demo_fresh_set)
  obtain s1 pod s2 where s1: "Occupy s0 (Some (net6 demo_w 128)) = Ret s1" "cidr_inv s1" "AllocateNext s1 = Ret (pod, s2)"
    by (rule one_address_leaves_room [OF s0(2) demo_w_facts(2) _ _ s0(3)]) (simp_all add: s0(4,5) demo_contains(2))
  let ?t = "pfx_String demo_prefix"
  let ?r1 = "demo_cloud\<lparr>ca_tick := 2, ca_cidrSets := [(demo_key, s1)]\<rparr>"
  let ?r2 = "demo_cloud\<lparr>ca_tick := 3, ca_cidrSets := [(demo_key, s2)]\<rparr>"
  have al: "allocate_pods demo_cloud_env demo_node ?t [demo6] ?r1 = (Ret [Some pod], ?r2)"
    using demo_target demo_contains(1) s1(3)
    by (simp add: find_key_def on_key_def put_set_def wrap_act_def event_on_err_def act_defs demo_cloud_def)
  have up: "CloudAllocator.updateCIDRsAllocation demo_cloud_env ''n'' [Some pod] ?r2 =
      (Ret (), ?r2\<lparr>ca_patched := [(''n'', [net_String pod])]\<rparr>)"
    by (simp add: CloudAllocator.updateCIDRsAllocation_def ipnetToStringList_def netp_String_def demo_node_def
        cidrUpdateRetries_def numeral_3_eq_3 PatchNodeCIDRs_def cidr_patch_def demo_cloud_def)
  have "CloudAllocator.AllocateOrOccupyCIDR demo_cloud_env (Some demo_node) demo_cloud =
      (Ret (), ?r2\<lparr>ca_patched := [(''n'', [net_String pod])]\<rparr>)"
    using demo_define [OF s0(1) s1(1)] al up
    by (simp add: CloudAllocator.AllocateOrOccupyCIDR_def bind_act_def demo_node_def demo_cloud_def del: allocate_pods.simps)
  moreover have "canon_net pod"
    using AllocateNext_fresh [OF s1(2,3)] block_canon_net [OF cidr_inv_geom [OF s1(2)]] by blast
  ultimately show ?thesis
    using ParseCIDR_String by (intro exI conjI) (auto simp: keys_def)
qed

section \<open>Properties\<close>

text \<open>A run that patches the node has discovered its network and allocated the CIDRs of the patch.\<close>

lemma assigned_run:
  assumes t: "talos_ok env" and res: "CloudAllocator.AllocateOrOccupyCIDR env (Some node) r = (res, r')"
    and p: "ca_patched r' = ca_patched r @ [(n, cidrs)]"
  obtains g r1 allocated r2 where "defineNodeGlobalCIDRs env (Some node) r = (Ret g, r1)"
    "allocate_pods env node g (ca_clusterCIDRs r) r1 = (Ret allocated, r2)"
    "cidrs = ipnetToStringList allocated" "ca_cidrSets r' = ca_cidrSets r2"
proof -
  let ?m = "bind_act (defineNodeGlobalCIDRs env (Some node)) (\<lambda>g. bind_act (allocate_pods env node g (ca_clusterCIDRs r))
    (\<lambda>allocated. CloudAllocator.updateCIDRsAllocation env (node_Name node) allocated))"
  have "ca_patched (snd (occupyPodCIDRs env node r)) = ca_patched r"
    by (rule keepsD [OF pg.occupyPodCIDRs_keeps [OF t] refl])
  then have m: "?m r = (res, r')"
    using res p by (auto simp: CloudAllocator.AllocateOrOccupyCIDR_def split: if_splits)
  obtain x r1 where d: "defineNodeGlobalCIDRs env (Some node) r = (x, r1)" by (cases "defineNodeGlobalCIDRs env (Some node) r")
  have p1: "ca_patched r1 = ca_patched r" by (rule keeps_result [OF pg.define_keeps [OF t] d refl])
  then obtain g where g: "x = Ret g" using m d p by (cases x) (auto simp: bind_act_def)
  obtain y r2 where a: "allocate_pods env node g (ca_clusterCIDRs r) r1 = (y, r2)"
    by (cases "allocate_pods env node g (ca_clusterCIDRs r) r1")
  have p2: "ca_patched r2 = ca_patched r" by (rule keeps_result [OF pa.allocate_pods_keeps a p1])
  then obtain allocated where y: "y = Ret allocated" using m d g a p by (cases y) (auto simp: bind_act_def)
  have u: "CloudAllocator.updateCIDRsAllocation env (node_Name node) allocated r2 = (res, r')"
    using m d g a y by (simp add: bind_act_def)
  have "cidrs = ipnetToStringList allocated" "ca_cidrSets r' = ca_cidrSets r2"
    using patched_entry [OF u] p p2 by auto
  then show ?thesis using that d g a y by blast
qed

text \<open>
  C4: As long as the networks of the map do not overlap, the pod CIDRs that the cloud allocator assigns to
  a node on discovered networks contain none of the node's own public IPv6 addresses, as the comment of
  \<^verbatim>\<open>occupyNodeIPs\<close> promises. The condition is needed: the discovery can put a network into the map beside
  one that it contains (\<open>discovered_networks_may_overlap\<close> below). Of Talos it is required that the public
  IPv6 prefixes it reports for links that are not skipped lie outside \<^verbatim>\<open>::/64\<close> (\<open>talos_ok\<close>).
\<close>

theorem cloud_pod_cidrs_avoid_node_addresses:
  assumes ord: "order_ok env" and t: "talos_ok env" and inv: "ca_inv r"
    and ips: "GetNodeIPs (Some node) = Inr ips" and net: "node_networks env ips \<noteq> []"
    and w: "Addr6 w [] \<in> set ips" "\<not> IsPrivate (Addr6 w [])" "\<not> is4in6 w"
    and res: "CloudAllocator.AllocateOrOccupyCIDR env (Some node) r = (res, r')" and dis: "keys_disjoint r'"
    and p: "ca_patched r' = ca_patched r @ [(n, cidrs)]" and c: "c \<in> set cidrs" "ParseCIDR c = Some pod"
  shows "\<not> net_Contains pod (IP16 w)"
proof -
  obtain g r1 allocated r2 where d: "defineNodeGlobalCIDRs env (Some node) r = (Ret g, r1)"
    and a: "allocate_pods env node g (ca_clusterCIDRs r) r1 = (Ret allocated, r2)"
    and e: "cidrs = ipnetToStringList allocated" "ca_cidrSets r' = ca_cidrSets r2"
    by (rule assigned_run [OF t res p])
  have k2: "keys r2 = keys r1" by (rule keeps_result [OF ks.allocate_pods_keeps a refl])
  then have dis1: "keys_disjoint r1" using dis e(2) by (simp add: keys_disjoint_def keys_def)
  obtain rm where rm: "ca_inv rm" "occupyNodeIPs env (public6 ips) rm = (Ret (), r1)"
    using define_occupies [OF t inv ips net] d by blast
  have inv1: "ca_inv r1" by (rule ca_via_inv [OF keeps_up [OF up.occupyNodeIPs_keeps rm(2,1)]])
  have km: "keys r1 = keys rm" by (rule keeps_result [OF ks.occupyNodeIPs_keeps rm(2) refl])
  have "keys_disjoint rm" using dis1 km by (simp add: keys_disjoint_def)
  then have mk: "marked r1 (Addr6 w []) (net6 w 128)"
    using occupyNodeIPs_marks [OF ord w(3,2) rm(1) _ _ rm(2)] w by simp
  obtain q where q: "q \<in> set allocated" "c = netp_String q" using c(1) e(1) by (auto simp: ipnetToStringList_def)
  have "list_all2 (sourced r1 g) (ca_clusterCIDRs r) allocated" using allocate_pods_sourced [OF ord inv1] a by simp
  then obtain cl where s: "sourced r1 g cl q" using q(1) by (metis in_set_conv_nth list_all2_conv_all_nth)
  show ?thesis
  proof (cases q)
    case None
    then have "CHR ''/'' \<notin> set c" using q(2) by (simp add: netp_String_def)
    then show ?thesis using c(2) by (simp add: ParseCIDR_def ParsePrefix_def)
  next
    case (Some b)
    then obtain ip where "fresh_in r1 ip b" using s by (auto simp: sourced_def)
    from fresh_avoids [OF inv1 w(3) mk this] show ?thesis
      using c(2) q(2) Some ParseCIDR_String by (simp add: netp_String_def)
  qed
qed

theorem cloud_pod_cidrs_avoid_node_addresses_witness:
  "\<exists>r' c pod. ca_patched r' = [(''n'', [c])] \<and> ParseCIDR c = Some pod \<and> \<not> net_Contains pod (IP16 demo_w) \<and>
     CloudAllocator.AllocateOrOccupyCIDR demo_cloud_env (Some demo_node) demo_cloud = (Ret (), r')"
proof -
  obtain r' c pod where r: "CloudAllocator.AllocateOrOccupyCIDR demo_cloud_env (Some demo_node) demo_cloud = (Ret (), r')"
    "keys r' = {demo_key}" "ca_patched r' = [(''n'', [c])]" "ParseCIDR c = Some pod"
    using demo_run by blast
  have "\<not> net_Contains pod (IP16 demo_w)"
    by (rule cloud_pod_cidrs_avoid_node_addresses [OF demo_env_ok _ demo_node_ips _ _ demo_w_facts(3,2) r(1) _ _ _ r(4), where n = "''n''" and cidrs = "[c]"])
      (simp_all add: ca_inv_def demo_cloud_def demo_networks keys_disjoint_def r(2,3))
  then show ?thesis using r by blast
qed

text \<open>
  C20: Each block that the cloud allocator hands out comes from a set whose network holds the target
  address (that of the node's own network for an IPv6 cluster CIDR if it has one, that of the cluster CIDR
  otherwise) and was not in use; a cluster CIDR gets none exactly if no set of the map holds the target.
\<close>

theorem cloud_allocation_sources:
  assumes "order_ok env" and "ca_inv r" and "allocate_pods env node globalCIDR clusterCIDRs r = (Ret allocated, r')"
  shows "length allocated = length clusterCIDRs \<and> (\<forall>i<length allocated. \<exists>ip. target_addr (clusterCIDRs ! i) globalCIDR = Some ip \<and>
    (case allocated ! i of
       None \<Rightarrow> \<forall>(k, s)\<in>set (ca_cidrSets r). \<not> pfx_Contains k ip
     | Some pod \<Rightarrow> \<exists>k s j. map_of (ca_cidrSets r) k = Some s \<and> pfx_Contains k ip \<and> j < capacity s \<and> j \<notin> used_set s \<and>
         pod = nth_block s j))"
proof -
  have l: "list_all2 (sourced r globalCIDR) clusterCIDRs allocated" by (rule allocate_pods_sourced [OF assms])
  have "sourced r globalCIDR (clusterCIDRs ! i) (allocated ! i)" if "i < length allocated" for i
    using l that by (simp add: list_all2_conv_all_nth)
  moreover have ks: "(\<forall>k\<in>keys r. \<not> pfx_Contains k ip) \<longleftrightarrow> (\<forall>(k, s)\<in>set (ca_cidrSets r). \<not> pfx_Contains k ip)" for ip
    by (auto simp: keys_def)
  ultimately show ?thesis
    using list_all2_lengthD [OF l] unfolding sourced_def fresh_in_def ks by simp
qed

theorem cloud_allocation_sources_witness:
  "\<exists>s0. let r = demo_cloud\<lparr>ca_cidrSets := [(demo_key, s0)]\<rparr> in
     \<exists>pod r'. allocate_pods demo_cloud_env demo_node (pfx_String demo_prefix) [demo6] r = (Ret [Some pod], r') \<and>
       (\<exists>j<capacity s0. pod = nth_block s0 j)"
proof -
  obtain s0 where s0: "cidr_inv s0" "used_set s0 = {}" "clusterCIDR s0 = net6 demo_base 64" "capacity s0 = 65536"
    by (rule demo_fresh_set)
  let ?r = "demo_cloud\<lparr>ca_cidrSets := [(demo_key, s0)]\<rparr>"
  have "used_set s0 \<noteq> {..<capacity s0}" using s0(2,4) by (metis lessThan_empty_iff less_numeral_extra(3) zero_less_numeral)
  then obtain pod s1 where "AllocateNext s0 = Ret (pod, s1)" using cs.alloc_free [OF s0(1)] by blast
  then have al: "allocate_pods demo_cloud_env demo_node (pfx_String demo_prefix) [demo6] ?r =
      (Ret [Some pod], demo_cloud\<lparr>ca_tick := 1, ca_cidrSets := [(demo_key, s1)]\<rparr>)"
    using demo_target demo_contains(1)
    by (simp add: find_key_def on_key_def put_set_def wrap_act_def event_on_err_def act_defs demo_cloud_def)
  have "keyed demo_key s0" using s0(1,3) by (simp add: keyed_def key_net_def pfx_IsValid_def)
  then have "ca_inv ?r" by (simp add: ca_inv_def)
  from cloud_allocation_sources [OF demo_env_ok(1) this al]
  have "\<exists>j<capacity s0. pod = nth_block s0 j" by (auto simp: demo_cloud_def split: if_splits)
  then show ?thesis using al by (auto simp: Let_def)
qed

lemma reach_from:
  assumes "params_ok params" and "cloud_reach params r"
  shows "\<exists>r0. ca_from r0 r \<and> ca_clusterCIDRs r0 = ClusterCIDRs params \<and>
    (\<forall>c\<in>set (ClusterCIDRs params). \<exists>k s. map_of (ca_cidrSets r0) k = Some s \<and> clusterCIDR s = c)"
  using assms(2)
proof (induction rule: cloud_reach.induct)
  case (start env nodes r)
  have "list_all2 cluster_ok (ClusterCIDRs params) (NodeCIDRMaskSizes params)" using assms(1) by (simp add: params_ok_def)
  from new_cloud_inv [OF start(1) this start(2)] show ?case by (intro exI [of _ r] conjI ca_via_refl) simp_all
next
  case (work r env item res r')
  then obtain r0 where r0: "ca_from r0 r" "ca_clusterCIDRs r0 = ClusterCIDRs params"
    "\<forall>c\<in>set (ClusterCIDRs params). \<exists>k s. map_of (ca_cidrSets r0) k = Some s \<and> clusterCIDR s = c" by blast
  then show ?case using keeps_result [OF fr.process_keeps [OF work(2)] work(3) r0(1)] by blast
next
  case (delete r env obj q r')
  then obtain r0 where r0: "ca_from r0 r" "ca_clusterCIDRs r0 = ClusterCIDRs params"
    "\<forall>c\<in>set (ClusterCIDRs params). \<exists>k s. map_of (ca_cidrSets r0) k = Some s \<and> clusterCIDR s = c" by blast
  then show ?case using keeps_result [OF fr.onDelete_keeps delete(3) r0(1)] by blast
qed

text \<open>
  C8: In every run of the cloud allocator, whatever the API server and the parser answer and in
  whatever order Go iterates over the map, each prefix of the map occurs once and stands for the network of
  its set, the counters and the bitmap of every set agree, and the set of every cluster CIDR stays there.
  Talos may answer with errors and with any addresses, but the public IPv6 prefixes of links that are not
  skipped have to lie outside \<^verbatim>\<open>::/64\<close> (\<open>talos_ok\<close>, a condition on every step of the run).
\<close>

theorem cloud_sets_consistent:
  assumes "params_ok params" and "cloud_reach params r"
  shows "distinct (map fst (ca_cidrSets r)) \<and> ca_clusterCIDRs r = ClusterCIDRs params \<and>
    (\<forall>k s. map_of (ca_cidrSets r) k = Some s \<longrightarrow> cidr_inv s \<and> clusterCIDR s = key_net k) \<and>
    (\<forall>c\<in>set (ClusterCIDRs params). \<exists>k s. map_of (ca_cidrSets r) k = Some s \<and> clusterCIDR s = c)"
proof -
  obtain r0 where r0: "ca_from r0 r" "ca_clusterCIDRs r0 = ClusterCIDRs params"
    "\<forall>c\<in>set (ClusterCIDRs params). \<exists>k s. map_of (ca_cidrSets r0) k = Some s \<and> clusterCIDR s = c"
    using reach_from [OF assms] by blast
  have "\<exists>k s. map_of (ca_cidrSets r) k = Some s \<and> clusterCIDR s = c" if c: "c \<in> set (ClusterCIDRs params)" for c
  proof -
    obtain k s where k: "map_of (ca_cidrSets r0) k = Some s" "clusterCIDR s = c" using r0(3) c by blast
    then obtain t where "map_of (ca_cidrSets r) k = Some t" "same_blocks s t" using r0(1) unfolding ca_via_def by blast
    then show ?thesis using k(2) by (auto simp: same_blocks_def)
  qed
  moreover have "cidr_inv s \<and> clusterCIDR s = key_net k" if "map_of (ca_cidrSets r) k = Some s" for k s
    using ca_inv_get [OF ca_via_inv [OF r0(1)] that] by (simp add: keyed_def)
  ultimately show ?thesis using r0(1,2) by (simp add: ca_via_def ca_inv_def)
qed

definition demo_cloud_params :: CIDRAllocatorParams where
  "demo_cloud_params = \<lparr>ClusterCIDRs = [demo6], ServiceCIDR = None, SecondaryServiceCIDR = None, NodeCIDRMaskSizes = [80]\<rparr>"

lemma demo_cloud_reach: "\<exists>r. cloud_reach demo_cloud_params r"
proof -
  obtain sets where "new_cloud_sets [demo6] [80] [] = Ret sets"
    using new_cloud_sets_ok [of "[demo6]" "[80]" "[]"] demo_ok(2) by (auto simp: keyed_sets_def)
  then have "NewCIDRCloudAllocator demo_cloud_env demo_cloud_params None =
      Ret \<lparr>ca_clusterCIDRs = [demo6], ca_cidrSets = sets, ca_tick = 0, ca_events = [], ca_patched = []\<rparr>"
    by (simp add: NewCIDRCloudAllocator_def demo_cloud_params_def CloudAllocator.filterOutServiceRange_def act_defs)
  from cloud_reach.start [OF demo_env_ok(2) this] show ?thesis by blast
qed

theorem cloud_sets_consistent_witness:
  "\<exists>r. cloud_reach demo_cloud_params r \<and> (\<exists>k s. map_of (ca_cidrSets r) k = Some s \<and> cidr_inv s \<and> clusterCIDR s = demo6)"
proof -
  obtain r0 where r0: "cloud_reach demo_cloud_params r0" using demo_cloud_reach by blast
  obtain res r where "CloudAllocator.processNextNodeWorkItem demo_cloud_env (Some ''n'') r0 = (res, r)"
    by (cases "CloudAllocator.processNextNodeWorkItem demo_cloud_env (Some ''n'') r0")
  from cloud_reach.work [OF r0 demo_env_ok(2) this] have r: "cloud_reach demo_cloud_params r" .
  have "params_ok demo_cloud_params" using demo_ok(2) by (simp add: params_ok_def service_cidrs_def demo_cloud_params_def)
  from cloud_sets_consistent [OF this r] obtain k s where "map_of (ca_cidrSets r) k = Some s" "clusterCIDR s = demo6" "cidr_inv s"
    by (auto simp: demo_cloud_params_def)
  then show ?thesis using r by blast
qed

text \<open>
  C21: What \<^verbatim>\<open>addCIDRSet\<close> makes of a discovered IPv6 prefix. One shorter than 64 bits is narrowed to the
  node's own /64. A pod subnet has 16 bits more than the network, 8 from 100 bits on, 4 from 106, 2 from 112
  and 1 from 118. A prefix is refused exactly if it has more than 123 bits, or more than 117 and its pod
  subnets have fewer usable addresses than the node may run pods; otherwise a well-formed and empty set of
  these subnets is stored, unless the network has one already. A subnet has room for the pods of the node
  if the prefix has at least 118 bits or the node runs no more than 510 pods: with more pods on a shorter
  prefix the room is not checked, although the comment of the function promises it
  (\<open>max_pods_unchecked\<close> below).
\<close>

theorem addCIDRSet_pod_subnets:
  assumes "ParsePrefix cidr = Some p" and "pfx_Addr p = Addr6 w z" and "native6 w" and "0 \<le> maxPods" and "maxPods < 2 ^ 63"
  defines "b \<equiv> pfx_Bits p" and "c \<equiv> max 64 (pfx_Bits p)"
  defines "net \<equiv> Prefix (Addr6 (w AND prefix_mask (nat c)) []) c"
    and "n \<equiv> c + (if b \<le> 99 then 16 else if b \<le> 105 then 8 else if b \<le> 111 then 4 else if b \<le> 117 then 2 else 1)"
  defines "refused \<equiv> 123 < b \<or> 117 < b \<and> 2 ^ nat (128 - n) - 2 < maxPods"
  shows "(refused \<longrightarrow> (\<exists>e. \<forall>r. addCIDRSet cidr maxPods r = (Err e, r))) \<and>
    (\<not> refused \<longrightarrow> (\<exists>s. cidr_inv s \<and> used_set s = {} \<and> clusterCIDR s = key_net net \<and> nodeMaskSize s = n \<and>
       int (capacity s) = 2 ^ nat (n - c) \<and> pfx_Contains net (Addr6 w []) \<and>
       (\<forall>r. addCIDRSet cidr maxPods r =
          (Ret (), if net \<in> fst ` set (ca_cidrSets r) then r else r\<lparr>ca_cidrSets := ca_cidrSets r @ [(net, s)]\<rparr>)))) \<and>
    (\<not> refused \<and> (118 \<le> b \<or> maxPods \<le> 510) \<longrightarrow> maxPods \<le> 2 ^ nat (128 - n) - 2)"
proof (intro conjI impI)
  assume r: refused
  then have "n = b + 1" by (auto simp: refused_def n_def c_def b_def)
  then obtain e where "pod_subnet p maxPods = Err e"
    using pod_subnet_refuses [OF assms(4,5), of p] r by (auto simp: refused_def b_def)
  then show "\<exists>e. \<forall>r. addCIDRSet cidr maxPods r = (Err e, r)" using assms(1) by (simp add: addCIDRSet_def act_defs)
next
  assume r: "\<not> refused"
  obtain q where q: "pod_subnet p maxPods = Ret (q, n)" "pfx_Masked q = net" "pfx_Bits q = c"
    using pod_subnet_accepts [OF ParsePrefix_valid(1) [OF assms(1)] assms(2,4,5)] r
    unfolding b_def c_def net_def n_def refused_def by blast
  obtain s where s: "keyed (pfx_Masked q) s" "used_set s = {}" "int (capacity s) = 2 ^ nat (n - pfx_Bits q)" "nodeMaskSize s = n"
    "addCIDRSet cidr maxPods =
      (\<lambda>r. (Ret (), if pfx_Masked q \<in> fst ` set (ca_cidrSets r) then r else r\<lparr>ca_cidrSets := ca_cidrSets r @ [(pfx_Masked q, s)]\<rparr>))"
    by (rule addCIDRSet_eq [OF assms(1-3) q(1)])
  have "pfx_Contains net (Addr6 w [])"
    using s(1) q(2) by (simp add: keyed_def net_def pfx_Contains_def xor_mask_eq_0 and.assoc)
  then show "\<exists>s. cidr_inv s \<and> used_set s = {} \<and> clusterCIDR s = key_net net \<and> nodeMaskSize s = n \<and>
       int (capacity s) = 2 ^ nat (n - c) \<and> pfx_Contains net (Addr6 w []) \<and>
       (\<forall>r. addCIDRSet cidr maxPods r =
          (Ret (), if net \<in> fst ` set (ca_cidrSets r) then r else r\<lparr>ca_cidrSets := ca_cidrSets r @ [(net, s)]\<rparr>))"
    using s q by (intro exI [of _ s]) (simp add: keyed_def)
next
  assume "\<not> refused \<and> (118 \<le> b \<or> maxPods \<le> 510)"
  moreover have "510 \<le> (2::int) ^ nat (128 - n) - 2" if "b < 118"
  proof -
    have "9 \<le> nat (128 - n)" using that unfolding n_def c_def b_def by auto
    then have "(2::int) ^ 9 \<le> 2 ^ nat (128 - n)" by (rule power_increasing) simp
    then show ?thesis by simp
  qed
  ultimately show "maxPods \<le> 2 ^ nat (128 - n) - 2" unfolding refused_def by linarith
qed

theorem addCIDRSet_pod_subnets_witness:
  "\<exists>s. nodeMaskSize s = 80 \<and> capacity s = 65536 \<and> addCIDRSet (pfx_String demo_prefix) 110 demo_cloud =
     (Ret (), demo_cloud\<lparr>ca_cidrSets := [(demo_key, s)]\<rparr>)"
proof -
  have "pfx_Addr demo_prefix = Addr6 demo_w []" "pfx_Bits demo_prefix = 64" by (simp_all add: demo_prefix_def)
  then show ?thesis
    using addCIDRSet_pod_subnets [OF demo_text _ demo_w_facts(1), of "[]" 110] by (auto simp: demo_cloud_def)
qed

section \<open>Where the code departs from its comments\<close>

text \<open>
  The comment of \<^verbatim>\<open>addCIDRSet\<close> promises an error if the pod subnet is too small for the node's pods, but
  the check is only in the branch of prefixes over 117 bits: 600 pods are accepted on subnets of 510 addresses.
\<close>

lemma max_pods_unchecked:
  "pod_subnet (Prefix (Addr6 w []) 117) 600 = Ret (Prefix (Addr6 w []) 117, 119) \<and> (2::int) ^ nat (128 - 119) - 2 < 600"
  by (simp add: pod_subnet_def)

text \<open>A cluster CIDR for which no set holds the target address is patched into the node as the text of a nil network.\<close>

lemma nil_pod_cidr_patched:
  assumes "cl_lister env 1 name = Inr node" and "spec_PodCIDRs node = []" and "\<And>p. cl_send_patch env 0 (node_Name node) p = None"
  shows "CloudAllocator.updateCIDRsAllocation env name [None] r =
    (Ret (), r\<lparr>ca_patched := ca_patched r @ [(node_Name node, [''<nil>''])]\<rparr>)"
  using assms
  by (simp add: CloudAllocator.updateCIDRsAllocation_def ipnetToStringList_def netp_String_def cidrUpdateRetries_def
      numeral_3_eq_3 PatchNodeCIDRs_def cidr_patch_def)

text \<open>
  A network is looked for in the map by its base address only, so a network that contains a known smaller
  one elsewhere is added beside it: the two sets cover the same addresses, and the hypothesis of the first
  property is not vacuous.
\<close>

definition inner_w :: u128 where
  "inner_w = 0x20010db8000000000001000000000001"

definition inner_prefix :: Prefix where
  "inner_prefix = Prefix (Addr6 inner_w []) 80"

lemma inner_facts: "native6 inner_w" "ParsePrefix (pfx_String inner_prefix) = Some inner_prefix"
proof -
  show n: "native6 inner_w" unfolding native6_def inner_w_def by code_simp
  have "pfx_String inner_prefix = addr_String (Addr6 inner_w []) @ ''/'' @ itoa 80"
    by (simp add: pfx_String_def inner_prefix_def pfx_IsValid_def)
  then show "ParsePrefix (pfx_String inner_prefix) = Some inner_prefix"
    using ParsePrefix_String [of "Addr6 inner_w []" 80] native6_not_mapped [OF n] by (simp add: inner_prefix_def)
qed

lemma discovered_networks_may_overlap:
  "\<exists>r. bind_act (addCIDRSet (pfx_String inner_prefix) 110) (\<lambda>_. addCIDRSet (pfx_String demo_prefix) 110) demo_cloud = (Ret (), r) \<and>
     \<not> global_key [net6 demo_base 64] (pfx_Masked inner_prefix) \<and> \<not> keys_disjoint r"
proof -
  have a: "pfx_Addr inner_prefix = Addr6 inner_w []" "pfx_Addr demo_prefix = Addr6 demo_w []"
    "pod_subnet inner_prefix 110 = Ret (inner_prefix, 96)" "pod_subnet demo_prefix 110 = Ret (demo_prefix, 80)"
    by (simp_all add: inner_prefix_def demo_prefix_def pod_subnet_def)
  obtain s where s: "addCIDRSet (pfx_String inner_prefix) 110 =
      (\<lambda>r. (Ret (), if pfx_Masked inner_prefix \<in> fst ` set (ca_cidrSets r) then r
         else r\<lparr>ca_cidrSets := ca_cidrSets r @ [(pfx_Masked inner_prefix, s)]\<rparr>))"
    using addCIDRSet_eq [OF inner_facts(2) a(1) inner_facts(1) a(3)] by blast
  obtain t where t: "addCIDRSet (pfx_String demo_prefix) 110 =
      (\<lambda>r. (Ret (), if pfx_Masked demo_prefix \<in> fst ` set (ca_cidrSets r) then r
         else r\<lparr>ca_cidrSets := ca_cidrSets r @ [(pfx_Masked demo_prefix, t)]\<rparr>))"
    using addCIDRSet_eq [OF demo_text a(2) demo_w_facts(1) a(4)] by blast
  have m: "pfx_Masked inner_prefix = Prefix (Addr6 (inner_w AND prefix_mask 80) []) 80" "pfx_Masked demo_prefix = demo_key"
    by (simp_all add: pfx_Masked_def inner_prefix_def demo_prefix_def addr_Prefix_def)
  have "pfx_Contains demo_key (Addr6 inner_w [])"
    unfolding demo_w_def inner_w_def by code_simp
  moreover have "pfx_Contains (Prefix (Addr6 (inner_w AND prefix_mask 80) []) 80) (Addr6 inner_w [])"
    by (simp add: pfx_Contains_def pfx_IsValid_def xor_mask_eq_0 and.assoc)
  moreover have "\<not> global_key [net6 demo_base 64] (Prefix (Addr6 (inner_w AND prefix_mask 80) []) 80)"
    unfolding demo_w_def inner_w_def by code_simp
  ultimately show ?thesis
    using s t m by (intro exI conjI) (auto simp: bind_act_def demo_cloud_def keys_disjoint_def keys_def)
qed

end
