(* ===== verification/CloudSafety.thy ===== *)
theory CloudSafety
  imports CloudProps RangeConcurrent
begin

text \<open>
  The cloud allocator together with the cluster it serves: nodes appear, are synced and are deleted in any order. As long as the
  networks of the map do not overlap, no two nodes have overlapping pod CIDRs.
\<close>

section \<open>Addresses of the networks\<close>

text \<open>The address of an \<^verbatim>\<open>IP\<close>, as \<^verbatim>\<open>netip\<close> has it.\<close>

definition ip_addr :: "IP \<Rightarrow> Addr" where
  "ip_addr ip = (case To4 ip of Some v \<Rightarrow> Addr4 v | None \<Rightarrow> (case ip of IP16 w \<Rightarrow> Addr6 w [] | _ \<Rightarrow> AddrZero))"

lemma keyed_addr:
  assumes k: "keyed k s" and c: "net_Contains (clusterCIDR s) ip"
  shows "pfx_Contains k (ip_addr ip)"
proof -
  have v: "pfx_IsValid k" and n: "clusterCIDR s = key_net k" and g: "cidr_geom s" using k cidr_inv_geom by (simp_all add: keyed_def)
  show ?thesis
  proof (cases "pfx_Addr k")
    case (Addr4 u)
    then obtain a where a: "To4 ip = Some a" "a \<in> net_addrs u (nat (pfx_Bits k))" using c by (auto simp: n key_net_def net_Contains4)
    then have "drop_bit (32 - nat (pfx_Bits k)) (u XOR a) = 0" by (simp add: net_addrs_def)
    then show ?thesis using v Addr4 a(1) by (simp add: pfx_Contains_def ip_addr_def)
  next
    case (Addr6 u z)
    then have "net_IP (clusterCIDR s) = IP16 u" by (simp add: n key_net_def)
    then have "\<not> is4in6 u" using g by (auto simp: cidr_geom_def geom6_def no4in6_def)
    then obtain w where w: "ip = IP16 w" "\<not> is4in6 w" using c Addr6 by (auto simp: n key_net_def net_Contains6)
    then show ?thesis using keyed_contains [OF k w(2)] c by (simp add: ip_addr_def)
  qed (use v in \<open>simp add: pfx_IsValid_def\<close>)
qed

lemma block_in_cluster:
  assumes "cidr_inv s" and "j < capacity s" and "net_Contains (nth_block s j) ip"
  shows "net_Contains (clusterCIDR s) ip"
  using block_contains [OF cidr_inv_geom [OF assms(1)], of "int j"] assms(2,3) capacity_geom(1) [OF cidr_inv_geom [OF assms(1)]] by simp

lemma canon_self:
  assumes "canon_net n"
  shows "net_Contains n (net_IP n)" and "ParseAddr (ip_String (net_IP n)) = Some (ip_addr (net_IP n))"
proof -
  have "net_Contains n (net_IP n) \<and> ParseAddr (ip_String (net_IP n)) = Some (ip_addr (net_IP n))"
    using assms
  proof (cases rule: canon_net_cases)
    case (v4 v m)
    then show ?thesis using ParseAddr_plain [of "Addr4 v"] by (simp add: ip_addr_def ip_String_def plain_addr_def net_Contains4)
  next
    case (v6 v m)
    then show ?thesis using ParseAddr_plain [of "Addr6 v []"] by (simp add: ip_addr_def ip_String_def plain_addr_def net_Contains6)
  qed
  then show "net_Contains n (net_IP n)" "ParseAddr (ip_String (net_IP n)) = Some (ip_addr (net_IP n))" by simp_all
qed

text \<open>The address by which the code looks a pod CIDR up: it belongs to the network of the block.\<close>

lemma block_addr:
  assumes "keyed k s" and "j < capacity s"
  shows "\<exists>a. ParseAddr (ip_String (net_IP (nth_block s j))) = Some a \<and> pfx_Contains k a"
proof -
  have inv: "cidr_inv s" using assms(1) by (simp add: keyed_def)
  note self = canon_self [OF cs.block_canon [OF inv assms(2)]]
  have "pfx_Contains k (ip_addr (net_IP (nth_block s j)))" by (rule keyed_addr [OF assms(1) block_in_cluster [OF inv assms(2) self(1)]])
  then show ?thesis using self(2) by blast
qed

lemma blocks_apart:
  assumes dis: "\<And>a. pfx_Contains k a \<Longrightarrow> pfx_Contains k' a \<Longrightarrow> k = k'" and k: "keyed k s" "keyed k' s'" "j < capacity s" "j' < capacity s'"
    and ne: "k \<noteq> k'"
  shows "\<not> overlap (nth_block s j) (nth_block s' j')"
proof
  assume "overlap (nth_block s j) (nth_block s' j')"
  then obtain ip where ip: "net_Contains (nth_block s j) ip" "net_Contains (nth_block s' j') ip" by (auto simp: overlap_def)
  have "pfx_Contains k (ip_addr ip)" by (rule keyed_addr [OF k(1) block_in_cluster [OF _ k(3) ip(1)]]) (use k(1) in \<open>simp add: keyed_def\<close>)
  moreover have "pfx_Contains k' (ip_addr ip)" by (rule keyed_addr [OF k(2) block_in_cluster [OF _ k(4) ip(2)]]) (use k(2) in \<open>simp add: keyed_def\<close>)
  ultimately show False using dis ne by blast
qed

section \<open>Claims on blocks\<close>

text \<open>A block of the allocator, by the key of its set and its index.\<close>

type_synonym key_block = "Prefix \<times> nat"

definition in_use :: "CloudAllocator \<Rightarrow> key_block set" where
  "in_use r = {(k, j). \<exists>s. map_of (ca_cidrSets r) k = Some s \<and> j \<in> used_set s}"

definition block_text :: "CloudAllocator \<Rightarrow> key_block \<Rightarrow> string option" where
  "block_text r x = (case map_of (ca_cidrSets r) (fst x) of
     None \<Rightarrow> None | Some s \<Rightarrow> if snd x < capacity s then Some (net_String (nth_block s (snd x))) else None)"

text \<open>The texts are those of the claimed blocks, or that of a missing network.\<close>

definition covers :: "CloudAllocator \<Rightarrow> key_block set \<Rightarrow> string list \<Rightarrow> bool" where
  "covers r B cs \<longleftrightarrow> (\<forall>c\<in>set cs. c = ''<nil>'' \<or> (\<exists>x\<in>B. block_text r x = Some c))"

lemma in_use_upd [simp]:
  "in_use (r\<lparr>ca_tick := n\<rparr>) = in_use r" "in_use (r\<lparr>ca_events := e\<rparr>) = in_use r" "in_use (r\<lparr>ca_patched := p\<rparr>) = in_use r"
  by (simp_all add: in_use_def)

lemma block_text_upd [simp]:
  "block_text (r\<lparr>ca_tick := n\<rparr>) = block_text r" "block_text (r\<lparr>ca_events := e\<rparr>) = block_text r" "block_text (r\<lparr>ca_patched := p\<rparr>) = block_text r"
  by (simp_all add: block_text_def fun_eq_iff)

lemma in_use_grows: "ca_via grows r r' \<Longrightarrow> in_use r \<subseteq> in_use r'"
  by (fastforce simp: in_use_def ca_via_def grows_def)

lemma block_text_from:
  assumes "ca_from r r'" and "block_text r x = Some c"
  shows "block_text r' x = Some c"
proof -
  obtain s where s: "map_of (ca_cidrSets r) (fst x) = Some s" "snd x < capacity s" "c = net_String (nth_block s (snd x))"
    using assms(2) by (auto simp: block_text_def split: option.splits if_splits)
  then obtain s' where s': "map_of (ca_cidrSets r') (fst x) = Some s'" "same_blocks s s'" using assms(1) unfolding ca_via_def by blast
  show ?thesis using s s'(1) same_blocksD(2,3) [OF s'(2)] by (simp add: block_text_def)
qed

lemma covers_from: "ca_from r r' \<Longrightarrow> covers r B cs \<Longrightarrow> covers r' B cs"
proof (unfold covers_def, intro ballI)
  fix c assume f: "ca_from r r'" and c: "\<forall>c\<in>set cs. c = ''<nil>'' \<or> (\<exists>x\<in>B. block_text r x = Some c)" "c \<in> set cs"
  then consider "c = ''<nil>''" | x where "x \<in> B" "block_text r x = Some c" by blast
  then show "c = ''<nil>'' \<or> (\<exists>x\<in>B. block_text r' x = Some c)" by cases (use block_text_from [OF f] in blast)+
qed

lemma covers_simps [simp]:
  "covers r B []" "covers r B (c # cs) \<longleftrightarrow> (c = ''<nil>'' \<or> (\<exists>x\<in>B. block_text r x = Some c)) \<and> covers r B cs"
  by (simp_all add: covers_def)

lemma keys_disjoint_same: "keys r' = keys r \<Longrightarrow> keys_disjoint r' = keys_disjoint r"
  by (simp add: keys_disjoint_def)

lemma in_use_put:
  assumes "map_of (ca_cidrSets r) k = Some s"
  shows "in_use (r\<lparr>ca_cidrSets := put_set k t (ca_cidrSets r)\<rparr>) = {x \<in> in_use r. fst x \<noteq> k} \<union> Pair k ` used_set t"
  using assms by (auto simp: in_use_def split: if_splits)

text \<open>The text of a block parses to the block.\<close>

lemma block_text_parse:
  assumes "reads_back parse" and "ca_inv r" and "block_text r (k, j) = Some c"
  obtains s where "map_of (ca_cidrSets r) k = Some s" "keyed k s" "j < capacity s" "parse c = Some (nth_block s j)"
proof -
  obtain s where s: "map_of (ca_cidrSets r) k = Some s" "j < capacity s" "c = net_String (nth_block s j)"
    using assms(3) by (auto simp: block_text_def split: option.splits if_splits)
  have ks: "keyed k s" by (rule ca_inv_get [OF assms(2) s(1)])
  then have "canon_net (nth_block s j)" using cs.block_canon s(2) by (simp add: keyed_def)
  then show ?thesis using that s ks assms(1) by (simp add: reads_back_def)
qed

section \<open>Taking blocks\<close>

lemma AllocateNext_takes:
  assumes "cidr_inv s" and "AllocateNext s = Ret (pod, s')"
  shows "\<exists>j. j < capacity s \<and> j \<notin> used_set s \<and> pod = nth_block s j \<and> used_set s' = insert j (used_set s)"
proof -
  have "used_set s \<noteq> {..<capacity s}" using assms AllocateNext_full by fastforce
  then show ?thesis using AllocateNext_contract [OF assms(1)] assms(2) by auto
qed

lemma allocate_pods_takes:
  assumes ord: "order_ok env" and "ca_inv r" and "allocate_pods env node g cs r = (Ret allocated, r')"
  shows "\<exists>N. N \<inter> in_use r = {} \<and> N \<subseteq> in_use r' \<and> covers r' N (ipnetToStringList allocated)"
  using assms(2-)
proof (induction cs arbitrary: r allocated)
  case Nil
  then show ?case by (intro exI [of _ "{}"]) (simp add: covers_def ipnetToStringList_def)
next
  case (Cons c cs)
  obtain ip where ip: "target_addr c g = Some ip"
    using Cons.prems(2) by (cases "target_addr c g") (simp_all add: allocate_pods_Cons panic_act_def)
  let ?r = "r\<lparr>ca_tick := ca_tick r + 1\<rparr>"
  define one where "one hit = (case hit of
                      None \<Rightarrow> ret_act None
                    | Some k \<Rightarrow>
                        bind_act (event_on_err node ''CIDRNotAvailable''
                          (wrap_act (Errorf_v ''failed to allocate cidr from cluster cidr'') (on_key k AllocateNext)))
                          (\<lambda>podCIDR. ret_act (Some podCIDR)))" for hit
  obtain hit p r1 rest where p: "one hit ?r = (Ret p, r1)" "allocate_pods env node g cs r1 = (Ret rest, r')" "allocated = p # rest"
    using Cons.prems(2) ip unfolding allocate_pods_Cons one_def by (auto simp: bind_act_Ret_iff find_key_def ret_act_def)
  have "keeps (ca_via grows r) (one hit)"
    unfolding one_def by (auto split: option.splits intro!: keeps_bind keeps_wrap up.event_keeps up.allocate)
  from keepsD [OF this, of ?r] have up: "ca_via grows r r1" using p(1) ca_via_refl [OF Cons.prems(1), of grows] by simp
  have up': "ca_via grows r1 r'" by (rule keeps_up [OF up.allocate_pods_keeps p(2) ca_via_inv [OF up]])
  obtain N where N: "N \<inter> in_use r1 = {}" "N \<subseteq> in_use r'" "covers r' N (ipnetToStringList rest)"
    using Cons.IH [OF ca_via_inv [OF up] p(2)] by blast
  have "\<exists>M. M \<inter> in_use r = {} \<and> M \<subseteq> in_use r1 \<and> covers r1 M [netp_String p]"
  proof (cases hit)
    case None
    then show ?thesis using p(1) by (intro exI [of _ "{}"]) (auto simp: one_def ret_act_def covers_def netp_String_def)
  next
    case (Some k)
    then obtain pod where pod: "p = Some pod" "on_key k AllocateNext ?r = (Ret pod, r1)"
      using p(1) by (auto simp: one_def bind_act_Ret_iff event_on_err_Ret_iff wrap_act_Ret_iff ret_act_def)
    then obtain s s' where s: "map_of (ca_cidrSets r) k = Some s" "AllocateNext s = Ret (pod, s')"
      "r1 = ?r\<lparr>ca_cidrSets := put_set k s' (ca_cidrSets r)\<rparr>"
      by (auto simp: on_key_Ret_iff)
    have "cidr_inv s" using ca_inv_get [OF Cons.prems(1) s(1)] by (simp add: keyed_def)
    then obtain j where j: "j < capacity s" "j \<notin> used_set s" "pod = nth_block s j" "used_set s' = insert j (used_set s)"
      using AllocateNext_takes [OF _ s(2)] by blast
    have "same_blocks s s'" using up s(1,3) unfolding ca_via_def by fastforce
    then have "block_text r1 (k, j) = Some (netp_String p)"
      using s(1,3) j(1,3) pod(1) same_blocksD(2,3) by (simp add: block_text_def netp_String_def)
    moreover have "(k, j) \<in> in_use r1" "(k, j) \<notin> in_use r" using s(1,3) j(2,4) by (auto simp: in_use_def)
    ultimately show ?thesis by (intro exI [of _ "{(k, j)}"]) (simp add: covers_def)
  qed
  then obtain M where M: "M \<inter> in_use r = {}" "M \<subseteq> in_use r1" "covers r1 M [netp_String p]" by blast
  have "covers r' M [netp_String p]" by (rule covers_from [OF ca_via_weaken [OF up'] M(3)])
  then have "covers r' (M \<union> N) (ipnetToStringList allocated)" using N(3) p(3) by (auto simp: covers_def ipnetToStringList_def)
  then show ?case using M N in_use_grows [OF up] in_use_grows [OF up'] by (intro exI [of _ "M \<union> N"]) blast
qed


section \<open>Giving blocks back\<close>

lemma releaseCIDRs_frees:
  assumes ord: "order_ok env" and rb: "reads_back (cl_parseCIDR env)" and nil: "cl_parseCIDR env ''<nil>'' = None"
    and "ca_inv r" and "keys_disjoint r" and "covers r B cs" and "releaseCIDRs env cs r = (res, r')"
  shows "in_use r - B \<subseteq> in_use r'"
  using assms(4-)
proof (induction cs arbitrary: r)
  case (Cons c cs)
  show ?case
  proof (cases "c = ''<nil>''")
    case True
    then show ?thesis using Cons.prems(4) nil by auto
  next
    case False
    then obtain k j where x: "(k, j) \<in> B" "block_text r (k, j) = Some c" using Cons.prems(3) by (auto simp: covers_def)
    obtain s where s: "map_of (ca_cidrSets r) k = Some s" "keyed k s" "j < capacity s" "cl_parseCIDR env c = Some (nth_block s j)"
      by (rule block_text_parse [OF rb Cons.prems(1) x(2)])
    obtain a where a: "ParseAddr (ip_String (net_IP (nth_block s j))) = Some a" "pfx_Contains k a" using block_addr [OF s(2,3)] by blast
    let ?r = "r\<lparr>ca_tick := ca_tick r + 1\<rparr>"
    obtain hit where hit: "find_key env (\<lambda>k. pfx_Contains k a) r = (Ret hit, ?r)"
      "case hit of None \<Rightarrow> \<forall>k\<in>keys r. \<not> pfx_Contains k a | Some k \<Rightarrow> k \<in> keys r \<and> pfx_Contains k a"
      using find_key_spec [OF ord] by blast
    have k: "hit = Some k"
      using hit(2) a(2) get_keys [OF s(1)] Cons.prems(2) unfolding keys_disjoint_def by (cases hit) auto
    have ci: "cidr_inv s" using s(2) by (simp add: keyed_def)
    obtain t where t: "Release s (Some (nth_block s j)) = Ret t" "used_set t = used_set s - {j}" using Release_block [OF ci s(3)] by blast
    let ?r1 = "?r\<lparr>ca_cidrSets := put_set k t (ca_cidrSets r)\<rparr>"
    have on: "on_key k (release_op (Some (nth_block s j))) ?r = (Ret (), ?r1)" using s(1) t(1) by (simp add: on_key_def release_op_def no_result_def)
    have "ca_cidrSets r \<noteq> []" using s(1) by auto
    then have rest: "releaseCIDRs env cs ?r1 = (res, r')"
      using Cons.prems(4) s(4) a(1) hit(1) k on by (simp add: bind_act_def wrap_act_def)
    have "ca_from r ?r" using ca_via_refl [OF Cons.prems(1), of "\<lambda>_ _. True"] by simp
    then have fr1: "ca_from r ?r1" using keeps_result [OF release_on_key on] by blast
    have "keys ?r1 = keys r" by (rule keeps_result [OF keys_on_key on]) simp
    then have "keys_disjoint ?r1" using Cons.prems(2) keys_disjoint_same by blast
    moreover have "covers ?r1 B cs" using covers_from [OF fr1] Cons.prems(3) by simp
    ultimately have "in_use ?r1 - B \<subseteq> in_use r'" using Cons.IH [OF ca_via_inv [OF fr1] _ _ rest] by blast
    moreover have "in_use r - {(k, j)} \<subseteq> in_use ?r1" using in_use_put [of ?r k s t] s(1) t(2) by (auto simp: in_use_def)
    ultimately show ?thesis using x(1) by blast
  qed
qed simp

lemma give_back_frees:
  assumes ord: "order_ok env" and rb: "reads_back (cl_parseCIDR env)" and nil: "cl_parseCIDR env ''<nil>'' = None"
    and "ca_inv r" and "keys_disjoint r" and "covers r B (ipnetToStringList ps)" and "give_back env ps r = (res, r')"
  shows "in_use r - B \<subseteq> in_use r'"
  using assms(4-)
proof (induction ps arbitrary: r)
  case (Cons p ps)
  obtain x r1 where r1: "releaseCIDRs env [netp_String p] r = (x, r1)" by (cases "releaseCIDRs env [netp_String p] r")
  have c: "covers r B [netp_String p]" "covers r B (ipnetToStringList ps)"
    using Cons.prems(3) by (simp_all add: ipnetToStringList_def)
  have frees: "in_use r - B \<subseteq> in_use r1" by (rule releaseCIDRs_frees [OF ord rb nil Cons.prems(1,2) c(1) r1])
  show ?case
  proof (cases "x = Panic")
    case True
    then show ?thesis using frees r1 Cons.prems(4) by (simp add: act_defs del: releaseCIDRs.simps)
  next
    case False
    then have rest: "give_back env ps r1 = (res, r')"
      using r1 Cons.prems(4) by (cases x) (simp_all add: act_defs del: releaseCIDRs.simps)
    have fr1: "ca_from r r1" by (rule keeps_result [OF fr.releaseCIDRs_keeps r1]) (rule ca_via_refl [OF Cons.prems(1)], simp)
    have "keys r1 = keys r" by (rule keeps_result [OF ks.releaseCIDRs_keeps r1 refl])
    then have "keys_disjoint r1" using Cons.prems(2) keys_disjoint_same by blast
    moreover have "covers r1 B (ipnetToStringList ps)" by (rule covers_from [OF fr1 c(2)])
    ultimately show ?thesis using Cons.IH [OF ca_via_inv [OF fr1] _ _ rest] frees by blast
  qed
qed simp


section \<open>The operations\<close>

lemma give_back_ends:
  assumes ord: "order_ok env" and rb: "reads_back (cl_parseCIDR env)" and nil: "cl_parseCIDR env ''<nil>'' = None"
    and inv: "ca_inv r" and dis: "keys_disjoint r'" and c: "covers r B (ipnetToStringList ps)" and res: "give_back env ps r = (res, r')"
  shows "ca_patched r' = ca_patched r \<and> in_use r - B \<subseteq> in_use r'"
proof
  have "keys r' = keys r" by (rule keeps_result [OF ks.give_back_keeps res refl])
  then have "keys_disjoint r" using dis keys_disjoint_same by blast
  then show "in_use r - B \<subseteq> in_use r'" by (rule give_back_frees [OF ord rb nil inv _ c res])
  show "ca_patched r' = ca_patched r" by (rule keeps_result [OF pa.give_back_keeps res refl])
qed

lemma update_moves:
  assumes ord: "order_ok env" and rb: "reads_back (cl_parseCIDR env)" and nil: "cl_parseCIDR env ''<nil>'' = None"
    and inv: "ca_inv r" and dis: "keys_disjoint r'" and c: "covers r N (ipnetToStringList allocated)"
    and res: "CloudAllocator.updateCIDRsAllocation env n allocated r = (res, r')"
  shows "ca_patched r' = ca_patched r \<and> in_use r - N \<subseteq> in_use r' \<or>
    (\<exists>m. ca_patched r' = ca_patched r @ [(m, ipnetToStringList allocated)] \<and> ca_cidrSets r' = ca_cidrSets r)"
proof (cases "cl_lister env 1 n")
  case (Inr node)
  note ends = give_back_ends [OF ord rb nil _ dis]
  have failed: "ca_patched r' = ca_patched r \<and> in_use r - N \<subseteq> in_use r'"
    if b: "bind_act (give_back env allocated) (\<lambda>_. fail_act e) (r\<lparr>ca_events := x\<rparr>) = (res, r')" for e x
  proof -
    have g: "give_back env allocated (r\<lparr>ca_events := x\<rparr>) = (fst (give_back env allocated (r\<lparr>ca_events := x\<rparr>)), r')"
      using b by (cases "give_back env allocated (r\<lparr>ca_events := x\<rparr>)") (auto simp: bind_act_def fail_act_def split: outcome.splits)
    show ?thesis using ends [OF _ _ g] inv c covers_from [of r "r\<lparr>ca_events := x\<rparr>" N] by (simp add: covers_def)
  qed
  show ?thesis
    using res Inr ends [OF inv c] failed
    by (auto simp: CloudAllocator.updateCIDRsAllocation_def Let_def split: outcome.splits if_splits)
qed (use res in \<open>simp add: CloudAllocator.updateCIDRsAllocation_def\<close>)

text \<open>A sync takes nothing from a node; the pod CIDRs that it stores are blocks that were free.\<close>

definition sync_ok :: "CloudAllocator \<Rightarrow> CloudAllocator \<Rightarrow> bool" where
  "sync_ok r r' \<longleftrightarrow> ca_from r r' \<and> in_use r \<subseteq> in_use r' \<and>
     (ca_patched r' = ca_patched r \<or>
      (\<exists>m cs N. ca_patched r' = ca_patched r @ [(m, cs)] \<and> N \<inter> in_use r = {} \<and> N \<subseteq> in_use r' \<and> covers r' N cs))"

lemma sync_ok_grows: "ca_via grows r r' \<Longrightarrow> ca_patched r' = ca_patched r \<Longrightarrow> sync_ok r r'"
  using in_use_grows ca_via_weaken by (auto simp: sync_ok_def)

lemma assign_moves:
  assumes ord: "order_ok env" and t: "talos_ok env" and rb: "reads_back (cl_parseCIDR env)" and nil: "cl_parseCIDR env ''<nil>'' = None"
    and inv: "ca_inv r" and dis: "keys_disjoint r'"
    and res: "bind_act (defineNodeGlobalCIDRs env (Some node)) (\<lambda>g. bind_act (allocate_pods env node g cidrs)
       (\<lambda>allocated. CloudAllocator.updateCIDRsAllocation env (node_Name node) allocated)) r = (res, r')"
  shows "sync_ok r r'"
proof -
  obtain x r1 where d: "defineNodeGlobalCIDRs env (Some node) r = (x, r1)" by (cases "defineNodeGlobalCIDRs env (Some node) r")
  have g1: "ca_via grows r r1" by (rule keeps_up [OF up.define_keeps [OF t] d inv])
  have p1: "ca_patched r1 = ca_patched r" by (rule keeps_result [OF pg.define_keeps [OF t] d refl])
  show ?thesis
  proof (cases "\<exists>g. x = Ret g")
    case False
    then have "r' = r1" using res d by (cases x) (auto simp: bind_act_def)
    then show ?thesis using g1 p1 sync_ok_grows by blast
  next
    case True
    then obtain g where g: "x = Ret g" by blast
    obtain y r2 where a: "allocate_pods env node g cidrs r1 = (y, r2)" by (cases "allocate_pods env node g cidrs r1")
    have g2: "ca_via grows r1 r2" by (rule keeps_up [OF up.allocate_pods_keeps a ca_via_inv [OF g1]])
    have p2: "ca_patched r2 = ca_patched r" by (rule keeps_result [OF pa.allocate_pods_keeps a p1])
    have g12: "ca_via grows r r2" by (rule ca_via_trans [OF g1 g2]) (auto simp: grows_def)
    show ?thesis
    proof (cases "\<exists>allocated. y = Ret allocated")
      case False
      then have "r' = r2" using res d g a by (cases y) (auto simp: bind_act_def)
      then show ?thesis using g12 p2 sync_ok_grows by blast
    next
      case True
      then obtain allocated where y: "y = Ret allocated" by blast
      have u: "CloudAllocator.updateCIDRsAllocation env (node_Name node) allocated r2 = (res, r')"
        using res d g a y by (simp add: bind_act_def)
      have fr2: "ca_from r2 r'" by (rule keeps_result [OF fr.updateCIDRsAllocation_keeps u]) (rule ca_via_refl [OF ca_via_inv [OF g2]], simp)
      have frr: "ca_from r r'" by (rule ca_via_trans [OF ca_via_weaken [OF g12] fr2]) simp
      obtain N where N: "N \<inter> in_use r1 = {}" "N \<subseteq> in_use r2" "covers r2 N (ipnetToStringList allocated)"
        using allocate_pods_takes [OF ord ca_via_inv [OF g1] a [unfolded y]] by blast
      note u12 = in_use_grows [OF g1] in_use_grows [OF g2]
      from update_moves [OF ord rb nil ca_via_inv [OF g2] dis N(3) u]
      show ?thesis
      proof (elim disjE conjE exE)
        assume "ca_patched r' = ca_patched r2" "in_use r2 - N \<subseteq> in_use r'"
        then show ?thesis using frr N(1) u12 p2 by (auto simp: sync_ok_def)
      next
        fix m assume m: "ca_patched r' = ca_patched r2 @ [(m, ipnetToStringList allocated)]" "ca_cidrSets r' = ca_cidrSets r2"
        then have iu: "in_use r' = in_use r2" by (simp add: in_use_def)
        have "N \<inter> in_use r = {}" "in_use r \<subseteq> in_use r'" using N(1) u12 iu by blast+
        then show ?thesis
          unfolding sync_ok_def
          by (intro conjI disjI2 exI [of _ m] exI [of _ "ipnetToStringList allocated"] exI [of _ N] frr covers_from [OF fr2 N(3)])
            (simp_all add: m(1) p2 iu N(2))
      qed
    qed
  qed
qed

lemma sync_moves:
  assumes ord: "order_ok env" and t: "talos_ok env" and rb: "reads_back (cl_parseCIDR env)" and nil: "cl_parseCIDR env ''<nil>'' = None"
    and live: "\<And>node. cl_lister env 0 key = Inr node \<Longrightarrow> \<not> node_Deleting node"
    and inv: "ca_inv r" and dis: "keys_disjoint r'" and res: "CloudAllocator.syncNode env key r = (res, r')"
  shows "sync_ok r r'"
proof -
  have same: "sync_ok r r" using ca_via_refl [OF inv, of grows] by (intro sync_ok_grows) simp_all
  show ?thesis
  proof (cases "cl_lister env 0 key")
    case (Inl e)
    then show ?thesis using res same by (auto simp: CloudAllocator.syncNode_def split: if_splits)
  next
    case (Inr node)
    have occ: "sync_ok r r'" if o: "occupyPodCIDRs env node r = (res, r')"
    proof (rule sync_ok_grows)
      show "ca_via grows r r'" by (rule keeps_up [OF up.occupyPodCIDRs_keeps [OF t] o inv])
      show "ca_patched r' = ca_patched r" by (rule keeps_result [OF pg.occupyPodCIDRs_keeps [OF t] o refl])
    qed
    show ?thesis
      using res Inr live [OF Inr] same occ assign_moves [OF ord t rb nil inv dis]
      by (auto simp: CloudAllocator.syncNode_def CloudAllocator.AllocateOrOccupyCIDR_def split: if_splits)
  qed
qed


section \<open>The system\<close>

text \<open>
  The steps of the allocator and its cluster: a node appears; a worker serves an item; a node is deleted and its delete event is handled. Items are served one after
  another, against listers that may be stale, an API server that may refuse any patch, and any answers of Talos.
\<close>

inductive cloud_step :: "(string \<Rightarrow> IPNet option) \<Rightarrow> CloudAllocator \<times> cluster \<Rightarrow> CloudAllocator \<times> cluster \<Rightarrow> bool" for parse where
  add: "nodes n = None \<Longrightarrow> cloud_step parse (r, nodes) (r, nodes(n \<mapsto> []))"
| work: "cl_parseCIDR env = parse \<Longrightarrow> order_ok env \<Longrightarrow> talos_ok env \<Longrightarrow>
    (\<And>key node. item = Some key \<Longrightarrow> cl_lister env 0 key = Inr node \<Longrightarrow> \<not> node_Deleting node) \<Longrightarrow>
    CloudAllocator.processNextNodeWorkItem env item r = (res, r') \<Longrightarrow>
    server_accepts nodes (drop (length (ca_patched r)) (ca_patched r')) \<Longrightarrow>
    cloud_step parse (r, nodes) (r', apply_patched (drop (length (ca_patched r)) (ca_patched r')) nodes)"
| delete: "cl_parseCIDR env = parse \<Longrightarrow> order_ok env \<Longrightarrow> talos_ok env \<Longrightarrow> nodes (node_Name node) = Some (spec_PodCIDRs node) \<Longrightarrow>
    CloudAllocator.onDelete env (ObjNode node) r = (q, r') \<Longrightarrow>
    cloud_step parse (r, nodes) (r', nodes(node_Name node := None))"

inductive cloud_sys :: "(string \<Rightarrow> IPNet option) \<Rightarrow> CIDRAllocatorParams \<Rightarrow> CloudAllocator \<times> cluster \<Rightarrow> bool" for parse params where
  init: "talos_ok env \<Longrightarrow> NewCIDRCloudAllocator env params None = Ret r \<Longrightarrow> cloud_sys parse params (r, Map.empty)"
| step: "cloud_sys parse params s \<Longrightarrow> cloud_step parse s s' \<Longrightarrow> cloud_sys parse params s'"

text \<open>Every node claims blocks in use that make up its pod CIDRs, and no two nodes claim the same block.\<close>

definition claims_blocks :: "CloudAllocator \<Rightarrow> cluster \<Rightarrow> (string \<Rightarrow> key_block set) \<Rightarrow> bool" where
  "claims_blocks r nodes claim \<longleftrightarrow> (\<forall>n. claim n \<subseteq> in_use r) \<and> (\<forall>n m. n \<noteq> m \<longrightarrow> claim n \<inter> claim m = {}) \<and>
     (\<forall>n cs. nodes n = Some cs \<longrightarrow> covers r (claim n) cs)"

lemma claims_patch:
  assumes "claims_blocks r nodes claim" and "sync_ok r r'"
  shows "\<exists>claim. claims_blocks r' (apply_patched (drop (length (ca_patched r)) (ca_patched r')) nodes) claim"
proof -
  have frr: "ca_from r r'" and sub: "in_use r \<subseteq> in_use r'" using assms(2) by (simp_all add: sync_ok_def)
  have old: "claims_blocks r' nodes claim"
    using assms(1) sub covers_from [OF frr] unfolding claims_blocks_def by blast
  consider "ca_patched r' = ca_patched r" | m cs N where "ca_patched r' = ca_patched r @ [(m, cs)]" "N \<inter> in_use r = {}" "N \<subseteq> in_use r'" "covers r' N cs"
    using assms(2) unfolding sync_ok_def by blast
  then show ?thesis
  proof cases
    case 1
    then show ?thesis using old by (auto simp: apply_patched_def)
  next
    case (2 m cs N)
    have "claim n \<inter> N = {}" for n using assms(1) 2(2) unfolding claims_blocks_def by blast
    then have "claims_blocks r' (nodes(m \<mapsto> cs)) (claim(m := N))"
      using old 2(3,4) by (auto simp: claims_blocks_def)
    then show ?thesis using 2(1) by (auto simp: apply_patched_def)
  qed
qed

lemma claims_delete:
  assumes ord: "order_ok env" and t: "talos_ok env" and rb: "reads_back (cl_parseCIDR env)" and nil: "cl_parseCIDR env ''<nil>'' = None"
    and inv: "ca_inv r" and dis: "keys_disjoint r" and cl: "claims_blocks r nodes claim" and n: "nodes (node_Name node) = Some (spec_PodCIDRs node)"
    and res: "CloudAllocator.onDelete env (ObjNode node) r = (q, r')"
  shows "claims_blocks r' (nodes(node_Name node := None)) (claim(node_Name node := {}))"
proof -
  let ?B = "claim (node_Name node)"
  have frr: "ca_from r r'" by (rule keeps_result [OF fr.onDelete_keeps res]) (rule ca_via_refl [OF inv], simp)
  have "in_use r - ?B \<subseteq> in_use r'"
  proof (cases "spec_PodCIDRs node = []")
    case True
    then show ?thesis using res by (auto simp: CloudAllocator.onDelete_def CloudAllocator.ReleaseCIDR_def act_defs)
  next
    case False
    obtain x r1 where r1: "releaseCIDRs env (spec_PodCIDRs node) r = (x, r1)" by (cases "releaseCIDRs env (spec_PodCIDRs node) r")
    have "r1 = r'" using res r1 False
      by (cases x) (auto simp: CloudAllocator.onDelete_def CloudAllocator.ReleaseCIDR_def act_defs)
    moreover have "covers r ?B (spec_PodCIDRs node)" using cl n by (simp add: claims_blocks_def)
    ultimately show ?thesis using releaseCIDRs_frees [OF ord rb nil inv dis _ r1] by blast
  qed
  then have "claim m \<subseteq> in_use r'" if "m \<noteq> node_Name node" for m
    using cl that unfolding claims_blocks_def by blast
  then show ?thesis using cl covers_from [OF frr] by (auto simp: claims_blocks_def)
qed

lemma step_claims:
  assumes rb: "reads_back parse" and nil: "parse ''<nil>'' = None" and inv: "ca_inv r" and st: "cloud_step parse (r, nodes) (r', nodes')"
  shows "ca_from r r' \<and> (keys_disjoint r \<longrightarrow> keys_disjoint r' \<longrightarrow> claims_blocks r nodes claim \<longrightarrow> (\<exists>claim. claims_blocks r' nodes' claim))"
  using st
proof (cases rule: cloud_step.cases)
  case (add n)
  then show ?thesis using ca_via_refl [OF inv, of "\<lambda>_ _. True"] by (auto simp: claims_blocks_def intro!: exI [of _ claim] split: if_splits)
next
  case (work env item res)
  have frr: "ca_from r r'" by (rule keeps_result [OF fr.process_keeps [OF work(4)] work(6)]) (rule ca_via_refl [OF inv], simp)
  have "sync_ok r r'" if dis: "keys_disjoint r'"
  proof (cases item)
    case None
    then have "r' = r" using work(6) by (simp add: CloudAllocator.processNextNodeWorkItem_def)
    then show ?thesis using ca_via_refl [OF inv, of grows] by (intro sync_ok_grows) simp_all
  next
    case (Some key)
    obtain x where x: "CloudAllocator.syncNode env key r = (x, r')"
      using work(6) Some by (auto simp: CloudAllocator.processNextNodeWorkItem_def split: prod.splits outcome.splits)
    show ?thesis by (rule sync_moves [OF work(3,4) _ _ _ inv dis x]) (use work(2) rb nil work(5) [OF Some] in auto)
  qed
  then show ?thesis using claims_patch frr work(1) by blast
next
  case (delete env node q)
  have frr: "ca_from r r'" by (rule keeps_result [OF fr.onDelete_keeps delete(6)]) (rule ca_via_refl [OF inv], simp)
  have "reads_back (cl_parseCIDR env)" "cl_parseCIDR env ''<nil>'' = None" using delete(2) rb nil by simp_all
  from claims_delete [where nodes = nodes and node = node, OF delete(3,4) this inv _ _ delete(5,6)] show ?thesis using frr delete(1) by blast
qed

lemma cloud_sys_inv:
  assumes rb: "reads_back parse" and nil: "parse ''<nil>'' = None" and ok: "list_all2 cluster_ok (ClusterCIDRs params) (NodeCIDRMaskSizes params)"
    and "cloud_sys parse params (r, nodes)"
  shows "ca_inv r \<and> (keys_disjoint r \<longrightarrow> (\<exists>claim. claims_blocks r nodes claim))"
  using assms(4)
proof (induction "(r, nodes)" arbitrary: r nodes rule: cloud_sys.induct)
  case (init env r)
  then show ?case using new_cloud_inv [OF init(1) ok init(2)]
    by (auto simp: claims_blocks_def intro!: exI [of _ "\<lambda>_. {}"])
next
  case (step s r' nodes')
  obtain r nodes where s: "s = (r, nodes)" by (cases s)
  have inv: "ca_inv r" and IH: "keys_disjoint r \<Longrightarrow> \<exists>claim. claims_blocks r nodes claim" using step.hyps(2) s by simp_all
  note st = step_claims [OF rb nil inv step.hyps(3) [unfolded s]]
  have "keys r \<subseteq> keys r'" using st keys_get get_keys unfolding ca_via_def by blast
  then have "keys_disjoint r" if "keys_disjoint r'" using that unfolding keys_disjoint_def by blast
  then show ?case using st IH ca_via_inv by blast
qed



section \<open>Two nodes on the cluster CIDR\<close>

text \<open>A node without public addresses, whose Talos reports only local addresses: it gets a block of the cluster CIDR.\<close>

definition plain_node :: "string \<Rightarrow> Node" where
  "plain_node n = (blank_node n)\<lparr>status_Addresses := [\<lparr>addr_Type = ''InternalIP'', addr_Address = addr_String (Addr4 0x0A000001)\<rparr>]\<rparr>"

definition plain_env :: "string \<Rightarrow> cloud_env" where
  "plain_env n = demo_cloud_env\<lparr>cl_lister := \<lambda>_ _. Inr (plain_node n), cl_GetNodeIfaces := \<lambda>_. Inr local_ifaces\<rparr>"

definition on_cluster :: "CloudAllocator \<Rightarrow> Prefix \<Rightarrow> CidrSet \<Rightarrow> bool" where
  "on_cluster r k s \<longleftrightarrow> ca_clusterCIDRs r = [demo6] \<and> ca_cidrSets r = [(k, s)] \<and> keyed k s \<and> clusterCIDR s = demo6"

lemma plain_env_simps [simp]:
  "cl_parseCIDR (plain_env n) = ParseCIDR" "cl_lister (plain_env n) i key = Inr (plain_node n)" "cl_send_patch (plain_env n) j m p = None"
  "cl_order (plain_env n) i ks = ks" "order_ok (plain_env n)" "talos_ok (plain_env n)"
  by (simp_all add: plain_env_def order_ok_def talos_ok_def)

lemma plain_node_simps [simp]:
  "node_Name (plain_node n) = n" "spec_PodCIDRs (plain_node n) = []" "\<not> node_Deleting (plain_node n)" "spec_Taints (plain_node n) = []"
  by (simp_all add: plain_node_def blank_node_def)

lemma plain_define: "defineNodeGlobalCIDRs (plain_env n) (Some (plain_node n)) = ret_act ''''"
proof -
  have "GetNodeIPs (Some (plain_node n)) = Inr [Addr4 0x0A000001]"
    using ParseAddr_plain [of "Addr4 0x0A000001"] by (simp add: GetNodeIPs_def plain_node_def blank_node_def plain_addr_def)
  then show ?thesis
    using link_local
    by (simp add: defineNodeGlobalCIDRs_def plain_env_def local_ifaces_def NodeCIDRDiscovery_def cidr_step_def client_skips_def HasPrefix_def)
qed

lemma plain_sync:
  assumes r: "on_cluster r k s" and free: "card (used_set s) < capacity s"
  shows "\<exists>r' s' c pod. CloudAllocator.processNextNodeWorkItem (plain_env n) (Some n) r = (Ret (True, [q_Forget n, q_Done n]), r') \<and>
    on_cluster r' k s' \<and> capacity s' = capacity s \<and> card (used_set s') = Suc (card (used_set s)) \<and>
    ca_patched r' = ca_patched r @ [(n, [c])] \<and> ParseCIDR c = Some pod"
proof -
  have rs: "ca_clusterCIDRs r = [demo6]" "ca_cidrSets r = [(k, s)]" "keyed k s" "clusterCIDR s = demo6" using r by (simp_all add: on_cluster_def)
  have ci: "cidr_inv s" using rs(3) by (simp add: keyed_def)
  have room: "used_set s \<noteq> {..<capacity s}" using free by (metis card_lessThan less_irrefl)
  obtain j s' where s': "AllocateNext s = Ret (nth_block s j, s')" "j < capacity s" "j \<notin> used_set s" "used_set s' = insert j (used_set s)"
    using AllocateNext_contract [OF ci room] by blast
  note step = AllocateNext_step [OF ci s'(1)]
  let ?pod = "nth_block s j" and ?a = "Addr6 0xfd000000000000000000000000000000 []"
  have "ParseAddr (ip_String (net_IP demo6)) = Some ?a"
    using ParseAddr_plain [of ?a] by (simp add: demo6_def is4in6_def ip_String_def plain_addr_def)
  then have target: "target_addr demo6 '''' = Some ?a" by (simp add: target_addr_def)
  have "net_Contains (clusterCIDR s) (net_IP demo6)" by (simp add: rs(4)) (simp add: demo6_def net_Contains6 is4in6_def)
  from keyed_addr [OF rs(3) this] have "pfx_Contains k ?a" by (simp add: demo6_def ip_addr_def is4in6_def)
  let ?r = "r\<lparr>ca_tick := ca_tick r + 1, ca_cidrSets := [(k, s')]\<rparr>"
  have "allocate_pods (plain_env n) (plain_node n) '''' [demo6] r = (Ret [Some ?pod], ?r)"
    using target \<open>pfx_Contains k ?a\<close> s'(1) rs(2)
    by (simp add: find_key_def on_key_def put_set_def wrap_act_def event_on_err_def act_defs)
  moreover have "CloudAllocator.updateCIDRsAllocation (plain_env n) n [Some ?pod] ?r =
      (Ret (), ?r\<lparr>ca_patched := ca_patched r @ [(n, [net_String ?pod])]\<rparr>)"
    by (simp add: CloudAllocator.updateCIDRsAllocation_def ipnetToStringList_def netp_String_def
        cidrUpdateRetries_def numeral_3_eq_3 PatchNodeCIDRs_def cidr_patch_def)
  ultimately have "CloudAllocator.processNextNodeWorkItem (plain_env n) (Some n) r =
      (Ret (True, [q_Forget n, q_Done n]), ?r\<lparr>ca_patched := ca_patched r @ [(n, [net_String ?pod])]\<rparr>)"
    using rs(1) plain_define [of n]
    by (simp add: CloudAllocator.processNextNodeWorkItem_def CloudAllocator.syncNode_def CloudAllocator.AllocateOrOccupyCIDR_def
        bind_act_def ret_act_def del: allocate_pods.simps)
  moreover have "finite (used_set s)" using cs.taken_finite [OF ci] .
  then have "card (used_set s') = Suc (card (used_set s))" using s'(3,4) by simp
  moreover have "ParseCIDR (net_String ?pod) = Some ?pod" by (rule ParseCIDR_String [OF cs.block_canon [OF ci s'(2)]])
  ultimately show ?thesis
    using rs step keyed_step [OF rs(3) step] same_blocksD(2,6) [OF step(2)]
    by (intro exI [of _ "?r\<lparr>ca_patched := ca_patched r @ [(n, [net_String ?pod])]\<rparr>"] exI [of _ s']
        exI [of _ "net_String ?pod"] exI [of _ ?pod]) (simp add: on_cluster_def)
qed

lemma plain_start:
  obtains r k s where "NewCIDRCloudAllocator (plain_env n) demo_cloud_params None = Ret r" "on_cluster r k s" "ca_patched r = []"
    "used_set s = {}" "capacity s = 65536"
proof -
  obtain k where k: "ParsePrefix (net_String demo6) = Some k" "key_net k = demo6" "pfx_IsValid k"
    using cluster_key demo_ok(2) by (auto simp: cluster_ok_def)
  note inv = NewCIDRSet_inv [OF demo_ok(2) demo_sets(2)] and f = NewCIDRSet_fields [OF demo_sets(2)]
  have "keyed k demo_set6" using inv(1) f(1) k by (simp add: keyed_def)
  moreover have "capacity demo_set6 = 65536" by (simp add: demo_capacity)
  ultimately show ?thesis
    using that [of "\<lparr>ca_clusterCIDRs = [demo6], ca_cidrSets = [(k, demo_set6)], ca_tick = 0, ca_events = [], ca_patched = []\<rparr>" k demo_set6]
      k(1) inv(2) f(1) demo_sets(2)
    by (simp add: NewCIDRCloudAllocator_def demo_cloud_params_def CloudAllocator.filterOutServiceRange_def act_defs assign_set_def on_cluster_def)
qed

lemma plain_join:
  assumes "cloud_sys ParseCIDR params (r, nodes)" and "nodes n = None"
    and res: "CloudAllocator.processNextNodeWorkItem (plain_env n) (Some n) r = (res, r')" and p: "ca_patched r' = ca_patched r @ [(n, cs)]"
  shows "cloud_sys ParseCIDR params (r', nodes(n \<mapsto> cs))"
proof -
  have "cloud_step ParseCIDR (r, nodes(n \<mapsto> [])) (r', apply_patched (drop (length (ca_patched r)) (ca_patched r')) (nodes(n \<mapsto> [])))"
    by (rule cloud_step.work [OF _ _ _ _ res]) (auto simp: server_accepts_def p)
  then have "cloud_step ParseCIDR (r, nodes(n \<mapsto> [])) (r', nodes(n \<mapsto> cs))" using p by (simp add: apply_patched_def)
  then show ?thesis using cloud_sys.step [OF cloud_sys.step [OF assms(1) cloud_step.add [of nodes n]]] assms(2) by blast
qed


end
