(* ===== verification/CloudRestart.thy ===== *)
theory CloudRestart
  imports CloudSafety
begin

text \<open>
  A restart of the cloud allocator in a running cluster: the pod CIDR of a node on a discovered network is not marked, and a node that is synced before it gets the same.
\<close>

section \<open>Two nodes on one network\<close>

definition fd_key :: Prefix where
  "fd_key = Prefix (Addr6 0xfd000000000000000000000000000000 []) 64"

definition demo_w2 :: u128 where
  "demo_w2 = 0x20010db8000000000000000000000002"

text \<open>An address of the network, with a node that has it and the answers of its Talos.\<close>

definition on_net :: "u128 \<Rightarrow> bool" where
  "on_net w \<longleftrightarrow> native6 w \<and> \<not> IsPrivate (Addr6 w []) \<and> IsGlobalUnicast (Addr6 w []) \<and> w AND prefix_mask 64 = demo_base"

definition net_node :: "string \<Rightarrow> u128 \<Rightarrow> string list \<Rightarrow> Node" where
  "net_node n w cs = (blank_node n)\<lparr>spec_PodCIDRs := cs, status_Addresses := [\<lparr>addr_Type = ''ExternalIP'', addr_Address = addr_String (Addr6 w [])\<rparr>]\<rparr>"

definition net_env :: "string \<Rightarrow> u128 \<Rightarrow> cloud_env" where
  "net_env n w = demo_cloud_env\<lparr>cl_lister := \<lambda>_ _. Inr (net_node n w []),
     cl_GetNodeIfaces := \<lambda>_. Inr (local_ifaces @ [\<lparr>if_LinkName = ''eth0'', if_Address = Prefix (Addr6 w []) 64, if_Flags = 0\<rparr>])\<rparr>"

lemma on_net_demo: "on_net demo_w" "on_net demo_w2"
proof -
  show "on_net demo_w" using demo_w_facts by (simp add: on_net_def)
  show "on_net demo_w2" unfolding on_net_def native6_def demo_w_def demo_w2_def by code_simp
qed

lemma on_netD:
  assumes "on_net w"
  shows "native6 w" "\<not> is4in6 w" "\<not> IsPrivate (Addr6 w [])" "IsGlobalUnicast (Addr6 w [])" "w AND prefix_mask 64 = demo_base"
  using assms native6_not_mapped by (simp_all add: on_net_def)

lemma net_env_simps [simp]:
  "cl_talosNew (net_env n w) = None" "cl_parseCIDR (net_env n w) = ParseCIDR" "cl_order (net_env n w) i ks = ks"
  "cl_lister (net_env n w) i key = Inr (net_node n w [])" "cl_send_patch (net_env n w) j m p = None"
  "cl_ParseCIDRs (net_env n w) cs = (if list_all (\<lambda>c. ParseCIDR c \<noteq> None) cs then Inr (map (the \<circ> ParseCIDR) cs) else Inl (Errorf ''invalid CIDR''))"
  by (simp_all add: net_env_def)

lemma net_node_simps [simp]:
  "node_Name (net_node n w cs) = n" "spec_PodCIDRs (net_node n w cs) = cs" "\<not> node_Deleting (net_node n w cs)" "spec_Taints (net_node n w cs) = []"
  by (simp_all add: net_node_def blank_node_def)

lemma net_text:
  assumes "on_net w"
  shows "ParsePrefix (pfx_String (Prefix (Addr6 w []) 64)) = Some (Prefix (Addr6 w []) 64)"
    and "ParseCIDR (pfx_String (Prefix (Addr6 w []) 64)) = Some (net6 demo_base 64)"
proof -
  have "pfx_String (Prefix (Addr6 w []) 64) = addr_String (Addr6 w []) @ ''/'' @ itoa 64"
    by (simp add: pfx_String_def pfx_IsValid_def)
  then show p: "ParsePrefix (pfx_String (Prefix (Addr6 w []) 64)) = Some (Prefix (Addr6 w []) 64)"
    using ParsePrefix_String [of "Addr6 w []" 64] on_netD(2) [OF assms] by simp
  then show "ParseCIDR (pfx_String (Prefix (Addr6 w []) 64)) = Some (net6 demo_base 64)" using on_netD(5) [OF assms] by (simp add: ParseCIDR_def)
qed

lemma net_node_ips: "on_net w \<Longrightarrow> GetNodeIPs (Some (net_node n w cs)) = Inr [Addr6 w []]"
  using ParseAddr_plain [of "Addr6 w []"] on_netD(2)
  by (simp add: GetNodeIPs_def net_node_def blank_node_def plain_addr_def)

lemma net_networks: "on_net w \<Longrightarrow> node_networks (net_env n w) [Addr6 w []] = [pfx_String (Prefix (Addr6 w []) 64)]"
  using link_local on_netD(3,4)
  by (simp add: node_networks_def net_env_def local_ifaces_def NodeCIDRDiscovery_def cidr_step_def client_skips_def HasPrefix_def
      pfx_IsValid_def contained_in_def pfx_Contains_def)

text \<open>The cluster CIDR and the network have no address in common.\<close>

lemma key_choice:
  assumes "v AND prefix_mask 64 = demo_base"
  shows "pfx_Contains demo_key (Addr6 v [])" and "\<not> pfx_Contains fd_key (Addr6 v [])"
proof -
  show "pfx_Contains demo_key (Addr6 v [])" using assms by (simp add: pfx_Contains_def pfx_IsValid_def xor_mask_eq_0 and.assoc)
  have "0xfd000000000000000000000000000000 AND prefix_mask 64 \<noteq> demo_base" unfolding demo_w_def by code_simp
  then show "\<not> pfx_Contains fd_key (Addr6 v [])" using assms by (simp add: pfx_Contains_def fd_key_def xor_mask_eq_0)
qed

lemma keys_differ [simp]: "fd_key \<noteq> demo_key" "demo_key \<noteq> fd_key"
proof -
  have "pfx_Contains demo_key (Addr6 demo_w [])" "\<not> pfx_Contains fd_key (Addr6 demo_w [])" using key_choice [of demo_w] by simp_all
  then show "fd_key \<noteq> demo_key" "demo_key \<noteq> fd_key" by fastforce+
qed

lemma fd_text: "ParsePrefix (net_String demo6) = Some fd_key"
proof -
  have "net_String demo6 = addr_String (Addr6 0xfd000000000000000000000000000000 []) @ ''/'' @ itoa 64"
    by (simp add: demo6_def net_String_def networkNumberAndMask_def ip_String_def mask_len_def is4in6_def)
  then show ?thesis using ParsePrefix_String [of "Addr6 0xfd000000000000000000000000000000 []" 64] by (simp add: fd_key_def is4in6_def)
qed

lemma not_global: "\<not> global_key subnets fd_key"
proof -
  have "IsPrivate (pfx_Addr fd_key)" unfolding fd_key_def by code_simp
  then show ?thesis by (simp add: global_key_def)
qed

lemma is_global: "global_key [net6 demo_base 64] demo_key"
proof -
  have "\<not> (Is4 (pfx_Addr demo_key) \<or> IsPrivate (pfx_Addr demo_key))" unfolding demo_w_def by code_simp
  moreover have "pfx_Contains demo_key (Addr6 demo_base [])" by (rule key_choice(1)) (simp add: and.assoc)
  ultimately show ?thesis by (simp add: global_key_def)
qed

section \<open>The allocator with the network\<close>

definition two_sets :: "CidrSet \<Rightarrow> CloudAllocator \<Rightarrow> bool" where
  "two_sets s r \<longleftrightarrow> ca_clusterCIDRs r = [demo6] \<and> ca_cidrSets r = [(fd_key, demo_set6), (demo_key, s)] \<and> ca_patched r = []"

lemma two_sets_tick [simp]: "two_sets s (r\<lparr>ca_tick := i\<rparr>) = two_sets s r"
  by (simp add: two_sets_def)

lemma occupy_net:
  assumes w: "on_net w" and r: "two_sets s r" and s': "Occupy s (Some (net6 w 128)) = Ret s'"
  shows "\<exists>r'. occupyNodeIPs (net_env n w) [Addr6 w []] r = (Ret (), r') \<and> two_sets s' r'"
  using s' r host_net [OF on_netD(2) [OF w]] on_netD(3) [OF w] key_choice [OF on_netD(5) [OF w]]
  by (simp add: occupyNodeIPs_Cons occupyCIDR_def find_key_def on_key_def occupy_op_def no_result_def
      put_set_def wrap_act_def act_defs two_sets_def)

text \<open>A node on the known network.\<close>

lemma join_net:
  assumes w: "on_net w" and r: "two_sets s r" and s1: "Occupy s (Some (net6 w 128)) = Ret s1" and al: "AllocateNext s1 = Ret (pod, s2)"
  shows "\<exists>r'. CloudAllocator.syncNode (net_env n w) n r = (Ret (), r') \<and> ca_patched r' = [(n, [net_String pod])]"
proof -
  let ?r = "r\<lparr>ca_tick := ca_tick r + 1\<rparr>" and ?g = "pfx_String demo_key"
  obtain r1 where r1: "occupyNodeIPs (net_env n w) [Addr6 w []] ?r = (Ret (), r1)" "two_sets s1 r1"
    using occupy_net [OF w _ s1, of ?r] r by auto
  have "find_key (net_env n w) (global_key [net6 demo_base 64]) r = (Ret (Some demo_key), ?r)"
    using r not_global is_global by (simp add: find_key_def two_sets_def)
  then have d: "defineNodeGlobalCIDRs (net_env n w) (Some (net_node n w [])) r = (Ret ?g, r1)"
    using r1(1) net_text(2) [OF w] on_netD(3) [OF w]
    by (simp add: define_eq [OF net_node_ips [OF w]] net_networks [OF w] settle_def Let_def bind_act_def wrap_act_def lift_act_def ret_act_def
        del: occupyNodeIPs.simps)
  have "\<not> is4in6 demo_base" using native6_plain [of demo_w 64] demo_w_facts(1) by simp
  moreover have "?g = addr_String (Addr6 demo_base []) @ ''/'' @ itoa 64" by (simp add: pfx_String_def pfx_IsValid_def)
  ultimately have "ParsePrefix ?g = Some demo_key" "?g \<noteq> ''''" using ParsePrefix_String [of "Addr6 demo_base []" 64] by simp_all
  moreover have "To4 (net_IP demo6) = None" by (simp add: demo6_def is4in6_def)
  ultimately have target: "target_addr demo6 ?g = Some (Addr6 demo_base [])"
    using demo_target by (auto simp: target_addr_def split: option.splits if_splits)
  have base: "pfx_Contains demo_key (Addr6 demo_base [])" "\<not> pfx_Contains fd_key (Addr6 demo_base [])"
    using key_choice [of demo_base] by (simp_all add: and.assoc)
  let ?r2 = "r1\<lparr>ca_tick := ca_tick r1 + 1, ca_cidrSets := [(fd_key, demo_set6), (demo_key, s2)]\<rparr>"
  have "allocate_pods (net_env n w) (net_node n w []) ?g [demo6] r1 = (Ret [Some pod], ?r2)"
    using target base al r1(2)
    by (simp add: find_key_def on_key_def put_set_def wrap_act_def event_on_err_def act_defs two_sets_def)
  moreover have "CloudAllocator.updateCIDRsAllocation (net_env n w) n [Some pod] ?r2 = (Ret (), ?r2\<lparr>ca_patched := [(n, [net_String pod])]\<rparr>)"
    using r1(2)
    by (simp add: CloudAllocator.updateCIDRsAllocation_def ipnetToStringList_def netp_String_def two_sets_def
        cidrUpdateRetries_def numeral_3_eq_3 PatchNodeCIDRs_def cidr_patch_def)
  ultimately show ?thesis
    using d r by (simp add: CloudAllocator.syncNode_def CloudAllocator.AllocateOrOccupyCIDR_def bind_act_def two_sets_def del: allocate_pods.simps)
qed

text \<open>The start of a process in a cluster with a node on the network.\<close>

lemma start_net:
  assumes w: "on_net w" and s0: "NewCIDRSet (net6 demo_base 64) 80 = Ret s0" and s1: "Occupy s0 (Some (net6 w 128)) = Ret s1"
    and c: "ParseCIDR c = Some pod" "net_IP pod = IP16 v" "v AND prefix_mask 64 = demo_base"
  shows "\<exists>r. NewCIDRCloudAllocator (net_env n w) demo_cloud_params (Some [net_node n w [c]]) = Ret r \<and> two_sets s1 r"
proof -
  let ?net = "pfx_String (Prefix (Addr6 w []) 64)"
  define r0 where "r0 = \<lparr>ca_clusterCIDRs = [demo6], ca_cidrSets = [(fd_key, demo_set6)], ca_tick = 0, ca_events = [], ca_patched = []\<rparr>"
  define r1 where "r1 = r0\<lparr>ca_tick := 2, ca_cidrSets := [(fd_key, demo_set6), (demo_key, s0)]\<rparr>"
  have "two_sets s0 r1" by (simp add: two_sets_def r1_def r0_def)
  then obtain r2 where r2: "occupyNodeIPs (net_env n w) [Addr6 w []] r1 = (Ret (), r2)" "two_sets s1 r2"
    using occupy_net [OF w _ s1] by blast
  have occ: "occupyCIDR (net_env n w) pod r0 = (Ret False, r0\<lparr>ca_tick := 1\<rparr>)"
    using c(2) key_choice(2) [OF c(3)] by (simp add: occupyCIDR_def find_key_def act_defs r0_def)
  have add: "add_cidrs [?net] m (r0\<lparr>ca_tick := 2\<rparr>) = (Ret (), r1)" for m
    using net_text(1) [OF w] on_netD [OF w] s0 discovered_set(2) [of w 64 16]
    by (simp add: addCIDRSet_def pod_subnet_def pfx_Masked_def addr_Prefix_def CIDRMask_def wrap_act_def act_defs Let_def r0_def r1_def)
  have "find_key (net_env n w) (global_key [net6 demo_base 64]) (r0\<lparr>ca_tick := 1\<rparr>) = (Ret None, r0\<lparr>ca_tick := 2\<rparr>)"
    using not_global by (simp add: find_key_def r0_def)
  then have d: "defineNodeGlobalCIDRs (net_env n w) (Some (net_node n w [c])) (r0\<lparr>ca_tick := 1\<rparr>) = (Ret ?net, r2)"
    using r2(1) add net_text(2) [OF w] on_netD(3) [OF w]
    by (simp add: define_eq [OF net_node_ips [OF w]] net_networks [OF w] settle_def Let_def bind_act_def wrap_act_def lift_act_def ret_act_def
        del: occupyNodeIPs.simps add_cidrs.simps)
  have "occupy_listed (net_env n w) [net_node n w [c]] r0 = (Ret (), r2)"
    using occ d c(1) by (simp add: occupyPodCIDRs_def wrap_act_def act_defs)
  moreover have "new_cloud_sets [demo6] [80] [] = Ret [(fd_key, demo_set6)]" by (simp add: demo_sets(2) fd_text assign_set_def)
  ultimately show ?thesis
    using r2(2) by (simp add: NewCIDRCloudAllocator_def demo_cloud_params_def CloudAllocator.filterOutServiceRange_def act_defs r0_def)
qed

section \<open>The restart\<close>

text \<open>
  C33: A restart of the cloud allocator makes pod CIDRs overlap. A node on a discovered network has the pod CIDR \<open>c\<close>; the new process finds no set for it, adds the network
  of the node, but does not mark \<open>c\<close> in the new set. Another node on the network that is synced before the work item of the first one is served is given the same CIDR.
\<close>

theorem cloud_restart_overlaps:
  "\<exists>c pod r r'. ParseCIDR c = Some pod \<and>
     NewCIDRCloudAllocator (net_env ''a'' demo_w) demo_cloud_params (Some [net_node ''a'' demo_w [c]]) = Ret r \<and>
     CloudAllocator.syncNode (net_env ''b'' demo_w2) ''b'' r = (Ret (), r') \<and> ca_patched r' = [(''b'', [c])]"
proof -
  obtain s0 where s0: "NewCIDRSet (net6 demo_base 64) 80 = Ret s0" "cidr_inv s0" "used_set s0 = {}" "clusterCIDR s0 = net6 demo_base 64" "capacity s0 = 65536"
    by (rule demo_fresh_set)
  have in_net: "net_Contains (net6 demo_base 64) (IP16 w)" if "on_net w" for w
  proof -
    have "w \<in> net_addrs demo_base 64" using on_netD(5) [OF that] by (simp flip: and_prefix_mask_eq_iff add: and.assoc)
    then show ?thesis using on_netD(2) [OF that] native6_plain [of demo_w 64] demo_w_facts(1) by (simp add: net_Contains6)
  qed
  note w = on_net_demo(1) and w2 = on_net_demo(2)
  obtain s1 where s1: "Occupy s0 (Some (net6 demo_w 128)) = Ret s1" "cidr_inv s1" "same_blocks s0 s1" "card (used_set s1) \<le> Suc (card (used_set s0))"
    by (rule occupy_address [OF s0(2) on_netD(2) [OF w]]) (use in_net [OF w] s0(4) in simp_all)
  have "net_Contains (clusterCIDR s1) (IP16 demo_w2)" using in_net [OF w2] s0(4) same_blocksD(6) [OF s1(3)] by simp
  then obtain s2 where s2: "Occupy s1 (Some (net6 demo_w2 128)) = Ret s2" "cidr_inv s2" "same_blocks s1 s2" "card (used_set s2) \<le> Suc (card (used_set s1))"
    by (rule occupy_address [OF s1(2) on_netD(2) [OF w2]])
  have "card (used_set s2) < capacity s2" using s0(3,5) s1(4) s2(4) same_blocksD(2) [OF s1(3)] same_blocksD(2) [OF s2(3)] by simp
  then have "used_set s2 \<noteq> {..<capacity s2}" by (metis card_lessThan less_irrefl)
  then obtain j s3 where j: "AllocateNext s2 = Ret (nth_block s2 j, s3)" "j < capacity s2" using AllocateNext_contract [OF s2(2)] by blast
  let ?pod = "nth_block s2 j"
  have canon: "canon_net ?pod" by (rule cs.block_canon [OF s2(2) j(2)])
  have cl: "clusterCIDR s2 = net6 demo_base 64" using s0(4) same_blocksD(6) [OF s1(3)] same_blocksD(6) [OF s2(3)] by simp
  have "net_Contains (net6 demo_base 64) (net_IP ?pod)" using block_in_cluster [OF s2(2) j(2) canon_self(1) [OF canon]] cl by simp
  then obtain v where v: "net_IP ?pod = IP16 v" "v AND prefix_mask 64 = demo_base"
    using native6_plain [of demo_w 64] demo_w_facts(1) by (auto simp: net_Contains6 and.assoc simp flip: and_prefix_mask_eq_iff)
  obtain r where r: "NewCIDRCloudAllocator (net_env ''a'' demo_w) demo_cloud_params (Some [net_node ''a'' demo_w [net_String ?pod]]) = Ret r" "two_sets s1 r"
    using start_net [OF w s0(1) s1(1) ParseCIDR_String [OF canon] v] by blast
  show ?thesis using join_net [OF w2 r(2) s2(1) j(1)] r(1) ParseCIDR_String [OF canon] by blast
qed

end
