(* ===== verification/Workers.thy ===== *)
theory Workers
  imports CloudAllocator
begin

text \<open>
  The event handlers of the informers and the workers that drain the queue, for both allocators, and
  the handler constructors of \<^verbatim>\<open>pkg/utils/controller/node/controller_utils.go\<close>. A worker may run forever, so its
  loop is a partial function; a locale states what it relies on of \<^verbatim>\<open>processNextNodeWorkItem\<close>.
\<close>

section \<open>Event handlers\<close>

text \<open>The key of a node, which has no namespace, is its name.\<close>

definition onAdd :: "Node \<Rightarrow> queue_call list" where
  "onAdd obj = [q_Add (node_Name obj)]"

definition onUpdate :: "Node \<Rightarrow> Node \<Rightarrow> queue_call list" where
  "onUpdate old new = [q_Add (node_Name new)]"

text \<open>An object that a handler may be given: one of the informer, or something else.\<close>

datatype any_obj = FromInformer informer_obj | Unexpected

definition CreateAddNodeHandler :: "(Node \<Rightarrow> ('s, unit) act) \<Rightarrow> any_obj \<Rightarrow> ('s, unit) act" where
  "CreateAddNodeHandler f originalObj =
     (case originalObj of FromInformer (ObjNode node) \<Rightarrow> log_act (f node) | _ \<Rightarrow> panic_act)"

definition CreateUpdateNodeHandler :: "(Node \<Rightarrow> Node \<Rightarrow> ('s, unit) act) \<Rightarrow> any_obj \<Rightarrow> any_obj \<Rightarrow> ('s, unit) act" where
  "CreateUpdateNodeHandler f origOldObj origNewObj =
     (case (origNewObj, origOldObj) of
        (FromInformer (ObjNode node), FromInformer (ObjNode prevNode)) \<Rightarrow> log_act (f prevNode node)
      | _ \<Rightarrow> panic_act)"

definition CreateDeleteNodeHandler :: "(Node \<Rightarrow> ('s, unit) act) \<Rightarrow> any_obj \<Rightarrow> ('s, unit) act" where
  "CreateDeleteNodeHandler f originalObj =
     (case originalObj of
        FromInformer (ObjNode node) \<Rightarrow> log_act (f node)
      | FromInformer (Tombstone key (Some node)) \<Rightarrow> log_act (f node)
      | FromInformer (Tombstone key None) \<Rightarrow> ret_act ()
      | Unexpected \<Rightarrow> ret_act ())"

section \<open>Workers\<close>

text \<open>
  \<^verbatim>\<open>for r.processNextNodeWorkItem(ctx) { }\<close>: pass \<open>i\<close> is \<open>step i\<close>, the calls on the queue are collected. \<open>None\<close> is a worker that
  never returns.
\<close>

partial_function (option) work_loop ::
    "(nat \<Rightarrow> ('s, bool \<times> queue_call list) act) \<Rightarrow> nat \<Rightarrow> queue_call list \<Rightarrow> 's \<Rightarrow> ((go_err, unit) outcome \<times> queue_call list \<times> 's) option"
where
  "work_loop step i calls r =
     (case step i r of
        (Ret (goes_on, cs), r') \<Rightarrow> if goes_on then work_loop step (Suc i) (calls @ cs) r' else Some (Ret (), calls @ cs, r')
      | (Err e, r') \<Rightarrow> Some (Err e, calls, r')
      | (Panic, r') \<Rightarrow> Some (Panic, calls, r'))"

text \<open>
  The worker of each allocator. The answers of the outside world may differ from one item to the next; \<open>items i\<close>
  is the \<open>i\<close>-th item of the queue, \<open>None\<close> its shutdown.
\<close>

definition range_runWorker :: "(nat \<Rightarrow> api_env) \<Rightarrow> (nat \<Rightarrow> queue_obj option) \<Rightarrow> RangeAllocator \<Rightarrow>
    ((go_err, unit) outcome \<times> queue_call list \<times> RangeAllocator) option" where
  "range_runWorker envs items r = work_loop (\<lambda>i. RangeAllocator.processNextNodeWorkItem (envs i) (items i)) 0 [] r"

definition cloud_runWorker :: "(nat \<Rightarrow> cloud_env) \<Rightarrow> (nat \<Rightarrow> string option) \<Rightarrow> CloudAllocator \<Rightarrow>
    ((go_err, unit) outcome \<times> queue_call list \<times> CloudAllocator) option" where
  "cloud_runWorker envs items r = work_loop (\<lambda>i. CloudAllocator.processNextNodeWorkItem (envs i) (items i)) 0 [] r"

text \<open>The calls for one item: it is forgotten or retried, and always marked as done.\<close>

definition item_calls :: "(nat \<Rightarrow> string option) \<Rightarrow> nat \<Rightarrow> queue_call list \<Rightarrow> bool" where
  "item_calls items i cs \<longleftrightarrow> (\<exists>key. items i = Some key \<and> (cs = [q_Forget key, q_Done key] \<or> cs = [q_AddRateLimited key, q_Done key]))"

locale work_queue =
  fixes step :: "nat \<Rightarrow> ('s, bool \<times> queue_call list) act" and items :: "nat \<Rightarrow> string option"
  assumes shutdown: "items i = None \<Longrightarrow> step i r = (Ret (False, []), r)"
    and served: "items i = Some key \<Longrightarrow> fst (step i r) = Panic \<or>
      fst (step i r) = Ret (True, [q_Forget key, q_Done key]) \<or> fst (step i r) = Ret (True, [q_AddRateLimited key, q_Done key])"
begin

lemma work_loop_stops:
  assumes "i \<le> n" and "items n = None" and "\<And>j. i \<le> j \<Longrightarrow> j < n \<Longrightarrow> items j \<noteq> None"
  shows "\<exists>out css r'. work_loop step i calls r = Some (out, calls @ concat css, r') \<and> list_all2 (item_calls items) [i..<i + length css] css \<and>
    (out = Ret () \<and> length css = n - i \<or> out = Panic \<and> length css < n - i)"
  using assms(1,3)
proof (induction "n - i" arbitrary: i calls r)
  case 0
  then have "items i = None" using assms(2) by simp
  then show ?case
    using 0 by (subst work_loop.simps) (auto simp: shutdown intro!: exI [of _ "Ret ()"] exI [of _ "[]"])
next
  case (Suc m)
  have "i < n" using Suc.hyps(2) by simp
  then have "items i \<noteq> None" using Suc.prems(2) [of i] by simp
  then obtain key where key: "items i = Some key" by blast
  obtain out1 r1 where st: "step i r = (out1, r1)" by (cases "step i r")
  show ?case
  proof (cases "out1 = Panic")
    case True
    then show ?thesis
      using st Suc.hyps(2) by (subst work_loop.simps) (auto intro!: exI [of _ Panic] exI [of _ "[]"])
  next
    case False
    then obtain cs where cs: "out1 = Ret (True, cs)" "item_calls items i cs"
      using served [OF key, of r] st key by (auto simp: item_calls_def)
    obtain out css r' where ih: "work_loop step (Suc i) (calls @ cs) r1 = Some (out, (calls @ cs) @ concat css, r')"
      "list_all2 (item_calls items) [Suc i..<Suc i + length css] css"
      "out = Ret () \<and> length css = n - Suc i \<or> out = Panic \<and> length css < n - Suc i"
      using Suc.hyps(1) [of "Suc i" "calls @ cs" r1] Suc.hyps(2) Suc.prems by fastforce
    have "[i..<i + length (cs # css)] = i # [Suc i..<Suc i + length css]" by (subst upt_conv_Cons) (simp_all del: upt_Suc)
    then have "list_all2 (item_calls items) [i..<i + length (cs # css)] (cs # css)" using ih(2) cs(2) by simp
    moreover have "work_loop step i calls r = Some (out, calls @ concat (cs # css), r')"
      using ih(1) st cs(1) by (subst work_loop.simps) simp
    moreover have "out = Ret () \<and> length (cs # css) = n - i \<or> out = Panic \<and> length (cs # css) < n - i"
      using ih(3) Suc.hyps(2) by auto
    ultimately show ?thesis by blast
  qed
qed

end

text \<open>The key that the queue knows an item by.\<close>

fun obj_key :: "queue_obj \<Rightarrow> string" where
  "obj_key (KeyObj key) = key"
| "obj_key (OtherObj x) = x"

interpretation range_worker: work_queue "\<lambda>i. RangeAllocator.processNextNodeWorkItem (envs i) (items i)" "map_option obj_key \<circ> items"
  for envs items
  by unfold_locales
    (auto simp: RangeAllocator.processNextNodeWorkItem_def split: prod.splits outcome.splits queue_obj.splits)

interpretation cloud_worker: work_queue "\<lambda>i. CloudAllocator.processNextNodeWorkItem (envs i) (items i)" items for envs items
  by unfold_locales (auto simp: CloudAllocator.processNextNodeWorkItem_def split: prod.splits outcome.splits)

section \<open>Properties\<close>

text \<open>
  C16: A worker returns when the queue shuts down: if item \<open>n\<close> is the first shutdown, the worker of either allocator
  has served exactly the \<open>n\<close> items before it, in order, forgetting each or retrying it later and marking it
  as done, unless the process crashed with a panic on the way.
\<close>

theorem workers_stop:
  assumes "items n = None" and "\<forall>j<n. items j \<noteq> None"
  shows "(\<exists>out css r'. cloud_runWorker envs items r = Some (out, concat css, r') \<and> list_all2 (item_calls items) [0..<length css] css \<and>
      (out = Ret () \<and> length css = n \<or> out = Panic \<and> length css < n)) \<and>
    (\<exists>out css r'. range_runWorker envs' (map_option KeyObj \<circ> items) ra = Some (out, concat css, r') \<and>
      list_all2 (item_calls items) [0..<length css] css \<and> (out = Ret () \<and> length css = n \<or> out = Panic \<and> length css < n))"
proof -
  have k: "map_option obj_key \<circ> (map_option KeyObj \<circ> items) = items"
    by (simp add: fun_eq_iff option.map_comp comp_def option.map_ident)
  show ?thesis
    using cloud_worker.work_loop_stops [of 0 n items envs "[]" r]
      range_worker.work_loop_stops [of 0 n "map_option KeyObj \<circ> items" envs' "[]" ra] assms
    unfolding cloud_runWorker_def range_runWorker_def k by simp
qed

text \<open>A queue of two nodes that are gone by the time they are served.\<close>

definition gone_env :: cloud_env where
  "gone_env = \<lparr>cl_parseCIDR = \<lambda>_. None, cl_lister = \<lambda>_ _. Inl (StatusError NotFound), cl_send_patch = \<lambda>_ _ _. None,
     cl_order = \<lambda>_ ks. ks, cl_talosNew = None, cl_ParseCIDRs = \<lambda>_. Inr [], cl_GetNodeIfaces = \<lambda>_. Inr []\<rparr>"

definition gone_api :: api_env where
  "gone_api = \<lparr>parseCIDR = \<lambda>_. None, lister = \<lambda>_ _. Inl (StatusError NotFound), send_patch = \<lambda>_ _ _. None\<rparr>"

definition two_items :: "nat \<Rightarrow> string option" where
  "two_items i = (if i < 2 then Some ''n'' else None)"

theorem workers_stop_witness:
  "\<exists>out css r'. cloud_runWorker (\<lambda>_. gone_env) two_items
       \<lparr>ca_clusterCIDRs = [], ca_cidrSets = [], ca_tick = 0, ca_events = [], ca_patched = []\<rparr> = Some (out, concat css, r') \<and>
     list_all2 (item_calls two_items) [0..<length css] css \<and> (out = Ret () \<and> length css = 2 \<or> out = Panic \<and> length css < 2)"
  by (rule conjunct1 [OF workers_stop [where n = 2 and envs' = "\<lambda>_. gone_api" and
        ra = "\<lparr>ra_clusterCIDRs = [], ra_cidrSets = [], ra_events = [], ra_patched = []\<rparr>"]])
    (simp_all add: two_items_def)

text \<open>
  The delete handlers of both allocators crash on a tombstone, the object that the informer passes when it
  missed the deletion, so the CIDRs of the node are never released; the handler constructor of the utilities
  releases them in that case, and for a plain node it is the same call.
\<close>

theorem tombstone_crashes:
  "fst (CloudAllocator.onDelete env (Tombstone key lastState) ca) = Panic \<and>
   fst (RangeAllocator.onDelete parse (Tombstone key lastState) ra) = Panic \<and>
   CreateDeleteNodeHandler (\<lambda>node. CloudAllocator.ReleaseCIDR env (Some node)) (FromInformer (Tombstone key (Some node))) ca =
     log_act (CloudAllocator.ReleaseCIDR env (Some node)) ca \<and>
   snd (CloudAllocator.onDelete env (ObjNode node) ca) =
     snd (CreateDeleteNodeHandler (\<lambda>node. CloudAllocator.ReleaseCIDR env (Some node)) (FromInformer (ObjNode node)) ca)"
  by (auto simp: CloudAllocator.onDelete_def RangeAllocator.onDelete_def CreateDeleteNodeHandler_def act_defs
      split: prod.splits outcome.splits)

end
