(* ===== verification/NodeIpam.thy ===== *)
theory NodeIpam
  imports CloudAllocator
begin

text \<open>
  How the node IPAM controller is configured and started: the options
  (\<^verbatim>\<open>cmd/talos-cloud-controller-manager/options\<close>), the choice of mask sizes and the checks of
  \<^verbatim>\<open>cmd/talos-cloud-controller-manager/nodeipamcontroller.go\<close>, \<^verbatim>\<open>NewNodeIpamController\<close> and the constructor of the
  allocators in \<^verbatim>\<open>ipam/cidr_allocator.go\<close>.

  The outside world is the record \<open>ipam_env\<close>: the functions of \<^verbatim>\<open>k8s.io/utils/net\<close>, what Talos answers, whether there is
  a Kubernetes client, the answers to the polls of the node list (as many as fit into the grace period), and the
  environment of the allocators.
\<close>

section \<open>Configuration\<close>

text \<open>The mask sizes are \<^verbatim>\<open>int32\<close> values; zero means that the flag is not set.\<close>

record NodeIPAMControllerConfiguration =
  cfg_ServiceCIDR :: string
  cfg_SecondaryServiceCIDR :: string
  cfg_NodeCIDRMaskSize :: "32 word"
  cfg_NodeCIDRMaskSizeIPv4 :: "32 word"
  cfg_NodeCIDRMaskSizeIPv6 :: "32 word"

text \<open>\<open>None\<close> is the nil receiver. The options embed a pointer to the configuration they fill.\<close>

definition ApplyTo :: "NodeIPAMControllerConfiguration option \<Rightarrow> NodeIPAMControllerConfiguration \<Rightarrow> NodeIPAMControllerConfiguration" where
  "ApplyTo opt cfg =
     (case opt of
        None \<Rightarrow> cfg
      | Some opts \<Rightarrow>
          let serviceCIDRList = Split (CHR '','') (cfg_ServiceCIDR opts);
              cfg1 = (if length serviceCIDRList > 0 then cfg\<lparr>cfg_ServiceCIDR := serviceCIDRList ! 0\<rparr> else cfg);
              cfg2 = (if length serviceCIDRList > 1 then cfg1\<lparr>cfg_SecondaryServiceCIDR := serviceCIDRList ! 1\<rparr> else cfg1)
          in cfg2\<lparr>cfg_NodeCIDRMaskSize := cfg_NodeCIDRMaskSize opts, cfg_NodeCIDRMaskSizeIPv4 := cfg_NodeCIDRMaskSizeIPv4 opts,
                  cfg_NodeCIDRMaskSizeIPv6 := cfg_NodeCIDRMaskSizeIPv6 opts\<rparr>)"

definition Validate :: "NodeIPAMControllerConfiguration option \<Rightarrow> go_err list" where
  "Validate opt =
     (case opt of
        None \<Rightarrow> []
      | Some opts \<Rightarrow>
          if length (Split (CHR '','') (cfg_ServiceCIDR opts)) > 2
          then [Errorf ''--service-cluster-ip-range can not contain more than two entries''] else [])"

record KubeCloudShared =
  AllocateNodeCIDRs :: bool
  ClusterCIDR :: string
  CIDRAllocatorType :: string

record ipam_env =
  ie_talosNew :: "go_err option"
  ie_GetPodCIDRs :: "go_err + string list"
  ie_GetServiceCIDRs :: "go_err + string list"
  ie_ParseCIDRs :: "string list \<Rightarrow> go_err + IPNet list"
  ie_IsDualStackCIDRs :: "IPNet list \<Rightarrow> bool"
  ie_IsIPv6CIDR :: "IPNet \<Rightarrow> bool"
  ie_kubeClient :: bool
  ie_polls :: nat
  ie_list :: "nat \<Rightarrow> go_err + Node list"
  ie_cloud :: cloud_env

section \<open>Mask sizes\<close>

definition defaultNodeMaskCIDRIPv4 :: int where
  "defaultNodeMaskCIDRIPv4 = 24"

definition defaultNodeMaskCIDRIPv6 :: int where
  "defaultNodeMaskCIDRIPv6 = 80"

definition sortedSizes :: "(IPNet \<Rightarrow> bool) \<Rightarrow> IPNet list \<Rightarrow> int \<Rightarrow> int \<Rightarrow> int list" where
  "sortedSizes isIPv6 clusterCIDRs maskSizeIPv4 maskSizeIPv6 =
     map (\<lambda>clusterCIDR. if isIPv6 clusterCIDR then maskSizeIPv6 else maskSizeIPv4) clusterCIDRs"

text \<open>A flag that is set, or the default.\<close>

abbreviation mask_or :: "32 word \<Rightarrow> int \<Rightarrow> int" where
  "mask_or m d \<equiv> (if m \<noteq> 0 then sint m else d)"

definition setNodeCIDRMaskSizes :: "(IPNet \<Rightarrow> bool) \<Rightarrow> NodeIPAMControllerConfiguration \<Rightarrow> IPNet list \<Rightarrow> (go_err, int list) outcome" where
  "setNodeCIDRMaskSizes isIPv6 cfg clusterCIDRs =
     (let ipv4Mask = defaultNodeMaskCIDRIPv4; ipv6Mask = defaultNodeMaskCIDRIPv6 in
      if length clusterCIDRs > 1 then
        if cfg_NodeCIDRMaskSize cfg \<noteq> 0 then Err (Errorf ''usage of --node-cidr-mask-size is not allowed with dual-stack clusters'')
        else Ret (sortedSizes isIPv6 clusterCIDRs (mask_or (cfg_NodeCIDRMaskSizeIPv4 cfg) ipv4Mask) (mask_or (cfg_NodeCIDRMaskSizeIPv6 cfg) ipv6Mask))
      else case clusterCIDRs of
        [] \<Rightarrow> Panic
      | cidr # _ \<Rightarrow>
          let maskConfigured = (cfg_NodeCIDRMaskSize cfg \<noteq> 0); maskV4Configured = (cfg_NodeCIDRMaskSizeIPv4 cfg \<noteq> 0);
              maskV6Configured = (cfg_NodeCIDRMaskSizeIPv6 cfg \<noteq> 0); isSingleStackIPv6 = isIPv6 cidr in
          if maskConfigured then
            if maskV4Configured \<or> maskV6Configured
            then Err (Errorf ''usage of --node-cidr-mask-size-ipv4 and --node-cidr-mask-size-ipv6 is not allowed if --node-cidr-mask-size is set'')
            else let mask = sint (cfg_NodeCIDRMaskSize cfg) in Ret (sortedSizes isIPv6 clusterCIDRs mask mask)
          else if maskV4Configured \<and> isSingleStackIPv6
          then Err (Errorf ''usage of --node-cidr-mask-size-ipv4 is not allowed for a single-stack IPv6 cluster'')
          else if maskV6Configured \<and> \<not> isSingleStackIPv6
          then Err (Errorf ''usage of --node-cidr-mask-size-ipv6 is not allowed for a single-stack IPv4 cluster'')
          else Ret (sortedSizes isIPv6 clusterCIDRs (mask_or (cfg_NodeCIDRMaskSizeIPv4 cfg) ipv4Mask) (mask_or (cfg_NodeCIDRMaskSizeIPv6 cfg) ipv6Mask)))"

definition processCIDRs :: "ipam_env \<Rightarrow> string \<Rightarrow> (go_err, IPNet list \<times> bool) outcome" where
  "processCIDRs env cidrsList =
     bind_out (of_sum (ie_ParseCIDRs env (Split (CHR '','') (TrimSpace cidrsList)))) (\<lambda>cidrs. Ret (cidrs, ie_IsDualStackCIDRs env cidrs))"

section \<open>Constructing the allocator\<close>

datatype CIDRAllocator = RangeAlloc RangeAllocator | CloudAlloc CloudAllocator

abbreviation "RangeAllocatorType \<equiv> ''RangeAllocator''"
abbreviation "CloudAllocatorType \<equiv> ''CloudAllocator''"

text \<open>The polls \<open>i\<close>, \<open>i + 1\<close>, ... until one succeeds or the grace period ends.\<close>

fun poll_nodes :: "(nat \<Rightarrow> go_err + Node list) \<Rightarrow> nat \<Rightarrow> nat \<Rightarrow> Node list option" where
  "poll_nodes get 0 i = None"
| "poll_nodes get (Suc k) i = (case get i of Inl _ \<Rightarrow> poll_nodes get k (Suc i) | Inr nodes \<Rightarrow> Some nodes)"

definition listNodes :: "ipam_env \<Rightarrow> go_err + Node list" where
  "listNodes env =
     (case poll_nodes (ie_list env) (ie_polls env) 0 of
        None \<Rightarrow> Inl (Errorf ''failed to list all nodes, cannot proceed without updating CIDR map'')
      | Some nodes \<Rightarrow> Inr nodes)"

definition ipam_New :: "ipam_env \<Rightarrow> string \<Rightarrow> CIDRAllocatorParams \<Rightarrow> (go_err, CIDRAllocator) outcome" where
  "ipam_New env allocatorType allocatorParams =
     bind_out (of_sum (listNodes env)) (\<lambda>nodeList.
       if allocatorType = RangeAllocatorType then
         bind_out (NewCIDRRangeAllocator (cl_parseCIDR (ie_cloud env)) allocatorParams (Some nodeList)) (\<lambda>r. Ret (RangeAlloc r))
       else if allocatorType = CloudAllocatorType then
         bind_out (NewCIDRCloudAllocator (ie_cloud env) allocatorParams (Some nodeList)) (\<lambda>r. Ret (CloudAlloc r))
       else Err (Errorf ''invalid CIDR allocator type''))"

text \<open>The check of the masks; \<^verbatim>\<open>nodeCIDRMaskSizes[idx]\<close> out of range panics.\<close>

fun check_masks :: "IPNet list \<Rightarrow> int list \<Rightarrow> (go_err, unit) outcome" where
  "check_masks [] sizes = Ret ()"
| "check_masks (cidr # cidrs) [] = Panic"
| "check_masks (cidr # cidrs) (sz # sizes) =
     (if fst (mask_Size (net_Mask cidr)) > sz then Err (Errorf ''Controller: Invalid --cluster-cidr'') else check_masks cidrs sizes)"

text \<open>Indexing a slice.\<close>

definition go_nth :: "'a list \<Rightarrow> nat \<Rightarrow> ('e, 'a) outcome" where
  "go_nth xs i = (if i < length xs then Ret (xs ! i) else Panic)"

definition NewNodeIpamController :: "ipam_env \<Rightarrow> IPNet list \<Rightarrow> IPNet list \<Rightarrow> int list \<Rightarrow> string \<Rightarrow> (go_err, CIDRAllocator) outcome" where
  "NewNodeIpamController env clusterCIDRs serviceCIDRs nodeCIDRMaskSizes allocatorType =
     (if \<not> ie_kubeClient env then Err (Errorf ''kubeClient is nil when starting Controller'')
      else bind_out
        (if allocatorType \<noteq> CloudAllocatorType then
           if clusterCIDRs = [] then Err (Errorf ''Controller: Must specify --cluster-cidr if --allocate-node-cidrs is set'')
           else check_masks clusterCIDRs nodeCIDRMaskSizes
         else Ret ()) (\<lambda>_.
      bind_out (if length clusterCIDRs > 1 then bind_out (go_nth serviceCIDRs 1) (\<lambda>c. Ret (Some c)) else Ret None) (\<lambda>secondaryServiceCIDR.
      bind_out (go_nth serviceCIDRs 0) (\<lambda>serviceCIDR.
        ipam_New env allocatorType
          \<lparr>ClusterCIDRs = clusterCIDRs, ServiceCIDR = Some serviceCIDR, SecondaryServiceCIDR = secondaryServiceCIDR,
           NodeCIDRMaskSizes = nodeCIDRMaskSizes\<rparr>))))"

section \<open>Starting the controller\<close>

text \<open>
  What the start returns: whether the controller counts as enabled, the error, and the allocator that runs if there is
  none. The completed configuration is the state: an empty cluster CIDR is replaced by that of Talos.
\<close>

record start_result =
  sr_enabled :: bool
  sr_err :: "go_err option"
  sr_running :: "CIDRAllocator option"

abbreviation refuse :: "go_err \<Rightarrow> start_result" where
  "refuse e \<equiv> \<lparr>sr_enabled = False, sr_err = Some e, sr_running = None\<rparr>"

text \<open>A step whose error ends the start; a panic stays one.\<close>

definition or_refuse :: "(go_err, 'a) outcome \<Rightarrow> ('a \<Rightarrow> (go_err, start_result) outcome) \<Rightarrow> (go_err, start_result) outcome" where
  "or_refuse m f = (case m of Ret x \<Rightarrow> f x | Err e \<Rightarrow> Ret (refuse e) | Panic \<Rightarrow> Panic)"

definition set_cluster_cidr :: "ipam_env \<Rightarrow> KubeCloudShared \<Rightarrow> (go_err, KubeCloudShared) outcome" where
  "set_cluster_cidr env ccm =
     (if ClusterCIDR ccm = '''' then
        bind_out (of_sum (ie_GetPodCIDRs env)) (\<lambda>cidrs. Ret (ccm\<lparr>ClusterCIDR := Join '','' cidrs\<rparr>))
      else Ret ccm)"

definition start_with :: "ipam_env \<Rightarrow> NodeIPAMControllerConfiguration \<Rightarrow> KubeCloudShared \<Rightarrow> (go_err, start_result) outcome" where
  "start_with env cfg ccm =
     or_refuse (processCIDRs env (ClusterCIDR ccm)) (\<lambda>(clusterCIDRs, dualStack).
       if length clusterCIDRs > 1 \<and> \<not> dualStack then Ret (refuse (Errorf ''ClusterCIDRs are not configured as dual stack''))
       else if length clusterCIDRs > 2 then Ret (refuse (Errorf ''more than max allowed of 2 clusters''))
       else
         or_refuse (of_sum (ie_GetServiceCIDRs env)) (\<lambda>svcCIDRs.
         or_refuse (of_sum (ie_ParseCIDRs env svcCIDRs)) (\<lambda>serviceCIDRs.
         or_refuse (go_nth svcCIDRs 0) (\<lambda>svc0.
           let cfg' = cfg\<lparr>cfg_ServiceCIDR := svc0\<rparr>;
               cfg'' = (if length svcCIDRs > 1 then cfg'\<lparr>cfg_SecondaryServiceCIDR := svcCIDRs ! 1\<rparr> else cfg') in
         or_refuse (setNodeCIDRMaskSizes (ie_IsIPv6CIDR env) cfg'' clusterCIDRs) (\<lambda>nodeCIDRMaskSizes.
           case NewNodeIpamController env clusterCIDRs serviceCIDRs nodeCIDRMaskSizes (CIDRAllocatorType ccm) of
             Ret a \<Rightarrow> Ret \<lparr>sr_enabled = True, sr_err = None, sr_running = Some a\<rparr>
           | Err e \<Rightarrow> Ret \<lparr>sr_enabled = True, sr_err = Some e, sr_running = None\<rparr>
           | Panic \<Rightarrow> Panic)))))"

definition startNodeIpamController :: "ipam_env \<Rightarrow> NodeIPAMControllerConfiguration \<Rightarrow> (KubeCloudShared, start_result) act" where
  "startNodeIpamController env cfg ccm =
     (if \<not> AllocateNodeCIDRs ccm then (Ret \<lparr>sr_enabled = False, sr_err = None, sr_running = None\<rparr>, ccm)
      else case ie_talosNew env of
        Some e \<Rightarrow> (Ret (refuse e), ccm)
      | None \<Rightarrow>
          (case set_cluster_cidr env ccm of
             Ret ccm' \<Rightarrow> (start_with env cfg ccm', ccm')
           | Err e \<Rightarrow> (Ret (refuse e), ccm)
           | Panic \<Rightarrow> (Panic, ccm)))"

text \<open>The wrapper ends the process (\<open>None\<close>) if the options are not valid.\<close>

definition startNodeIpamControllerWrapper :: "ipam_env \<Rightarrow> NodeIPAMControllerConfiguration \<Rightarrow> (KubeCloudShared, start_result) act option" where
  "startNodeIpamControllerWrapper env opts =
     (if length (Validate (Some opts)) > 0 then None else Some (startNodeIpamController env (ApplyTo (Some opts) opts)))"

end
