(* ===== verification/NodeIpamProps.thy ===== *)
theory NodeIpamProps
  imports NodeIpam CloudProps
begin

text \<open>
  What a started node IPAM controller can rely on: the mask sizes that the flags give, that the parameters of a
  started range allocator satisfy the hypotheses of its safety properties, and the inputs on which the start panics.
\<close>

section \<open>Mask sizes\<close>

text \<open>
  The documentation of the flags in \<^verbatim>\<open>config/types.go\<close>: \<open>--node-cidr-mask-size\<close> is for single-stack clusters only, and the
  flags of the families are for dual-stack clusters only.
\<close>

definition documented_flags :: "NodeIPAMControllerConfiguration \<Rightarrow> IPNet list \<Rightarrow> bool" where
  "documented_flags cfg cidrs \<longleftrightarrow>
     (if 1 < length cidrs then cfg_NodeCIDRMaskSize cfg = 0
      else cfg_NodeCIDRMaskSizeIPv4 cfg = 0 \<and> cfg_NodeCIDRMaskSizeIPv6 cfg = 0)"

text \<open>
  What the code accepts besides: in a single-stack cluster the flag of the cluster's own family, alone.
\<close>

definition own_family_flag :: "(IPNet \<Rightarrow> bool) \<Rightarrow> NodeIPAMControllerConfiguration \<Rightarrow> IPNet list \<Rightarrow> bool" where
  "own_family_flag isIPv6 cfg cidrs \<longleftrightarrow> length cidrs = 1 \<and> cfg_NodeCIDRMaskSize cfg = 0 \<and>
     (if isIPv6 (hd cidrs) then cfg_NodeCIDRMaskSizeIPv6 cfg \<noteq> 0 \<and> cfg_NodeCIDRMaskSizeIPv4 cfg = 0
      else cfg_NodeCIDRMaskSizeIPv4 cfg \<noteq> 0 \<and> cfg_NodeCIDRMaskSizeIPv6 cfg = 0)"

text \<open>Both together, by the branches of the code.\<close>

definition flags_ok :: "(IPNet \<Rightarrow> bool) \<Rightarrow> NodeIPAMControllerConfiguration \<Rightarrow> IPNet list \<Rightarrow> bool" where
  "flags_ok isIPv6 cfg cidrs \<longleftrightarrow>
     (if 1 < length cidrs then cfg_NodeCIDRMaskSize cfg = 0
      else if cfg_NodeCIDRMaskSize cfg \<noteq> 0 then cfg_NodeCIDRMaskSizeIPv4 cfg = 0 \<and> cfg_NodeCIDRMaskSizeIPv6 cfg = 0
      else (cfg_NodeCIDRMaskSizeIPv4 cfg \<noteq> 0 \<longrightarrow> \<not> isIPv6 (hd cidrs)) \<and> (cfg_NodeCIDRMaskSizeIPv6 cfg \<noteq> 0 \<longrightarrow> isIPv6 (hd cidrs)))"

lemma flags_ok_iff: "cidrs \<noteq> [] \<Longrightarrow> flags_ok isIPv6 cfg cidrs \<longleftrightarrow> documented_flags cfg cidrs \<or> own_family_flag isIPv6 cfg cidrs"
  by (cases cidrs) (auto simp: flags_ok_def documented_flags_def own_family_flag_def)

text \<open>The size for a cluster CIDR: that of its family if it is set, else the common one, else the default.\<close>

definition size_for :: "(IPNet \<Rightarrow> bool) \<Rightarrow> NodeIPAMControllerConfiguration \<Rightarrow> IPNet \<Rightarrow> int" where
  "size_for isIPv6 cfg cidr =
     (let own = (if isIPv6 cidr then cfg_NodeCIDRMaskSizeIPv6 cfg else cfg_NodeCIDRMaskSizeIPv4 cfg) in
      if own \<noteq> 0 then sint own
      else if cfg_NodeCIDRMaskSize cfg \<noteq> 0 then sint (cfg_NodeCIDRMaskSize cfg)
      else if isIPv6 cidr then 80 else 24)"

definition no_flags :: NodeIPAMControllerConfiguration where
  "no_flags = \<lparr>cfg_ServiceCIDR = [], cfg_SecondaryServiceCIDR = [], cfg_NodeCIDRMaskSize = 0,
     cfg_NodeCIDRMaskSizeIPv4 = 0, cfg_NodeCIDRMaskSizeIPv6 = 0\<rparr>"

text \<open>\<^verbatim>\<open>IsIPv6CIDR\<close> as the library documents it.\<close>

definition is_v6 :: "IPNet \<Rightarrow> bool" where
  "is_v6 c = (case net_IP c of IP16 w \<Rightarrow> \<not> is4in6 w | _ \<Rightarrow> False)"

text \<open>
  C34: \<^verbatim>\<open>setNodeCIDRMaskSizes\<close> accepts the combinations of flags that the documentation allows and one more that it
  excludes: in a single-stack cluster the flag of the cluster's own family instead of the common one. It refuses all
  others with an error. An accepted combination gives every cluster CIDR the size of its family; without a cluster
  CIDR the function panics.
\<close>

theorem setNodeCIDRMaskSizes_decides:
  "setNodeCIDRMaskSizes isIPv6 cfg [] = Panic \<and>
   (cidrs \<noteq> [] \<longrightarrow>
     (if documented_flags cfg cidrs \<or> own_family_flag isIPv6 cfg cidrs
      then setNodeCIDRMaskSizes isIPv6 cfg cidrs = Ret (map (size_for isIPv6 cfg) cidrs)
      else \<exists>e. setNodeCIDRMaskSizes isIPv6 cfg cidrs = Err e))"
  using flags_ok_iff [of cidrs isIPv6 cfg, symmetric] by (cases cidrs)
    (auto simp: setNodeCIDRMaskSizes_def flags_ok_def size_for_def sortedSizes_def Let_def
      defaultNodeMaskCIDRIPv4_def defaultNodeMaskCIDRIPv6_def)

theorem setNodeCIDRMaskSizes_decides_witness:
  "setNodeCIDRMaskSizes is_v6 no_flags [demo4, demo6] = Ret [24, 80]"
proof -
  have "is_v6 demo6" "\<not> is_v6 demo4" by (simp_all add: is_v6_def demo4_def demo6_def is4in6_def)
  then show ?thesis
    using setNodeCIDRMaskSizes_decides [of is_v6 no_flags "[demo4, demo6]"]
    by (simp add: documented_flags_def size_for_def no_flags_def)
qed

section \<open>Starting\<close>

lemma setNodeCIDRMaskSizes_ok:
  "cidrs \<noteq> [] \<Longrightarrow> flags_ok isIPv6 cfg cidrs \<Longrightarrow> setNodeCIDRMaskSizes isIPv6 cfg cidrs = Ret (map (size_for isIPv6 cfg) cidrs)"
  by (cases cidrs)
    (auto simp: setNodeCIDRMaskSizes_def flags_ok_def size_for_def sortedSizes_def Let_def
      defaultNodeMaskCIDRIPv4_def defaultNodeMaskCIDRIPv6_def split: if_splits)

lemma setNodeCIDRMaskSizes_Ret: "setNodeCIDRMaskSizes isIPv6 cfg cidrs = Ret sizes \<Longrightarrow> sizes = map (size_for isIPv6 cfg) cidrs"
  by (cases cidrs)
    (auto simp: setNodeCIDRMaskSizes_def size_for_def sortedSizes_def Let_def
      defaultNodeMaskCIDRIPv4_def defaultNodeMaskCIDRIPv6_def split: if_splits)

lemma or_refuse_simps [simp]:
  "or_refuse (Ret x) f = f x" "or_refuse (Err e) f = Ret (refuse e)" "or_refuse Panic f = Panic"
  by (simp_all add: or_refuse_def)

lemma of_sum_Ret_iff: "of_sum x = Ret y \<longleftrightarrow> x = Inr y"
  by (cases x) simp_all

lemma mask_flags_only:
  "setNodeCIDRMaskSizes isIPv6 (cfg\<lparr>cfg_ServiceCIDR := a\<rparr>) cidrs = setNodeCIDRMaskSizes isIPv6 cfg cidrs"
  "setNodeCIDRMaskSizes isIPv6 (cfg\<lparr>cfg_SecondaryServiceCIDR := b\<rparr>) cidrs = setNodeCIDRMaskSizes isIPv6 cfg cidrs"
  by (cases cidrs; simp add: setNodeCIDRMaskSizes_def Let_def)+

text \<open>
  The start once the cluster CIDRs are parsed and checked, without the assignments to the configuration that
  nothing reads.
\<close>

definition start_parsed :: "ipam_env \<Rightarrow> NodeIPAMControllerConfiguration \<Rightarrow> string \<Rightarrow> IPNet list \<Rightarrow> (go_err, start_result) outcome" where
  "start_parsed env cfg ty clusterCIDRs =
     or_refuse (of_sum (ie_GetServiceCIDRs env)) (\<lambda>svcCIDRs.
     or_refuse (of_sum (ie_ParseCIDRs env svcCIDRs)) (\<lambda>serviceCIDRs.
     if svcCIDRs = [] then Panic
     else or_refuse (setNodeCIDRMaskSizes (ie_IsIPv6CIDR env) cfg clusterCIDRs) (\<lambda>sizes.
       case NewNodeIpamController env clusterCIDRs serviceCIDRs sizes ty of
         Ret a \<Rightarrow> Ret \<lparr>sr_enabled = True, sr_err = None, sr_running = Some a\<rparr>
       | Err e \<Rightarrow> Ret \<lparr>sr_enabled = True, sr_err = Some e, sr_running = None\<rparr>
       | Panic \<Rightarrow> Panic)))"

lemma start_with_eq:
  "start_with env cfg ccm =
    or_refuse (processCIDRs env (ClusterCIDR ccm)) (\<lambda>(clusterCIDRs, dualStack).
      if length clusterCIDRs > 1 \<and> \<not> dualStack then Ret (refuse (Errorf ''ClusterCIDRs are not configured as dual stack''))
      else if length clusterCIDRs > 2 then Ret (refuse (Errorf ''more than max allowed of 2 clusters''))
      else start_parsed env cfg (CIDRAllocatorType ccm) clusterCIDRs)"
proof -
  have "or_refuse (go_nth svc 0) (\<lambda>svc0.
           let cfg' = cfg\<lparr>cfg_ServiceCIDR := svc0\<rparr>;
               cfg'' = (if length svc > 1 then cfg'\<lparr>cfg_SecondaryServiceCIDR := svc ! 1\<rparr> else cfg') in
         or_refuse (setNodeCIDRMaskSizes (ie_IsIPv6CIDR env) cfg'' cidrs) k) =
      (if svc = [] then Panic else or_refuse (setNodeCIDRMaskSizes (ie_IsIPv6CIDR env) cfg cidrs) k)" for svc cidrs k
    by (cases svc; cases "tl svc") (simp_all add: go_nth_def mask_flags_only Let_def)
  then show ?thesis by (simp only: start_with_def start_parsed_def)
qed

text \<open>
  The flag \<^verbatim>\<open>--service-cluster-ip-range\<close> has no effect: whatever service CIDRs the configuration holds, the start of
  the controller is the same, because those of Talos replace them.
\<close>

theorem service_flag_ignored:
  "startNodeIpamController env (cfg\<lparr>cfg_ServiceCIDR := a, cfg_SecondaryServiceCIDR := b\<rparr>) ccm = startNodeIpamController env cfg ccm"
proof -
  have "start_with env (cfg\<lparr>cfg_ServiceCIDR := a, cfg_SecondaryServiceCIDR := b\<rparr>) c = start_with env cfg c" for c
    by (simp only: start_with_eq start_parsed_def mask_flags_only)
  then show ?thesis by (simp only: startNodeIpamController_def)
qed

section \<open>The parameters of a started range allocator\<close>

text \<open>
  What the documentation of \<^verbatim>\<open>net.ParseCIDR\<close> says of its result: a prefix mask of the length of the address, and no host
  bits. It may still be a network of IPv4-mapped addresses.
\<close>

definition masked_net :: "IPNet \<Rightarrow> bool" where
  "masked_net n =
     (case (net_IP n, net_Mask n) of
        (IP4 v, Mask4 k) \<Rightarrow> (case simpleMaskLength k of Some m \<Rightarrow> net_base v m | None \<Rightarrow> False)
      | (IP16 v, Mask16 k) \<Rightarrow> (case simpleMaskLength k of Some m \<Rightarrow> net_base v m | None \<Rightarrow> False)
      | _ \<Rightarrow> False)"

definition mapped_net :: "IPNet \<Rightarrow> bool" where
  "mapped_net n = (case net_IP n of IP16 v \<Rightarrow> is4in6 v | _ \<Rightarrow> False)"

lemma canon_net_iff: "canon_net n \<longleftrightarrow> masked_net n \<and> \<not> mapped_net n"
  by (auto simp: canon_net_def masked_net_def mapped_net_def split: IP.splits IPMask.splits option.splits)

lemma ParseCIDR_masked:
  assumes "ParseCIDR s = Some n"
  shows "masked_net n"
proof -
  obtain p where p: "ParsePrefix s = Some p" using assms by (auto simp: ParseCIDR_def split: option.splits)
  then have "pfx_IsValid p" by (rule ParsePrefix_valid(1))
  then show ?thesis
    using assms p by (cases p; cases "pfx_Addr p")
      (auto simp: ParseCIDR_def masked_net_def pfx_IsValid_def net_base_and_prefix_mask nat_le_iff split: if_splits)
qed

text \<open>
  What the start does not check of a cluster CIDR and the allocator needs to divide it: the node mask is no longer than
  an address, and the cluster is neither the whole IPv4 address space in single addresses nor an IPv6 network with
  IPv4-mapped addresses.
\<close>

definition mask_fits :: "(IPNet \<Rightarrow> bool) \<Rightarrow> NodeIPAMControllerConfiguration \<Rightarrow> IPNet \<Rightarrow> bool" where
  "mask_fits isIPv6 cfg cidr \<longleftrightarrow> size_for isIPv6 cfg cidr \<le> snd (mask_Size (net_Mask cidr)) \<and>
     (case net_IP cidr of
        IP4 w \<Rightarrow> size_for isIPv6 cfg cidr - fst (mask_Size (net_Mask cidr)) < 32
      | IP16 w \<Rightarrow> no4in6 w (nat (fst (mask_Size (net_Mask cidr))))
      | IPnil \<Rightarrow> False)"

lemma mask_fits_cluster_ok:
  assumes "masked_net c" and "fst (mask_Size (net_Mask c)) \<le> size_for isIPv6 cfg c"
    and "To4 (net_IP c) = None \<longrightarrow> size_for isIPv6 cfg c - fst (mask_Size (net_Mask c)) \<le> clusterSubnetMaxDiff"
  shows "cluster_ok c (size_for isIPv6 cfg c) \<longleftrightarrow> mask_fits isIPv6 cfg c"
proof -
  have "To4 (IP16 w) = None" "\<not> is4in6 w" if "no4in6 w k" for w k using that by (simp_all add: no4in6_def)
  then show ?thesis
    using assms
    by (auto simp: mask_fits_def cluster_ok_def canon_net_iff mapped_net_def Let_def split: prod.splits IP.splits)
qed

text \<open>What the start checks of a cluster CIDR: that the node mask is not shorter, and in IPv6 not much longer.\<close>

definition mask_checked :: "(IPNet \<Rightarrow> bool) \<Rightarrow> NodeIPAMControllerConfiguration \<Rightarrow> IPNet \<Rightarrow> bool" where
  "mask_checked isIPv6 cfg c \<longleftrightarrow> fst (mask_Size (net_Mask c)) \<le> size_for isIPv6 cfg c \<and>
     (To4 (net_IP c) = None \<longrightarrow> size_for isIPv6 cfg c - fst (mask_Size (net_Mask c)) \<le> 16)"

lemma started_mask_checked:
  assumes "check_masks cs (map (size_for isIPv6 cfg) cs) = Ret ()" and "new_sets cs (map (size_for isIPv6 cfg) cs) = Ret sets"
  shows "\<forall>c\<in>set cs. mask_checked isIPv6 cfg c"
  using assms
proof (induction cs arbitrary: sets)
  case (Cons c cs)
  have mask: "fst (mask_Size (net_Mask c)) \<le> size_for isIPv6 cfg c" "check_masks cs (map (size_for isIPv6 cfg) cs) = Ret ()"
    using Cons.prems(1) by (simp_all split: if_splits)
  obtain s ss where s: "NewCIDRSet c (size_for isIPv6 cfg c) = Ret s" "new_sets cs (map (size_for isIPv6 cfg) cs) = Ret ss"
    using Cons.prems(2) by (auto simp: bind_out_Ret_iff)
  have "To4 (net_IP c) = None \<longrightarrow> size_for isIPv6 cfg c - fst (mask_Size (net_Mask c)) \<le> 16"
    using s(1) by (auto simp: NewCIDRSet_def clusterSubnetMaxDiff_def Let_def split: prod.splits if_splits)
  then show ?case using mask s(2) Cons.IH by (simp add: mask_checked_def)
qed simp

lemma started_cluster_ok:
  assumes "\<forall>c\<in>set cs. masked_net c \<and> mask_checked isIPv6 cfg c"
  shows "list_all2 cluster_ok cs (map (size_for isIPv6 cfg) cs) \<longleftrightarrow> (\<forall>c\<in>set cs. mask_fits isIPv6 cfg c)"
  using assms
proof (induction cs)
  case (Cons c cs)
  then show ?case using mask_fits_cluster_ok [of c isIPv6 cfg] by (simp add: mask_checked_def clusterSubnetMaxDiff_def)
qed simp

lemma or_refuse_running:
  "or_refuse m f = Ret res \<Longrightarrow> sr_running res \<noteq> None \<Longrightarrow> \<exists>x. m = Ret x \<and> f x = Ret res"
  by (cases m) auto

lemma start_parsed_running:
  assumes "start_parsed env cfg ty cs = Ret res" and a: "sr_running res = Some a"
  obtains svcs sns sizes where "ie_GetServiceCIDRs env = Inr svcs" "ie_ParseCIDRs env svcs = Inr sns"
    "setNodeCIDRMaskSizes (ie_IsIPv6CIDR env) cfg cs = Ret sizes" "NewNodeIpamController env cs sns sizes ty = Ret a"
proof -
  define fin where "fin m = (case m of Ret a \<Rightarrow> Ret \<lparr>sr_enabled = True, sr_err = None, sr_running = Some a\<rparr>
      | Err e \<Rightarrow> Ret \<lparr>sr_enabled = True, sr_err = Some e, sr_running = None\<rparr> | Panic \<Rightarrow> (Panic :: (go_err, start_result) outcome))" for m :: "(go_err, CIDRAllocator) outcome"
  have run: "sr_running res \<noteq> None" using a by simp
  obtain svcs where svcs: "of_sum (ie_GetServiceCIDRs env) = Ret svcs"
    and p1: "or_refuse (of_sum (ie_ParseCIDRs env svcs)) (\<lambda>sns. if svcs = [] then Panic
      else or_refuse (setNodeCIDRMaskSizes (ie_IsIPv6CIDR env) cfg cs) (\<lambda>sizes. fin (NewNodeIpamController env cs sns sizes ty))) = Ret res"
    using or_refuse_running [OF assms(1) [unfolded start_parsed_def, folded fin_def] run] by blast
  obtain sns where sns: "of_sum (ie_ParseCIDRs env svcs) = Ret sns"
    and p2: "or_refuse (setNodeCIDRMaskSizes (ie_IsIPv6CIDR env) cfg cs) (\<lambda>sizes. fin (NewNodeIpamController env cs sns sizes ty)) = Ret res"
    using or_refuse_running [OF p1 run] by (auto split: if_splits)
  obtain sizes where sizes: "setNodeCIDRMaskSizes (ie_IsIPv6CIDR env) cfg cs = Ret sizes"
    and p3: "fin (NewNodeIpamController env cs sns sizes ty) = Ret res"
    using or_refuse_running [OF p2 run] by blast
  have "NewNodeIpamController env cs sns sizes ty = Ret a"
    using p3 a by (cases "NewNodeIpamController env cs sns sizes ty") (auto simp: fin_def)
  then show ?thesis using that svcs sns sizes by (simp add: of_sum_Ret_iff)
qed

lemma started:
  assumes "startNodeIpamController env cfg ccm = (Ret res, ccm')" and "sr_running res = Some a"
  obtains cs d svcs sns sizes where "processCIDRs env (ClusterCIDR ccm') = Ret (cs, d)" "length cs \<le> 2" "1 < length cs \<longrightarrow> d"
    "ie_GetServiceCIDRs env = Inr svcs" "ie_ParseCIDRs env svcs = Inr sns" "setNodeCIDRMaskSizes (ie_IsIPv6CIDR env) cfg cs = Ret sizes"
    "NewNodeIpamController env cs sns sizes (CIDRAllocatorType ccm) = Ret a"
proof -
  have run: "sr_running res \<noteq> None" using assms(2) by simp
  have w: "start_with env cfg ccm' = Ret res" "CIDRAllocatorType ccm' = CIDRAllocatorType ccm"
    using assms
    by (auto simp: startNodeIpamController_def set_cluster_cidr_def bind_out_Ret_iff split: if_splits option.splits outcome.splits)
  obtain cs d where cs: "processCIDRs env (ClusterCIDR ccm') = Ret (cs, d)"
    and q: "(if length cs > 1 \<and> \<not> d then Ret (refuse (Errorf ''ClusterCIDRs are not configured as dual stack''))
      else if length cs > 2 then Ret (refuse (Errorf ''more than max allowed of 2 clusters''))
      else start_parsed env cfg (CIDRAllocatorType ccm) cs) = Ret res"
    using or_refuse_running [OF w(1) [unfolded start_with_eq w(2)] run] by auto
  from q run have shape: "length cs \<le> 2" "1 < length cs \<longrightarrow> d" and p: "start_parsed env cfg (CIDRAllocatorType ccm) cs = Ret res"
    by (auto split: if_splits)
  show ?thesis by (rule start_parsed_running [OF p assms(2)]) (rule that [OF cs shape])
qed

lemma NewNodeIpamController_range:
  assumes "NewNodeIpamController env cs sns sizes ty = Ret (RangeAlloc r)"
  obtains nodes params where "check_masks cs sizes = Ret ()" "listNodes env = Inr nodes" "cs \<noteq> []"
    "NewCIDRRangeAllocator (cl_parseCIDR (ie_cloud env)) params (Some nodes) = Ret r"
    "ClusterCIDRs params = cs" "NodeCIDRMaskSizes params = sizes" "service_cidrs params \<subseteq> set sns"
  using assms
  by (auto simp: NewNodeIpamController_def ipam_New_def bind_out_Ret_iff of_sum_Ret_iff go_nth_def service_cidrs_def
      split: if_splits intro!: that)

lemma new_without_nodes: "NewCIDRRangeAllocator parse params (Some []) = NewCIDRRangeAllocator parse params None"
proof -
  have "occupy_nodes parse [] = ret_act ()" by (rule ext) (simp add: ret_act_def)
  then show ?thesis by (simp add: NewCIDRRangeAllocator_def)
qed

text \<open>
  C12: What a running range allocator was built from: one or two cluster CIDRs, two only if they are dual-stack, each
  with the mask size that the flags give, not shorter than the mask of the cluster CIDR and in IPv6 at most 16 bits
  longer; service CIDRs of Talos; and the nodes the API server listed. With these checks the hypotheses of the safety
  properties (\<open>params_ok\<close>) hold exactly if three things do that the start does not check: no node mask is longer than an
  address, no cluster CIDR is 0.0.0.0/0 cut into single addresses, and no IPv6 CIDR of the cluster or the services has
  IPv4-mapped addresses. The first can fail in a running allocator (\<open>oversized_mask\<close> below). In a cluster without nodes
  the allocator is in an initial state of the safety properties. The parser has to return networks without host bits,
  as \<^verbatim>\<open>net.ParseCIDR\<close> does.
\<close>

theorem started_range_parameters:
  assumes run: "startNodeIpamController env cfg ccm = (Ret res, ccm')" "sr_running res = Some (RangeAlloc r)"
    and parser: "\<forall>xs ns. ie_ParseCIDRs env xs = Inr ns \<longrightarrow> (\<forall>c\<in>set ns. masked_net c)"
  shows "\<exists>params nodes d svcs sns. listNodes env = Inr nodes \<and> NewCIDRRangeAllocator (cl_parseCIDR (ie_cloud env)) params (Some nodes) = Ret r \<and>
    processCIDRs env (ClusterCIDR ccm') = Ret (ClusterCIDRs params, d) \<and> (length (ClusterCIDRs params) = 1 \<or> length (ClusterCIDRs params) = 2 \<and> d) \<and>
    NodeCIDRMaskSizes params = map (size_for (ie_IsIPv6CIDR env) cfg) (ClusterCIDRs params) \<and>
    (\<forall>c\<in>set (ClusterCIDRs params). fst (mask_Size (net_Mask c)) \<le> size_for (ie_IsIPv6CIDR env) cfg c \<and>
       (To4 (net_IP c) = None \<longrightarrow> size_for (ie_IsIPv6CIDR env) cfg c - fst (mask_Size (net_Mask c)) \<le> 16)) \<and>
    ie_GetServiceCIDRs env = Inr svcs \<and> ie_ParseCIDRs env svcs = Inr sns \<and> service_cidrs params \<subseteq> set sns \<and>
    (params_ok params \<longleftrightarrow> (\<forall>c\<in>set (ClusterCIDRs params). mask_fits (ie_IsIPv6CIDR env) cfg c) \<and> (\<forall>c\<in>service_cidrs params. \<not> mapped_net c)) \<and>
    (nodes = [] \<longrightarrow> sys_reach (cl_parseCIDR (ie_cloud env)) params (r, Map.empty))"
proof -
  obtain cs d svcs sns sizes where s: "processCIDRs env (ClusterCIDR ccm') = Ret (cs, d)" "length cs \<le> 2" "1 < length cs \<longrightarrow> d"
    "ie_GetServiceCIDRs env = Inr svcs" "ie_ParseCIDRs env svcs = Inr sns" "setNodeCIDRMaskSizes (ie_IsIPv6CIDR env) cfg cs = Ret sizes"
    "NewNodeIpamController env cs sns sizes (CIDRAllocatorType ccm) = Ret (RangeAlloc r)"
    by (rule started [OF run])
  obtain nodes params where p: "check_masks cs sizes = Ret ()" "listNodes env = Inr nodes" "cs \<noteq> []"
    "NewCIDRRangeAllocator (cl_parseCIDR (ie_cloud env)) params (Some nodes) = Ret r"
    "ClusterCIDRs params = cs" "NodeCIDRMaskSizes params = sizes" "service_cidrs params \<subseteq> set sns"
    by (rule NewNodeIpamController_range [OF s(7)])
  have sizes: "sizes = map (size_for (ie_IsIPv6CIDR env) cfg) cs" by (rule setNodeCIDRMaskSizes_Ret [OF s(6)])
  obtain sets where "new_sets cs sizes = Ret sets"
    using p(4,5,6) by (auto simp: NewCIDRRangeAllocator_def bind_out_Ret_iff)
  then have checked: "\<forall>c\<in>set cs. mask_checked (ie_IsIPv6CIDR env) cfg c" using started_mask_checked p(1) sizes by blast
  have "\<forall>c\<in>set cs. masked_net c"
    using s(1) parser by (auto simp: processCIDRs_def bind_out_Ret_iff of_sum_Ret_iff)
  then have "list_all2 cluster_ok cs sizes \<longleftrightarrow> (\<forall>c\<in>set cs. mask_fits (ie_IsIPv6CIDR env) cfg c)"
    using checked started_cluster_ok sizes by blast
  moreover have "\<forall>c\<in>service_cidrs params. masked_net c" using parser s(5) p(7) by blast
  ultimately have "params_ok params \<longleftrightarrow> (\<forall>c\<in>set cs. mask_fits (ie_IsIPv6CIDR env) cfg c) \<and> (\<forall>c\<in>service_cidrs params. \<not> mapped_net c)"
    using p(5,6) by (auto simp: params_ok_def canon_net_iff)
  moreover have "length cs = 1 \<or> length cs = 2 \<and> d" using p(3) s(2,3) by (cases cs; cases "tl cs") auto
  moreover have "nodes = [] \<longrightarrow> sys_reach (cl_parseCIDR (ie_cloud env)) params (r, Map.empty)"
    using p(4) by (auto intro!: sys_reach.init simp: new_without_nodes)
  ultimately show ?thesis using p s(1,4,5) sizes checked unfolding mask_checked_def
    by (intro exI [of _ params] exI [of _ nodes] exI [of _ d] exI [of _ svcs] exI [of _ sns] conjI) simp_all
qed

text \<open>
  C35: The start of an otherwise valid configuration panics when Talos reports fewer service CIDRs than there are cluster
  CIDRs: none at all, or a single one for a dual-stack cluster.
\<close>

theorem too_few_service_cidrs:
  assumes "AllocateNodeCIDRs ccm" "ie_talosNew env = None" "ie_kubeClient env"
    and "set_cluster_cidr env ccm = Ret ccm'" "processCIDRs env (ClusterCIDR ccm') = Ret (cs, d)" "cs \<noteq> []" "length cs \<le> 2" "1 < length cs \<longrightarrow> d"
    and "flags_ok (ie_IsIPv6CIDR env) cfg cs" "\<forall>c\<in>set cs. fst (mask_Size (net_Mask c)) \<le> size_for (ie_IsIPv6CIDR env) cfg c"
    and "ie_GetServiceCIDRs env = Inr svcs" "ie_ParseCIDRs env svcs = Inr sns" "length sns = length svcs" "length svcs < length cs"
  shows "fst (startNodeIpamController env cfg ccm) = Panic"
proof -
  let ?sizes = "map (size_for (ie_IsIPv6CIDR env) cfg) cs"
  have sizes: "setNodeCIDRMaskSizes (ie_IsIPv6CIDR env) cfg cs = Ret ?sizes" by (rule setNodeCIDRMaskSizes_ok [OF assms(6,9)])
  have "check_masks cs ?sizes = Ret ()" using assms(10) by (induction cs) auto
  moreover have "svcs \<noteq> [] \<Longrightarrow> 1 < length cs \<and> length sns = 1" using assms(7,13,14) by (cases svcs; cases "tl svcs") auto
  ultimately have "svcs \<noteq> [] \<Longrightarrow> NewNodeIpamController env cs sns ?sizes (CIDRAllocatorType ccm') = Panic"
    using assms(3,6) by (auto simp: NewNodeIpamController_def go_nth_def)
  then have "start_parsed env cfg (CIDRAllocatorType ccm') cs = Panic"
    using assms(11,12) sizes by (auto simp: start_parsed_def)
  then show ?thesis
    using assms(1,2,4,5,7,8) by (auto simp: startNodeIpamController_def start_with_eq)
qed

section \<open>Witnesses\<close>

text \<open>A cluster whose Talos reports the service CIDRs \<open>svcs\<close>, without nodes.\<close>

definition demo_ipam_env :: "string list \<Rightarrow> ipam_env" where
  "demo_ipam_env svcs = \<lparr>ie_talosNew = None, ie_GetPodCIDRs = Inr [''10.244.0.0/16'', ''fd00::/64''], ie_GetServiceCIDRs = Inr svcs,
     ie_ParseCIDRs = cl_ParseCIDRs demo_cloud_env, ie_IsDualStackCIDRs = (\<lambda>cs. list_ex is_v6 cs \<and> list_ex (Not \<circ> is_v6) cs),
     ie_IsIPv6CIDR = is_v6, ie_kubeClient = True, ie_polls = 1, ie_list = (\<lambda>_. Inr []), ie_cloud = demo_cloud_env\<rparr>"

definition demo_ccm :: "string \<Rightarrow> KubeCloudShared" where
  "demo_ccm cidr = \<lparr>AllocateNodeCIDRs = True, ClusterCIDR = cidr, CIDRAllocatorType = ''RangeAllocator''\<rparr>"

lemma demo_texts:
  "ParseCIDR ''10.244.0.0/16'' = Some demo4" "ParseCIDR ''fd00::/64'' = Some demo6" "ParseCIDR ''10.96.0.0/12'' = Some (net4 0x0A600000 12)"
  "Split (CHR '','') (TrimSpace ''10.244.0.0/16'') = [''10.244.0.0/16'']"
  "Split (CHR '','') (TrimSpace ''10.244.0.0/16,fd00::/64'') = [''10.244.0.0/16'', ''fd00::/64'']"
  unfolding demo4_def demo6_def by code_simp+

lemma demo_ipam_simps [simp]:
  "ie_talosNew (demo_ipam_env svcs) = None" "ie_GetPodCIDRs (demo_ipam_env svcs) = Inr [''10.244.0.0/16'', ''fd00::/64'']"
  "ie_GetServiceCIDRs (demo_ipam_env svcs) = Inr svcs" "ie_ParseCIDRs (demo_ipam_env svcs) = cl_ParseCIDRs demo_cloud_env"
  "ie_IsDualStackCIDRs (demo_ipam_env svcs) cs = (list_ex is_v6 cs \<and> list_ex (Not \<circ> is_v6) cs)"
  "ie_IsIPv6CIDR (demo_ipam_env svcs) = is_v6" "ie_kubeClient (demo_ipam_env svcs)" "ie_cloud (demo_ipam_env svcs) = demo_cloud_env"
  "listNodes (demo_ipam_env svcs) = Inr []"
  by (simp_all add: demo_ipam_env_def listNodes_def)

lemma demo_v6: "is_v6 demo6" "\<not> is_v6 demo4"
  by (simp_all add: is_v6_def demo4_def demo6_def is4in6_def)

theorem too_few_service_cidrs_witness:
  "fst (startNodeIpamController (demo_ipam_env [''10.96.0.0/12'']) no_flags (demo_ccm '''')) = Panic"
proof -
  let ?env = "demo_ipam_env [''10.96.0.0/12'']"
  have join: "Join '','' [''10.244.0.0/16'', ''fd00::/64''] = ''10.244.0.0/16,fd00::/64''" by code_simp
  show ?thesis
  proof (rule too_few_service_cidrs [where ccm' = "demo_ccm ''10.244.0.0/16,fd00::/64''" and cs = "[demo4, demo6]" and d = True
        and svcs = "[''10.96.0.0/12'']" and sns = "[net4 0x0A600000 12]"])
    show "processCIDRs ?env (ClusterCIDR (demo_ccm ''10.244.0.0/16,fd00::/64'')) = Ret ([demo4, demo6], True)"
      by (simp add: processCIDRs_def demo_ccm_def demo_texts demo_v6)
    show "set_cluster_cidr ?env (demo_ccm '''') = Ret (demo_ccm ''10.244.0.0/16,fd00::/64'')"
      by (simp add: set_cluster_cidr_def demo_ccm_def join)
    show "flags_ok (ie_IsIPv6CIDR ?env) no_flags [demo4, demo6]" by (simp add: flags_ok_def no_flags_def)
    show "\<forall>c\<in>set [demo4, demo6]. fst (mask_Size (net_Mask c)) \<le> size_for (ie_IsIPv6CIDR ?env) no_flags c"
      by (simp add: size_for_def no_flags_def demo_v6, simp add: demo4_def demo6_def)
  qed (simp_all add: demo_ccm_def demo_texts)
qed

theorem started_range_parameters_witness:
  "\<exists>res r params. startNodeIpamController (demo_ipam_env [''10.96.0.0/12'']) no_flags (demo_ccm ''10.244.0.0/16'') =
     (Ret res, demo_ccm ''10.244.0.0/16'') \<and> sr_running res = Some (RangeAlloc r) \<and> ClusterCIDRs params = [demo4] \<and>
     NodeCIDRMaskSizes params = [24] \<and> sys_reach ParseCIDR params (r, Map.empty)"
proof -
  let ?env = "demo_ipam_env [''10.96.0.0/12'']" and ?params = "\<lparr>ClusterCIDRs = [demo4], ServiceCIDR = Some (net4 0x0A600000 12),
     SecondaryServiceCIDR = None, NodeCIDRMaskSizes = [24]\<rparr>"
  have ok: "params_ok ?params" using demo_ok(1) by (simp add: params_ok_def service_cidrs_def net_base_def)
  obtain r where r: "NewCIDRRangeAllocator ParseCIDR ?params None = Ret r"
    by (rule new_allocator [OF ok]) (simp add: ret_act_def)
  have sizes: "setNodeCIDRMaskSizes is_v6 no_flags [demo4] = Ret [24]"
    using setNodeCIDRMaskSizes_ok [of "[demo4]" is_v6 no_flags] by (simp add: flags_ok_def size_for_def no_flags_def demo_v6)
  have p: "processCIDRs ?env ''10.244.0.0/16'' = Ret ([demo4], False)"
    by (simp add: processCIDRs_def demo_texts demo_v6)
  have "NewNodeIpamController ?env [demo4] [net4 0x0A600000 12] [24] ''RangeAllocator'' = Ret (RangeAlloc r)"
    using r by (simp add: NewNodeIpamController_def ipam_New_def go_nth_def new_without_nodes)
      (simp add: demo4_def)
  then have "start_parsed ?env no_flags ''RangeAllocator'' [demo4] = Ret \<lparr>sr_enabled = True, sr_err = None, sr_running = Some (RangeAlloc r)\<rparr>"
    using sizes by (simp add: start_parsed_def demo_texts)
  then have run: "startNodeIpamController ?env no_flags (demo_ccm ''10.244.0.0/16'') =
      (Ret \<lparr>sr_enabled = True, sr_err = None, sr_running = Some (RangeAlloc r)\<rparr>, demo_ccm ''10.244.0.0/16'')"
    using p by (simp add: startNodeIpamController_def set_cluster_cidr_def demo_ccm_def start_with_eq)
  have size: "size_for is_v6 no_flags demo4 = 24" by (simp add: size_for_def demo_v6 no_flags_def)
  have parser: "\<forall>xs ns. ie_ParseCIDRs ?env xs = Inr ns \<longrightarrow> (\<forall>c\<in>set ns. masked_net c)"
    by (auto simp: demo_cloud_env_def list_all_iff intro: ParseCIDR_masked split: if_splits)
  have running: "sr_running \<lparr>sr_enabled = True, sr_err = None, sr_running = Some (RangeAlloc r)\<rparr> = Some (RangeAlloc r)" by simp
  obtain params d where c: "processCIDRs ?env (ClusterCIDR (demo_ccm ''10.244.0.0/16'')) = Ret (ClusterCIDRs params, d)"
    and m: "NodeCIDRMaskSizes params = map (size_for is_v6 no_flags) (ClusterCIDRs params)" and reach: "sys_reach ParseCIDR params (r, Map.empty)"
    using started_range_parameters [OF run running parser] by auto
  have cs: "ClusterCIDRs params = [demo4]" using c p by (simp add: demo_ccm_def)
  then have "NodeCIDRMaskSizes params = [24]" using m size by simp
  then show ?thesis using cs reach run running by blast
qed

section \<open>A node mask longer than an address\<close>

text \<open>
  The check compares the node mask with the cluster mask only. With \<open>--node-cidr-mask-size-ipv4=40\<close> the start succeeds
  and the first node is given the pod CIDR \<open><nil>\<close>.
\<close>

lemma oversized_mask:
  "\<exists>s pod s'. check_masks [demo4] [40] = Ret () \<and> NewCIDRSet demo4 40 = Ret s \<and> AllocateNext s = Ret (pod, s') \<and> net_String pod = ''<nil>''"
proof -
  have n: "NewCIDRSet demo4 40 = Ret (set_of (NewCIDRSet demo4 40))" by (simp add: NewCIDRSet_def demo4_def set_of_def Let_def)
  define s where "s = set_of (NewCIDRSet demo4 40)"
  have f: "nodeMask s = Masknil" "maxCIDRs s = 16777216" "used s = 0" "nextCandidate s = 0" "allocatedCIDRs s = 0"
    by (simp_all add: s_def NewCIDRSet_def demo4_def set_of_def getMaxCIDRs_exp [of 16 40, simplified] CIDRMask_def Let_def)
  have "find_free k 0 m 0 0 = Some (0, 0)" for k m by (cases k) simp_all
  then obtain pod s' where a: "AllocateNext s = Ret (pod, s')" "net_Mask pod = Masknil"
    using f by (simp add: AllocateNext_def go_rem_def indexToCIDRBlock_def Let_def)
  then have "net_String pod = ''<nil>''" by (auto simp: net_String_def networkNumberAndMask_def split: IP.splits option.splits)
  then show ?thesis using n a s_def by (auto simp: demo4_def)
qed

end
