(* ===== verification/NodeSelector.thy ===== *)
theory NodeSelector
  imports K8sApi
begin

text \<open>
  Package \<^verbatim>\<open>nodeselector\<close>: the rules that decide which transformations apply to a node. The fields
  of a node are a map with lower-case keys. Compiling a regular expression is a parameter: \<open>compile p\<close>
  is \<open>None\<close> where \<^verbatim>\<open>regexp.Compile\<close> reports an error (and \<^verbatim>\<open>regexp.MustCompile\<close> panics), otherwise
  \<^verbatim>\<open>MatchString\<close> of the compiled expression.
\<close>

type_synonym regexp_compile = "string \<Rightarrow> (string \<Rightarrow> bool) option"

section \<open>Rules\<close>

record NodeSelectorRequirement =
  req_Key :: string
  req_Operator :: string
  req_Values :: "string list"

record NodeSelectorTerm =
  MatchExpressions_of :: "NodeSelectorRequirement list"

abbreviation "NodeSelectorOpIn \<equiv> ''In''"
abbreviation "NodeSelectorOpNotIn \<equiv> ''NotIn''"
abbreviation "NodeSelectorOpExists \<equiv> ''Exists''"
abbreviation "NodeSelectorOpDoesNotExist \<equiv> ''DoesNotExist''"
abbreviation "NodeSelectorOpGt \<equiv> ''Gt''"
abbreviation "NodeSelectorOpLt \<equiv> ''Lt''"
abbreviation "NodeSelectorOpRegexp \<equiv> ''Regexp''"

section \<open>Evaluation\<close>

text \<open>One pass of the loop of \<^verbatim>\<open>MatchExpressions\<close>: the entry of \<^verbatim>\<open>matchs\<close> for a rule.\<close>

definition match_rule :: "regexp_compile \<Rightarrow> NodeSelectorRequirement \<Rightarrow> (string \<rightharpoonup> string) \<Rightarrow> (go_err, bool) outcome" where
  "match_rule compile rule nodeFields =
     (let value = nodeFields (ToLower (req_Key rule)); op = req_Operator rule; values = req_Values rule in
      if op = NodeSelectorOpIn then
        if values = [] then Err (Errorf ''values must be non-empty for operator'')
        else Ret (case value of None \<Rightarrow> False | Some v \<Rightarrow> v \<in> set values)
      else if op = NodeSelectorOpNotIn then
        if values = [] then Err (Errorf ''values must be non-empty for operator'')
        else Ret (case value of None \<Rightarrow> False | Some v \<Rightarrow> v \<notin> set values)
      else if op = NodeSelectorOpExists then
        if values \<noteq> [] then Err (Errorf ''values must be empty for operator'')
        else Ret (value \<noteq> None)
      else if op = NodeSelectorOpDoesNotExist then
        if values \<noteq> [] then Err (Errorf ''values must be empty for operator'')
        else Ret (value = None)
      else if op = NodeSelectorOpGt \<or> op = NodeSelectorOpLt then
        if length values \<noteq> 1 then Err (Errorf ''values must have a single element for operator'')
        else (case value of
            None \<Rightarrow> Ret False
          | Some v \<Rightarrow> (case ParseInt64 v of
                None \<Rightarrow> Err (Errorf ''failed to parse value as int'')
              | Some lsValue \<Rightarrow> (case ParseInt64 (hd values) of
                    None \<Rightarrow> Err (Errorf ''failed to parse value as int'')
                  | Some rValue \<Rightarrow> Ret ((op = NodeSelectorOpGt \<and> rValue < lsValue) \<or> (op = NodeSelectorOpLt \<and> lsValue < rValue)))))
      else if op = NodeSelectorOpRegexp then
        if length values \<noteq> 1 then Err (Errorf ''values must have a single element for operator'')
        else (case value of
            None \<Rightarrow> Ret False
          | Some v \<Rightarrow> (case compile (hd values) of None \<Rightarrow> Panic | Some r \<Rightarrow> Ret (r v)))
      else Err (Errorf ''not a valid selector operator''))"

fun match_rules :: "regexp_compile \<Rightarrow> NodeSelectorRequirement list \<Rightarrow> (string \<rightharpoonup> string) \<Rightarrow> (go_err, bool list) outcome" where
  "match_rules compile [] nodeFields = Ret []"
| "match_rules compile (rule # rules) nodeFields =
     bind_out (match_rule compile rule nodeFields) (\<lambda>b.
     bind_out (match_rules compile rules nodeFields) (\<lambda>bs. Ret (b # bs)))"

definition MatchExpressions :: "regexp_compile \<Rightarrow> NodeSelectorRequirement list \<Rightarrow> (string \<rightharpoonup> string) \<Rightarrow> (go_err, bool) outcome" where
  "MatchExpressions compile rules nodeFields =
     (if rules = [] then Ret False
      else bind_out (match_rules compile rules nodeFields) (\<lambda>matchs. Ret (list_all id matchs)))"

fun match_terms :: "regexp_compile \<Rightarrow> NodeSelectorTerm list \<Rightarrow> (string \<rightharpoonup> string) \<Rightarrow> (go_err, bool) outcome" where
  "match_terms compile [] nodeFields = Ret False"
| "match_terms compile (rule # rules) nodeFields =
     bind_out (MatchExpressions compile (MatchExpressions_of rule) nodeFields) (\<lambda>match.
       if match then Ret True else match_terms compile rules nodeFields)"

definition Match :: "regexp_compile \<Rightarrow> NodeSelectorTerm list \<Rightarrow> (string \<rightharpoonup> string) \<Rightarrow> (go_err, bool) outcome" where
  "Match compile rules nodeFields = (if rules = [] then Ret True else match_terms compile rules nodeFields)"

section \<open>What the rules mean\<close>

text \<open>
  The documented meaning, without the order of evaluation: a requirement relates the value of a key
  to its list of values. A requirement that cannot be evaluated is malformed: the wrong number of
  values, an unknown operator, or, where the key is present, values that are not integers or a
  pattern that does not compile.
\<close>

definition satisfies :: "regexp_compile \<Rightarrow> (string \<rightharpoonup> string) \<Rightarrow> NodeSelectorRequirement \<Rightarrow> bool" where
  "satisfies compile nodeFields r \<longleftrightarrow>
     (let op = req_Operator r; vs = req_Values r in
      if op = ''DoesNotExist'' then ToLower (req_Key r) \<notin> dom nodeFields
      else \<exists>v. nodeFields (ToLower (req_Key r)) = Some v \<and>
        (op = ''In'' \<longrightarrow> v \<in> set vs) \<and> (op = ''NotIn'' \<longrightarrow> v \<notin> set vs) \<and>
        (op = ''Gt'' \<longrightarrow> the (ParseInt64 v) > the (ParseInt64 (hd vs))) \<and>
        (op = ''Lt'' \<longrightarrow> the (ParseInt64 v) < the (ParseInt64 (hd vs))) \<and>
        (op = ''Regexp'' \<longrightarrow> the (compile (hd vs)) v))"

definition wellformed :: "regexp_compile \<Rightarrow> (string \<rightharpoonup> string) \<Rightarrow> NodeSelectorRequirement \<Rightarrow> bool" where
  "wellformed compile nodeFields r \<longleftrightarrow>
     (let op = req_Operator r; vs = req_Values r in
      op \<in> {''In'', ''NotIn'', ''Exists'', ''DoesNotExist'', ''Gt'', ''Lt'', ''Regexp''} \<and>
      (op \<in> {''In'', ''NotIn''} \<longrightarrow> vs \<noteq> []) \<and>
      (op \<in> {''Exists'', ''DoesNotExist''} \<longrightarrow> vs = []) \<and>
      (op \<in> {''Gt'', ''Lt'', ''Regexp''} \<longrightarrow> length vs = 1) \<and>
      (\<forall>v. nodeFields (ToLower (req_Key r)) = Some v \<longrightarrow>
         (op \<in> {''Gt'', ''Lt''} \<longrightarrow> ParseInt64 v \<noteq> None \<and> ParseInt64 (hd vs) \<noteq> None) \<and>
         (op = ''Regexp'' \<longrightarrow> compile (hd vs) \<noteq> None)))"

definition term_selects :: "regexp_compile \<Rightarrow> (string \<rightharpoonup> string) \<Rightarrow> NodeSelectorTerm \<Rightarrow> bool" where
  "term_selects compile nodeFields t \<longleftrightarrow>
     MatchExpressions_of t \<noteq> [] \<and> (\<forall>r \<in> set (MatchExpressions_of t). satisfies compile nodeFields r)"

definition term_wellformed :: "regexp_compile \<Rightarrow> (string \<rightharpoonup> string) \<Rightarrow> NodeSelectorTerm \<Rightarrow> bool" where
  "term_wellformed compile nodeFields t \<longleftrightarrow> (\<forall>r \<in> set (MatchExpressions_of t). wellformed compile nodeFields r)"

abbreviation returns :: "('e, 'a) outcome \<Rightarrow> bool" where
  "returns m \<equiv> \<exists>x. m = Ret x"

lemma match_rule_wellformed:
  assumes "wellformed compile nodeFields r"
  shows "match_rule compile r nodeFields = Ret (satisfies compile nodeFields r)"
proof -
  have "req_Operator r \<in> {''In'', ''NotIn'', ''Exists'', ''DoesNotExist'', ''Gt'', ''Lt'', ''Regexp''}"
    using assms by (simp add: wellformed_def Let_def)
  then show ?thesis
    using assms
    by (elim insertE; cases "nodeFields (ToLower (req_Key r))")
      (auto simp: match_rule_def wellformed_def satisfies_def Let_def dom_def)
qed

lemma match_rule_malformed:
  "\<not> wellformed compile nodeFields r \<Longrightarrow> \<not> returns (match_rule compile r nodeFields)"
  by (auto simp: match_rule_def wellformed_def Let_def split: option.splits if_splits)

lemma match_rules_wellformed:
  "\<forall>r \<in> set rs. wellformed compile nodeFields r \<Longrightarrow> match_rules compile rs nodeFields = Ret (map (satisfies compile nodeFields) rs)"
  by (induction rs) (simp_all add: match_rule_wellformed)

lemma match_rules_malformed:
  "\<exists>r \<in> set rs. \<not> wellformed compile nodeFields r \<Longrightarrow> \<not> returns (match_rules compile rs nodeFields)"
proof (induction rs)
  case (Cons r rs)
  then show ?case
    by (cases "wellformed compile nodeFields r")
      (auto simp: match_rule_wellformed go_out dest: match_rule_malformed)
qed simp

lemma MatchExpressions_wellformed:
  assumes "term_wellformed compile nodeFields t"
  shows "MatchExpressions compile (MatchExpressions_of t) nodeFields = Ret (term_selects compile nodeFields t)"
  using assms by (auto simp: MatchExpressions_def term_wellformed_def term_selects_def match_rules_wellformed list_all_iff)

lemma MatchExpressions_malformed:
  assumes "\<not> term_wellformed compile nodeFields t"
  shows "\<not> returns (MatchExpressions compile (MatchExpressions_of t) nodeFields)"
  using assms match_rules_malformed [of "MatchExpressions_of t" compile nodeFields]
  by (auto simp: MatchExpressions_def term_wellformed_def go_out)

lemma match_terms_spec:
  assumes "\<forall>t \<in> set rules. term_wellformed compile nodeFields t"
  shows "match_terms compile rules nodeFields = Ret (\<exists>t \<in> set rules. term_selects compile nodeFields t)"
  using assms by (induction rules) (auto simp: MatchExpressions_wellformed)

lemma match_terms_returns_iff:
  "returns (match_terms compile rules nodeFields) \<longleftrightarrow>
   (\<forall>i < length rules. term_wellformed compile nodeFields (rules ! i) \<or>
      (\<exists>j < i. term_wellformed compile nodeFields (rules ! j) \<and> term_selects compile nodeFields (rules ! j)))"
proof (induction rules)
  case (Cons t rules)
  show ?case
  proof (cases "term_wellformed compile nodeFields t")
    case True
    with Cons show ?thesis
      by (auto simp: MatchExpressions_wellformed All_less_Suc2 Ex_less_Suc2)
  next
    case False
    then show ?thesis
      using MatchExpressions_malformed [OF False] by (force simp: bind_out_Ret_iff)
  qed
qed auto

section \<open>Properties\<close>

text \<open>
  C19: \<^verbatim>\<open>Match\<close> decides the documented meaning of a node selector: with well-formed requirements it
  returns true exactly when there are no terms, or some non-empty term has all its requirements
  satisfied (terms are alternatives, requirements of a term are conjoined, keys are compared in lower
  case, and every operator except \<^verbatim>\<open>DoesNotExist\<close> needs the key to be present).
\<close>

theorem Match_decides:
  assumes "\<forall>t \<in> set rules. term_wellformed compile nodeFields t"
  shows "Match compile rules nodeFields = Ret (rules = [] \<or> (\<exists>t \<in> set rules. term_selects compile nodeFields t))"
  using match_terms_spec [OF assms] by (auto simp: Match_def)

text \<open>
  C24: \<^verbatim>\<open>Match\<close> gives no answer exactly when it meets a term with a malformed requirement before a term
  that selects the node, and it panics instead of returning an error only for a pattern that does not
  compile.
\<close>

theorem Match_fails_iff:
  "(\<not> returns (Match compile rules nodeFields) \<longleftrightarrow>
     (\<exists>i < length rules. \<not> term_wellformed compile nodeFields (rules ! i) \<and>
        (\<forall>j < i. \<not> (term_wellformed compile nodeFields (rules ! j) \<and> term_selects compile nodeFields (rules ! j))))) \<and>
   ((\<forall>p. compile p \<noteq> None) \<longrightarrow> Match compile rules nodeFields \<noteq> Panic)"
proof
  show "\<not> returns (Match compile rules nodeFields) \<longleftrightarrow>
     (\<exists>i < length rules. \<not> term_wellformed compile nodeFields (rules ! i) \<and>
        (\<forall>j < i. \<not> (term_wellformed compile nodeFields (rules ! j) \<and> term_selects compile nodeFields (rules ! j))))"
    using match_terms_returns_iff [of compile rules nodeFields] by (cases "rules = []") (auto simp: Match_def)
next
  show "(\<forall>p. compile p \<noteq> None) \<longrightarrow> Match compile rules nodeFields \<noteq> Panic"
  proof
    assume c: "\<forall>p. compile p \<noteq> None"
    have rule: "match_rule compile r nodeFields \<noteq> Panic" for r
    proof -
      obtain f where "compile (hd (req_Values r)) = Some f" using c by blast
      then show ?thesis by (simp add: match_rule_def Let_def split: option.splits)
    qed
    have rules: "match_rules compile rs nodeFields \<noteq> Panic" for rs
      using rule by (induction rs) (auto simp: bind_out_Panic_iff)
    then have "MatchExpressions compile rs nodeFields \<noteq> Panic" for rs
      by (simp add: MatchExpressions_def bind_out_Panic_iff)
    then have "match_terms compile ts nodeFields \<noteq> Panic" for ts
      by (induction ts) (auto simp: bind_out_Panic_iff)
    then show "Match compile rules nodeFields \<noteq> Panic" by (simp add: Match_def)
  qed
qed

text \<open>A compiler of the literal patterns, for the witnesses: \<open>[\<close> alone does not compile.\<close>

definition literal_compile :: regexp_compile where
  "literal_compile p = (if p = ''['' then None else Some (\<lambda>s. Contains s p))"

definition demo_req :: "string \<Rightarrow> string \<Rightarrow> string list \<Rightarrow> NodeSelectorTerm" where
  "demo_req k op vs = \<lparr>MatchExpressions_of = [\<lparr>req_Key = k, req_Operator = op, req_Values = vs\<rparr>]\<rparr>"

lemma demo_lower: "ToLower ''Cpus'' = ''cpus''" "ToLower ''Zone'' = ''zone''" "ParseInt64 ''8'' = Some 8"
  by code_simp+

lemmas demo_defs = term_wellformed_def wellformed_def term_selects_def satisfies_def demo_req_def
  literal_compile_def demo_lower Let_def

theorem Match_decides_witness:
  "Match literal_compile [demo_req ''Cpus'' ''Gt'' [''8''], demo_req ''Zone'' ''Regexp'' [''west'']]
     [''zone'' \<mapsto> ''us-west-2'', ''cpus'' \<mapsto> ''8''] = Ret True"
proof -
  let ?fs = "[''zone'' \<mapsto> ''us-west-2'', ''cpus'' \<mapsto> ''8'']"
  let ?rs = "[demo_req ''Cpus'' ''Gt'' [''8''], demo_req ''Zone'' ''Regexp'' [''west'']]"
  have "\<forall>t \<in> set ?rs. term_wellformed literal_compile ?fs t"
    by (simp add: demo_defs)
  moreover have "term_selects literal_compile ?fs (demo_req ''Zone'' ''Regexp'' [''west''])"
    by (simp add: demo_defs HasPrefix_def)
  ultimately show ?thesis by (simp add: Match_decides)
qed

theorem Match_fails_iff_witness:
  "\<not> returns (Match literal_compile [demo_req ''Zone'' ''Regexp'' [''['']] [''zone'' \<mapsto> ''us-west-2''])"
proof -
  let ?fs = "[''zone'' \<mapsto> ''us-west-2'']"
  let ?t = "demo_req ''Zone'' ''Regexp'' [''['']"
  have "\<not> term_wellformed literal_compile ?fs ?t"
    by (simp add: demo_defs)
  then show ?thesis
    using Match_fails_iff [of literal_compile "[?t]" ?fs] by auto
qed

end
