(* ===== verification/Transformer.thy ===== *)
theory Transformer
  imports NodeSelector
begin

text \<open>
  Package \<^verbatim>\<open>transformer\<close>: rules that add annotations, labels and taints to the nodes they select and
  rewrite the node's platform metadata. The metadata is a Go struct that the code reads and writes by
  reflection; it is modelled as the list of its fields. A Go map of a rule is the list of its entries
  in the order in which \<^verbatim>\<open>range\<close> visits them, so that a statement about every list with distinct keys
  covers every order.

  Code outside the repository is a field of \<open>transform_env\<close>: the parser and the execution of
  \<^verbatim>\<open>html/template\<close>, regular expressions, and the two validators of \<^verbatim>\<open>k8s.io/apimachinery\<close>, which
  return the list of complaints about a name or a value.
\<close>

section \<open>Structs by reflection\<close>

datatype field_value = FBool bool | FString string | FOther | FPointer "field_value option"

record struct_field =
  fld_Name :: string
  fld_Tag :: string
  fld_Exported :: bool
  fld_Value :: field_value

type_synonym go_struct = "struct_field list"

text \<open>\<^verbatim>\<open>reflect.Indirect\<close>: \<open>None\<close> is the invalid value behind a nil pointer.\<close>

fun Indirect :: "field_value \<Rightarrow> field_value option" where
  "Indirect (FPointer p) = p"
| "Indirect v = Some v"

definition struct_entry :: "struct_field \<Rightarrow> (string \<rightharpoonup> string) \<Rightarrow> (string \<rightharpoonup> string)" where
  "struct_entry f metadata =
     (if \<not> fld_Exported f then metadata
      else if fld_Tag f = '''' then metadata
      else let fieldName = ToLower (hd (Split (CHR '','') (fld_Tag f))) in
        case Indirect (fld_Value f) of
          Some (FBool b) \<Rightarrow> metadata(fieldName \<mapsto> (if b then ''true'' else ''false''))
        | Some (FString v) \<Rightarrow> if v \<noteq> '''' then metadata(fieldName \<mapsto> v) else metadata
        | _ \<Rightarrow> metadata)"

definition mapFromStruct :: "go_struct \<Rightarrow> (string \<rightharpoonup> string)" where
  "mapFromStruct fs = fold struct_entry fs Map.empty"

text \<open>\<^verbatim>\<open>FieldByNameFunc\<close> on a struct without embedded fields: the one field whose name matches, and
  the invalid value when there is none or more than one.\<close>

definition FieldByNameFunc :: "(string \<Rightarrow> bool) \<Rightarrow> go_struct \<Rightarrow> nat option" where
  "FieldByNameFunc match fs =
     (case filter (\<lambda>i. match (fld_Name (fs ! i))) [0..<length fs] of [i] \<Rightarrow> Some i | _ \<Rightarrow> None)"

section \<open>Rules and results\<close>

record NodeFeaturesFlagSpec =
  PublicIPDiscovery :: bool

record NodeTerm =
  term_Name :: string
  term_NodeSelector :: "NodeSelectorTerm list"
  term_Annotations :: "(string \<times> string) list"
  term_Labels :: "(string \<times> string) list"
  term_Taints :: "(string \<times> string) list"
  term_PlatformMetadata :: "(string \<times> string) list"
  term_Features :: NodeFeaturesFlagSpec

record NodeSpec =
  ns_Annotations :: "string \<rightharpoonup> string"
  ns_Labels :: "string \<rightharpoonup> string"
  ns_Taints :: "string \<rightharpoonup> string"
  ns_Features :: NodeFeaturesFlagSpec

definition empty_NodeSpec :: NodeSpec where
  "empty_NodeSpec = \<lparr>ns_Annotations = Map.empty, ns_Labels = Map.empty, ns_Taints = Map.empty,
     ns_Features = \<lparr>PublicIPDiscovery = False\<rparr>\<rparr>"

text \<open>The data of a template: the platform metadata, and the system information (zero if \<open>None\<close>).\<close>

record 'i nodeTransformationValues =
  tv_PlatformMetadata :: go_struct
  tv_SystemInformation :: "'i option"

record ('t, 'i) transform_env =
  te_compile :: regexp_compile
  te_Parse :: "string \<Rightarrow> (go_err, 't) outcome"
  te_Execute :: "'t \<Rightarrow> 'i nodeTransformationValues \<Rightarrow> (go_err, string) outcome"
  te_IsQualifiedName :: "string \<Rightarrow> string list"
  te_IsValidLabelValue :: "string \<Rightarrow> string list"

definition prohibitedPlatformMetadataKeys :: "string list" where
  "prohibitedPlatformMetadataKeys = [''hostname'', ''platform'']"

definition executeTemplate :: "('t, 'i) transform_env \<Rightarrow> string \<Rightarrow> 'i nodeTransformationValues \<Rightarrow> (go_err, string) outcome" where
  "executeTemplate env tmpl data =
     bind_out (map_err (Errorf_w ''failed to parse template'') (te_Parse env tmpl)) (\<lambda>t. te_Execute env t data)"

definition isQualifiedTaintName :: "string \<Rightarrow> string list" where
  "isQualifiedTaintName name =
     (if Contains name ''kubernetes.io/'' then
        if name \<in> {''node.kubernetes.io/not-ready'', ''node.kubernetes.io/unreachable'',
             ''node.kubernetes.io/memory-pressure'', ''node.kubernetes.io/disk-pressure'',
             ''node.kubernetes.io/network-unavailable'', ''node.kubernetes.io/pid-pressure''}
        then [''taint in kubernetes namespace'']
        else if name \<in> {''node.cloudprovider.kubernetes.io/uninitialized'', ''node.cloudprovider.kubernetes.io/shutdown''}
        then [''taint in cloud provider namespace'']
        else []
      else [])"

definition isValidTaintValue :: "string \<Rightarrow> string list" where
  "isValidTaintValue value =
     (let effects = Split (CHR '':'') value in
      if length effects > 2 then [''taint value is not valid'']
      else let effect = (if length effects = 2 then effects ! 1 else effects ! 0) in
        if effect \<in> {''NoSchedule'', ''PreferNoSchedule'', ''NoExecute''} then []
        else [''taint effect is not valid''])"

section \<open>TransformNode\<close>

text \<open>The bodies of the loops over the maps of a rule: what is stored under \<open>k\<close>, or the error.\<close>

definition annotation_value :: "('t, 'i) transform_env \<Rightarrow> 'i nodeTransformationValues \<Rightarrow> string \<Rightarrow> string \<Rightarrow> (go_err, string) outcome" where
  "annotation_value env values k v =
     bind_out (map_err (Errorf_w ''failed to transformer annotation'') (executeTemplate env v values)) (\<lambda>t.
       if te_IsQualifiedName env k \<noteq> [] then Err (Errorf ''invalid annotation name'') else Ret t)"

definition label_value :: "('t, 'i) transform_env \<Rightarrow> 'i nodeTransformationValues \<Rightarrow> string \<Rightarrow> string \<Rightarrow> (go_err, string) outcome" where
  "label_value env values k v =
     bind_out (map_err (Errorf_w ''failed to transformer label'') (executeTemplate env v values)) (\<lambda>t.
       if te_IsQualifiedName env k \<noteq> [] then Err (Errorf ''invalid label name'')
       else if te_IsValidLabelValue env t \<noteq> [] then Err (Errorf ''invalid label value'') else Ret t)"

definition taint_value :: "('t, 'i) transform_env \<Rightarrow> 'i nodeTransformationValues \<Rightarrow> string \<Rightarrow> string \<Rightarrow> (go_err, string) outcome" where
  "taint_value env values k v =
     bind_out (map_err (Errorf_w ''failed to transformer label'') (executeTemplate env v values)) (\<lambda>t.
       if isQualifiedTaintName k \<noteq> [] then Err (Errorf ''invalid taint name'')
       else if isValidTaintValue t \<noteq> [] then Err (Errorf ''invalid taint value'') else Ret v)"

fun map_loop :: "(string \<Rightarrow> string \<Rightarrow> (go_err, string) outcome) \<Rightarrow> (string \<times> string) list \<Rightarrow> (string \<rightharpoonup> string) \<Rightarrow>
    (go_err, string \<rightharpoonup> string) outcome" where
  "map_loop f [] m = Ret m"
| "map_loop f ((k, v) # kvs) m = bind_out (f k v) (\<lambda>t. map_loop f kvs (m(k \<mapsto> t)))"

definition apply_maps :: "('t, 'i) transform_env \<Rightarrow> 'i nodeTransformationValues \<Rightarrow> NodeTerm \<Rightarrow> NodeSpec \<Rightarrow> (go_err, NodeSpec) outcome" where
  "apply_maps env values trm node =
     bind_out (map_loop (annotation_value env values) (term_Annotations trm) (ns_Annotations node)) (\<lambda>as.
     bind_out (map_loop (label_value env values) (term_Labels trm) (ns_Labels node)) (\<lambda>ls.
     bind_out (map_loop (taint_value env values) (term_Taints trm) (ns_Taints node)) (\<lambda>ts.
       Ret (node\<lparr>ns_Annotations := as, ns_Labels := ls, ns_Taints := ts\<rparr>))))"

text \<open>\<^verbatim>\<open>SetBool\<close> and \<^verbatim>\<open>SetString\<close> panic on an unexported field.\<close>

definition set_field :: "nat \<Rightarrow> field_value \<Rightarrow> (go_struct, unit) act" where
  "set_field i v fs =
     (if fld_Exported (fs ! i) then (Ret (), fs[i := (fs ! i)\<lparr>fld_Value := v\<rparr>]) else (Panic, fs))"

fun set_metadata :: "('t, 'i) transform_env \<Rightarrow> 'i nodeTransformationValues \<Rightarrow> (string \<times> string) list \<Rightarrow> (go_struct, unit) act" where
  "set_metadata env values [] fs = (Ret (), fs)"
| "set_metadata env values ((k, v) # kvs) fs =
     (if ToLower k \<in> set prohibitedPlatformMetadataKeys then set_metadata env values kvs fs
      else bind_act
        (bind_act (lift_act (map_err (Errorf_w ''failed to transformer platform metadata'') (executeTemplate env v values)))
          (\<lambda>t fs. case FieldByNameFunc (\<lambda>n. EqualFold n k) fs of
              None \<Rightarrow> (Ret (), fs)
            | Some i \<Rightarrow> (case fld_Value (fs ! i) of
                  FBool _ \<Rightarrow> set_field i (FBool (t = ''true'')) fs
                | FString _ \<Rightarrow> set_field i (FString (TrimSpace t)) fs
                | _ \<Rightarrow> (Err (Errorf ''unsupported platform metadata field''), fs))))
        (\<lambda>_. set_metadata env values kvs) fs)"

fun transform_terms :: "('t, 'i) transform_env \<Rightarrow> 'i nodeTransformationValues \<Rightarrow> (string \<rightharpoonup> string) \<Rightarrow> NodeTerm list \<Rightarrow> NodeSpec \<Rightarrow>
    (go_struct, NodeSpec) act" where
  "transform_terms env values metadata [] node fs = (Ret node, fs)"
| "transform_terms env values metadata (trm # terms) node fs =
     bind_act (lift_act (Match (te_compile env) (term_NodeSelector trm) metadata)) (\<lambda>match.
       if match then
         bind_act (lift_act (apply_maps env values trm node)) (\<lambda>node'.
         bind_act (set_metadata env values (term_PlatformMetadata trm)) (\<lambda>_.
           transform_terms env values metadata terms node'))
       else transform_terms env values metadata terms node) fs"

text \<open>
  \<^verbatim>\<open>TransformNode\<close> works on the struct behind the pointer \<^verbatim>\<open>platformMetadata\<close> (\<open>None\<close> is nil) in place,
  so its new contents are part of the result. The template data and the fields that the selectors
  see are taken before the first rule.
\<close>

definition TransformNode :: "('t, 'i) transform_env \<Rightarrow> NodeTerm list \<Rightarrow> 'i option \<Rightarrow> (go_struct option, NodeSpec) act" where
  "TransformNode env terms sysinfo platformMetadata =
     (if terms = [] then (Ret empty_NodeSpec, platformMetadata)
      else case platformMetadata of
        None \<Rightarrow> (Panic, None)
      | Some fs \<Rightarrow>
          (let (r, fs') = transform_terms env \<lparr>tv_PlatformMetadata = fs, tv_SystemInformation = sysinfo\<rparr>
                 (mapFromStruct fs) terms empty_NodeSpec fs
           in (r, Some fs')))"

section \<open>Facts\<close>

lemma Indirect_not_nil [simp]: "Indirect v = Some (FPointer q) \<longleftrightarrow> v = FPointer (Some (FPointer q))"
  by (cases v) auto

text \<open>What a map loop stores when every entry is computed.\<close>

definition entries :: "(string \<Rightarrow> string \<Rightarrow> (go_err, string) outcome) \<Rightarrow> (string \<times> string) list \<Rightarrow> (string \<rightharpoonup> string)" where
  "entries f kvs k = (case map_of kvs k of None \<Rightarrow> None | Some v \<Rightarrow> (case f k v of Ret t \<Rightarrow> Some t | _ \<Rightarrow> None))"

lemma map_loop_Ret:
  assumes "distinct (map fst kvs)"
  shows "map_loop f kvs m = Ret m' \<longleftrightarrow>
    (\<forall>(k, v) \<in> set kvs. \<exists>t. f k v = Ret t) \<and> m' = m ++ entries f kvs"
  using assms
proof (induction kvs arbitrary: m)
  case Nil
  have "entries f [] = Map.empty" by (simp add: entries_def fun_eq_iff)
  then show ?case by auto
next
  case (Cons kv kvs)
  obtain k v where kv: "kv = (k, v)" by (cases kv)
  have k: "map_of kvs k = None" using Cons(2) kv by (simp add: map_of_eq_None_iff)
  show ?case
  proof (cases "f k v")
    case (Ret t)
    have "entries f ((k, v) # kvs) = [k \<mapsto> t] ++ entries f kvs"
      using Ret k by (auto simp: entries_def fun_eq_iff map_add_def split: option.splits)
    then have "m(k \<mapsto> t) ++ entries f kvs = m ++ entries f ((k, v) # kvs)"
      by (metis map_add_assoc map_add_upd map_add_empty)
    then show ?thesis using Cons Ret kv by auto
  qed (simp_all add: kv)
qed

lemma Match_cases_Ret:
  "bind_act (lift_act (Match c sel md)) f fs = (Ret x, fs') \<longleftrightarrow>
   (\<exists>b. Match c sel md = Ret b \<and> f b fs = (Ret x, fs'))"
  by (cases "Match c sel md") (simp_all add: act_defs)

text \<open>The rules that select the node, by the fields it had before the first rule.\<close>

definition selected :: "('t, 'i) transform_env \<Rightarrow> (string \<rightharpoonup> string) \<Rightarrow> NodeTerm list \<Rightarrow> NodeTerm list" where
  "selected env metadata terms = filter (\<lambda>t. Match (te_compile env) (term_NodeSelector t) metadata = Ret True) terms"

definition merge_maps :: "(NodeTerm \<Rightarrow> (string \<rightharpoonup> string)) \<Rightarrow> NodeTerm list \<Rightarrow> (string \<rightharpoonup> string)" where
  "merge_maps g ts = foldl (\<lambda>m t. m ++ g t) Map.empty ts"

lemma foldl_map_add: "foldl (\<lambda>m t. m ++ g t) m ts = m ++ merge_maps g ts"
proof (induction ts arbitrary: m)
  case (Cons t ts)
  have "merge_maps g (t # ts) = g t ++ merge_maps g ts"
    by (simp add: merge_maps_def Cons [of "g t", unfolded merge_maps_def])
  then show ?case by (simp add: Cons)
qed (simp add: merge_maps_def)

lemma merge_maps_simps [simp]:
  "merge_maps g [] = Map.empty"
  "merge_maps g (t # ts) = g t ++ merge_maps g ts"
  using foldl_map_add [of g "g t" ts] by (simp_all add: merge_maps_def)

lemma merge_maps_None: "merge_maps g ts k = None \<longleftrightarrow> (\<forall>w \<in> set ts. g w k = None)"
  by (induction ts) auto

lemma merge_maps_last:
  "merge_maps g ts k = Some v \<longleftrightarrow>
   (\<exists>us t ws. ts = us @ t # ws \<and> g t k = Some v \<and> (\<forall>w \<in> set ws. g w k = None))"
proof (induction ts)
  case (Cons t ts)
  show ?case (is "?l \<longleftrightarrow> ?r")
  proof
    assume ?l
    then consider "merge_maps g ts k = Some v" | "merge_maps g ts k = None" "g t k = Some v"
      by (auto simp: map_add_Some_iff)
    then show ?r
    proof cases
      case 1
      then show ?thesis using Cons by (metis append_Cons)
    next
      case 2
      then show ?thesis using merge_maps_None by (metis append_Nil)
    qed
  next
    assume ?r
    then obtain us u ws where *: "t # ts = us @ u # ws" "g u k = Some v" "\<forall>w \<in> set ws. g w k = None" by blast
    show ?l
    proof (cases us)
      case Nil
      then show ?thesis using * merge_maps_None [of g ws k] by (auto simp: map_add_Some_iff)
    next
      case (Cons a us')
      then have "merge_maps g ts k = Some v" using * local.Cons Cons.IH by auto
      then show ?thesis by (simp add: map_add_Some_iff)
    qed
  qed
qed simp

definition distinct_keys :: "NodeTerm \<Rightarrow> bool" where
  "distinct_keys t \<longleftrightarrow> distinct (map fst (term_Annotations t)) \<and> distinct (map fst (term_Labels t)) \<and>
     distinct (map fst (term_Taints t)) \<and> distinct (map fst (term_PlatformMetadata t))"

lemma apply_maps_Ret:
  assumes "distinct_keys t" and "apply_maps env values t node = Ret node'"
  shows "node' = node\<lparr>
      ns_Annotations := ns_Annotations node ++ entries (annotation_value env values) (term_Annotations t),
      ns_Labels := ns_Labels node ++ entries (label_value env values) (term_Labels t),
      ns_Taints := ns_Taints node ++ entries (taint_value env values) (term_Taints t)\<rparr>"
  using assms by (auto simp: apply_maps_def distinct_keys_def go_out map_loop_Ret)

text \<open>Every entry of a rule is computed without error.\<close>

definition computed :: "('t, 'i) transform_env \<Rightarrow> 'i nodeTransformationValues \<Rightarrow> NodeTerm \<Rightarrow> bool" where
  "computed env values t \<longleftrightarrow>
     (\<forall>(k, v) \<in> set (term_Annotations t). returns (annotation_value env values k v)) \<and>
     (\<forall>(k, v) \<in> set (term_Labels t). returns (label_value env values k v)) \<and>
     (\<forall>(k, v) \<in> set (term_Taints t). returns (taint_value env values k v))"

lemma apply_maps_computed:
  assumes "distinct_keys t" and "apply_maps env values t node = Ret node'"
  shows "computed env values t"
  using assms by (auto simp: apply_maps_def distinct_keys_def go_out map_loop_Ret computed_def)

definition merged :: "('t, 'i) transform_env \<Rightarrow> 'i nodeTransformationValues \<Rightarrow> NodeTerm list \<Rightarrow> NodeSpec \<Rightarrow> NodeSpec" where
  "merged env values ts node = node\<lparr>
     ns_Annotations := ns_Annotations node ++ merge_maps (\<lambda>t. entries (annotation_value env values) (term_Annotations t)) ts,
     ns_Labels := ns_Labels node ++ merge_maps (\<lambda>t. entries (label_value env values) (term_Labels t)) ts,
     ns_Taints := ns_Taints node ++ merge_maps (\<lambda>t. entries (taint_value env values) (term_Taints t)) ts\<rparr>"

lemma transform_terms_Ret:
  assumes "\<forall>t \<in> set terms. distinct_keys t"
    and "transform_terms env values metadata terms node fs = (Ret spec, fs')"
  shows "spec = merged env values (selected env metadata terms) node \<and>
    (\<forall>t \<in> set (selected env metadata terms). computed env values t)"
  using assms
proof (induction terms arbitrary: node fs)
  case (Cons trm terms)
  obtain b where b: "Match (te_compile env) (term_NodeSelector trm) metadata = Ret b"
    using Cons(3) by (auto simp: Match_cases_Ret)
  show ?case
  proof (cases b)
    case True
    then obtain node' fs1 where n: "apply_maps env values trm node = Ret node'"
      and r: "transform_terms env values metadata terms node' fs1 = (Ret spec, fs')"
      using Cons(3) b by (auto simp: bind_act_Ret_iff)
    have "spec = merged env values (selected env metadata terms) node' \<and>
        (\<forall>t \<in> set (selected env metadata terms). computed env values t)"
      by (rule Cons(1) [OF _ r]) (use Cons(2) in simp)
    then show ?thesis
      using apply_maps_Ret [OF _ n] apply_maps_computed [OF _ n] Cons(2) True b
      by (simp add: merged_def selected_def)
  next
    case False
    then show ?thesis using Cons b by (auto simp: bind_act_Ret_iff selected_def)
  qed
qed (simp add: selected_def merged_def)

text \<open>
  What the rules may change of the struct: the values of exported fields, within the same kind, and
  never those of the fields whose lower-case name is in \<open>names\<close>.
\<close>

fun same_kind :: "field_value \<Rightarrow> field_value \<Rightarrow> bool" where
  "same_kind (FBool _) (FBool _) \<longleftrightarrow> True"
| "same_kind (FString _) (FString _) \<longleftrightarrow> True"
| "same_kind v w \<longleftrightarrow> v = w"

definition field_kept :: "string set \<Rightarrow> struct_field \<Rightarrow> struct_field \<Rightarrow> bool" where
  "field_kept names f g \<longleftrightarrow> fld_Name g = fld_Name f \<and> fld_Tag g = fld_Tag f \<and> fld_Exported g = fld_Exported f \<and>
     same_kind (fld_Value f) (fld_Value g) \<and>
     (ToLower (fld_Name f) \<in> names \<or> \<not> fld_Exported f \<longrightarrow> g = f)"

lemma same_kind_refl [simp]: "same_kind v v"
  by (cases v) auto

lemma same_kind_trans: "same_kind u v \<Longrightarrow> same_kind v w \<Longrightarrow> same_kind u w"
  by (cases u; cases v; cases w) auto

lemma field_kept_refl [simp]: "field_kept names f f"
  by (simp add: field_kept_def)

lemma field_kept_trans: "field_kept names f g \<Longrightarrow> field_kept names g h \<Longrightarrow> field_kept names f h"
  by (auto simp: field_kept_def intro: same_kind_trans)

abbreviation struct_kept :: "string set \<Rightarrow> go_struct \<Rightarrow> go_struct \<Rightarrow> bool" where
  "struct_kept names \<equiv> list_all2 (field_kept names)"

lemma struct_kept_refl [simp]: "struct_kept names fs fs"
  by (simp add: list_all2_refl)

lemma struct_kept_trans: "struct_kept names fs gs \<Longrightarrow> struct_kept names gs hs \<Longrightarrow> struct_kept names fs hs"
  by (rule list_all2_trans [of "field_kept names" "field_kept names" "field_kept names"]) (auto intro: field_kept_trans)

lemma FieldByNameFunc_Some:
  assumes "FieldByNameFunc match fs = Some i"
  shows "i < length fs" and "match (fld_Name (fs ! i))"
proof -
  have "filter (\<lambda>i. match (fld_Name (fs ! i))) [0..<length fs] = [i]"
    using assms by (auto simp: FieldByNameFunc_def split: list.splits)
  then have "i \<in> set (filter (\<lambda>i. match (fld_Name (fs ! i))) [0..<length fs])" by simp
  then show "i < length fs" and "match (fld_Name (fs ! i))" by auto
qed

lemma set_field_kept:
  assumes "i < length fs" and "same_kind (fld_Value (fs ! i)) v"
    and "ToLower (fld_Name (fs ! i)) \<notin> names"
  shows "struct_kept names fs (snd (set_field i v fs))"
  using assms by (auto simp: set_field_def list_all2_conv_all_nth nth_list_update field_kept_def)

text \<open>
  The names that a rule with the given keys cannot reach: \<^verbatim>\<open>platform\<close>, and \<^verbatim>\<open>hostname\<close> as long as no
  key spells its s as the long s, which \<^verbatim>\<open>ToLower\<close> keeps and \<^verbatim>\<open>EqualFold\<close> takes for an s.
\<close>

definition protected_names :: "string list \<Rightarrow> string set" where
  "protected_names ks = (if \<exists>k \<in> set ks. Contains k long_s then {''platform''} else {''hostname'', ''platform''})"

lemma protected_names_mono: "set ks \<subseteq> set ls \<Longrightarrow> protected_names ls \<subseteq> protected_names ks"
  by (auto simp: protected_names_def)

lemma protected_names_folded:
  assumes "EqualFold n k" and "ToLower k \<notin> set prohibitedPlatformMetadataKeys" and "k \<in> set ks"
  shows "ToLower n \<notin> protected_names ks"
proof
  assume n: "ToLower n \<in> protected_names ks"
  then have "ToLower n = ''platform'' \<or> ToLower n = ''hostname'' \<and> \<not> Contains k long_s"
    using assms(3) by (auto simp: protected_names_def split: if_splits)
  then have "lower_eq n k" by (intro EqualFold_lower_eq [OF assms(1)]) auto
  then show False
    using n assms(2) by (auto simp: lower_eq_def protected_names_def prohibitedPlatformMetadataKeys_def split: if_splits)
qed

lemma keeps_set_metadata:
  "fst ` set kvs \<subseteq> set ks \<Longrightarrow> keeps (struct_kept (protected_names ks) fs) (set_metadata env values kvs)"
proof (induction kvs)
  case Nil
  show ?case by (simp add: keeps_def)
next
  case (Cons kv kvs)
  obtain k v where kv: "kv = (k, v)" by (cases kv)
  let ?put = "\<lambda>t gs. case FieldByNameFunc (\<lambda>n. EqualFold n k) gs of
              None \<Rightarrow> (Ret (), gs)
            | Some i \<Rightarrow> (case fld_Value (gs ! i) of
                  FBool _ \<Rightarrow> set_field i (FBool (t = ''true'')) gs
                | FString _ \<Rightarrow> set_field i (FString (TrimSpace t)) gs
                | _ \<Rightarrow> (Err (Errorf ''unsupported platform metadata field''), gs))"
  show ?case
  proof (cases "ToLower k \<in> set prohibitedPlatformMetadataKeys")
    case True
    then show ?thesis using Cons kv by (simp add: keeps_def)
  next
    case False
    have put: "keeps (struct_kept (protected_names ks) fs) (?put t)" for t
    proof (rule keepsI)
      fix gs assume gs: "struct_kept (protected_names ks) fs gs"
      show "struct_kept (protected_names ks) fs (snd (?put t gs))"
      proof (cases "FieldByNameFunc (\<lambda>n. EqualFold n k) gs")
        case (Some i)
        note fi = FieldByNameFunc_Some [OF Some]
        have "ToLower (fld_Name (gs ! i)) \<notin> protected_names ks"
          by (rule protected_names_folded [OF fi(2) False]) (use Cons(2) kv in simp)
        then have "struct_kept (protected_names ks) gs (snd (set_field i w gs))" if "same_kind (fld_Value (gs ! i)) w" for w
          using fi that by (intro set_field_kept)
        then show ?thesis
          using Some gs by (cases "fld_Value (gs ! i)") (auto intro: struct_kept_trans)
      qed (use gs in simp)
    qed
    have "keeps (struct_kept (protected_names ks) fs) (bind_act (bind_act
        (lift_act (map_err (Errorf_w ''failed to transformer platform metadata'') (executeTemplate env v values))) ?put)
        (\<lambda>_. set_metadata env values kvs))"
      using Cons by (intro keeps_bind keeps_ret put) simp
    then show ?thesis using False kv by (simp add: keeps_def)
  qed
qed

text \<open>The keys of the platform metadata that the rules set.\<close>

definition metadata_keys :: "NodeTerm list \<Rightarrow> string list" where
  "metadata_keys terms = concat (map (\<lambda>t. map fst (term_PlatformMetadata t)) terms)"

lemma keeps_transform_terms:
  "set (metadata_keys terms) \<subseteq> set ks \<Longrightarrow>
   keeps (struct_kept (protected_names ks) fs) (transform_terms env values metadata terms node)"
proof (induction terms arbitrary: node)
  case (Cons trm terms)
  have "keeps (struct_kept (protected_names ks) fs) (bind_act (lift_act (Match (te_compile env) (term_NodeSelector trm) metadata)) (\<lambda>match.
       if match then
         bind_act (lift_act (apply_maps env values trm node)) (\<lambda>node'.
         bind_act (set_metadata env values (term_PlatformMetadata trm)) (\<lambda>_.
           transform_terms env values metadata terms node'))
       else transform_terms env values metadata terms node))"
    using Cons by (intro keeps_bind keeps_ret) (auto intro!: keeps_bind keeps_set_metadata simp: metadata_keys_def)
  then show ?case by (simp add: keeps_def)
qed (simp add: keeps_def)

lemma taint_value_Ret: "taint_value env values k v = Ret t \<longleftrightarrow>
    t = v \<and> isQualifiedTaintName k = [] \<and> (\<exists>r. executeTemplate env v values = Ret r \<and> isValidTaintValue r = [])"
  by (auto simp: taint_value_def go_out)

lemma label_value_Ret: "label_value env values k v = Ret t \<longleftrightarrow>
    executeTemplate env v values = Ret t \<and> te_IsQualifiedName env k = [] \<and> te_IsValidLabelValue env t = []"
  by (auto simp: label_value_def go_out)

lemma annotation_value_Ret: "annotation_value env values k v = Ret t \<longleftrightarrow>
    executeTemplate env v values = Ret t \<and> te_IsQualifiedName env k = []"
  by (auto simp: annotation_value_def go_out)

lemma entries_Some: "entries f kvs k = Some t \<longleftrightarrow> (\<exists>v. map_of kvs k = Some v \<and> f k v = Ret t)"
  by (auto simp: entries_def split: option.splits outcome.splits)

lemma TransformNode_Ret:
  assumes "\<forall>t \<in> set terms. distinct_keys t"
    and "TransformNode env terms sysinfo (Some fs) = (Ret spec, r)"
  shows "spec = merged env \<lparr>tv_PlatformMetadata = fs, tv_SystemInformation = sysinfo\<rparr>
           (selected env (mapFromStruct fs) terms) empty_NodeSpec \<and>
         (\<forall>t \<in> set (selected env (mapFromStruct fs) terms).
            computed env \<lparr>tv_PlatformMetadata = fs, tv_SystemInformation = sysinfo\<rparr> t)"
proof (cases "terms = []")
  case True
  then show ?thesis using assms(2) by (simp add: TransformNode_def merged_def selected_def)
next
  case False
  then obtain fs' where "transform_terms env \<lparr>tv_PlatformMetadata = fs, tv_SystemInformation = sysinfo\<rparr>
      (mapFromStruct fs) terms empty_NodeSpec fs = (Ret spec, fs')"
    using assms(2) by (auto simp: TransformNode_def split: prod.splits)
  then show ?thesis using transform_terms_Ret [OF assms(1)] by blast
qed

text \<open>A merged map: the last selected rule that names a key gives its value.\<close>

lemma merged_lookup:
  assumes "\<forall>t \<in> set ts. \<forall>(k, v) \<in> set (kvs t). returns (f k v)"
  shows "merge_maps (\<lambda>t. entries f (kvs t)) ts k = Some x \<longleftrightarrow>
    (\<exists>us t ws v. ts = us @ t # ws \<and> map_of (kvs t) k = Some v \<and> f k v = Ret x \<and>
       (\<forall>w \<in> set ws. k \<notin> fst ` set (kvs w)))"
proof -
  have none: "entries f (kvs w) k = None \<longleftrightarrow> k \<notin> fst ` set (kvs w)" if "w \<in> set ts" for w
  proof (cases "map_of (kvs w) k")
    case None
    then have "k \<notin> fst ` set (kvs w)" by (simp add: map_of_eq_None_iff)
    then show ?thesis using None by (simp add: entries_def)
  next
    case (Some v)
    then have "(k, v) \<in> set (kvs w)" by (rule map_of_SomeD)
    then obtain y where "f k v = Ret y" using assms \<open>w \<in> set ts\<close> by blast
    then show ?thesis using Some \<open>(k, v) \<in> set (kvs w)\<close> by (force simp: entries_def)
  qed
  have "(\<forall>w \<in> set ws. entries f (kvs w) k = None) \<longleftrightarrow> (\<forall>w \<in> set ws. k \<notin> fst ` set (kvs w))"
    if "ts = us @ t # ws" for us t ws
    using that none by simp
  then show ?thesis
    unfolding merge_maps_last entries_Some by blast
qed

lemma TransformNode_struct_kept:
  "\<exists>fs'. snd (TransformNode env terms sysinfo (Some fs)) = Some fs' \<and>
     struct_kept (protected_names (metadata_keys terms)) fs fs'"
proof -
  have "struct_kept (protected_names (metadata_keys terms)) fs
      (snd (transform_terms env vs metadata terms empty_NodeSpec fs))" for vs metadata
    by (rule keepsD [OF keeps_transform_terms]) simp_all
  then show ?thesis by (auto simp: TransformNode_def split_def Let_def)
qed

text \<open>The keys that \<^verbatim>\<open>isQualifiedTaintName\<close> refuses.\<close>

lemma isQualifiedTaintName_iff:
  "isQualifiedTaintName k = [] \<longleftrightarrow>
   k \<notin> {''node.kubernetes.io/not-ready'', ''node.kubernetes.io/unreachable'', ''node.kubernetes.io/memory-pressure'',
        ''node.kubernetes.io/disk-pressure'', ''node.kubernetes.io/network-unavailable'', ''node.kubernetes.io/pid-pressure'',
        ''node.cloudprovider.kubernetes.io/uninitialized'', ''node.cloudprovider.kubernetes.io/shutdown''}"
proof -
  have "Contains ''node.kubernetes.io/not-ready'' ''kubernetes.io/''" "Contains ''node.kubernetes.io/unreachable'' ''kubernetes.io/''"
    "Contains ''node.kubernetes.io/memory-pressure'' ''kubernetes.io/''" "Contains ''node.kubernetes.io/disk-pressure'' ''kubernetes.io/''"
    "Contains ''node.kubernetes.io/network-unavailable'' ''kubernetes.io/''" "Contains ''node.kubernetes.io/pid-pressure'' ''kubernetes.io/''"
    "Contains ''node.cloudprovider.kubernetes.io/uninitialized'' ''kubernetes.io/''"
    "Contains ''node.cloudprovider.kubernetes.io/shutdown'' ''kubernetes.io/''"
    by code_simp+
  then show ?thesis
    unfolding isQualifiedTaintName_def by (cases "Contains k ''kubernetes.io/''") (simp_all del: Contains.simps, metis)
qed

text \<open>Other well-known taints are accepted, although the documentation forbids them.\<close>

lemma unschedulable_taint_accepted:
  "isQualifiedTaintName ''node.kubernetes.io/unschedulable'' = []" "isQualifiedTaintName ''node.kubernetes.io/out-of-service'' = []"
  by (simp_all add: isQualifiedTaintName_iff)

lemma TransformNode_taint_names:
  assumes "\<forall>t \<in> set terms. distinct_keys t"
    and "TransformNode env terms sysinfo (Some fs) = (Ret spec, r)" and "ns_Taints spec k = Some v"
  shows "isQualifiedTaintName k = []"
  using TransformNode_Ret [OF assms(1,2)] assms(3)
  by (auto simp: merged_def empty_NodeSpec_def merge_maps_last entries_Some taint_value_Ret)

lemma TransformNode_label_absent:
  assumes "\<forall>t \<in> set terms. distinct_keys t \<and> k \<notin> fst ` set (term_Labels t)"
    and "TransformNode env terms sysinfo (Some fs) = (Ret spec, r)"
  shows "ns_Labels spec k = None"
proof -
  have "entries f (term_Labels t) k = None" if "t \<in> set terms" for f t
    using assms(1) that map_of_SomeD [of "term_Labels t" k] by (force simp: entries_def split: option.split)
  then have "merge_maps (\<lambda>t. entries f (term_Labels t)) (selected env md terms) k = None" for f md
    unfolding merge_maps_None by (simp add: selected_def)
  then show ?thesis
    using TransformNode_Ret [OF _ assms(2)] assms(1) by (auto simp: merged_def empty_NodeSpec_def)
qed

section \<open>Properties\<close>

text \<open>
  C25: The labels that \<^verbatim>\<open>TransformNode\<close> returns are, for every order of the maps, those of the rules
  that select the node: a key has the rendered value of the last selected rule that names it, so later
  rules override earlier ones; a rule is selected by the metadata the node had before the first rule;
  and every label has a qualified name and a valid value.
\<close>

theorem TransformNode_labels:
  assumes "\<forall>t \<in> set terms. distinct_keys t"
    and "TransformNode env terms sysinfo (Some fs) = (Ret spec, r)"
  shows "ns_Labels spec k = Some x \<longleftrightarrow>
     (\<exists>us t ws v. selected env (mapFromStruct fs) terms = us @ t # ws \<and> map_of (term_Labels t) k = Some v \<and>
        executeTemplate env v \<lparr>tv_PlatformMetadata = fs, tv_SystemInformation = sysinfo\<rparr> = Ret x \<and>
        te_IsQualifiedName env k = [] \<and> te_IsValidLabelValue env x = [] \<and>
        (\<forall>w \<in> set ws. k \<notin> fst ` set (term_Labels w)))"
proof -
  let ?vs = "\<lparr>tv_PlatformMetadata = fs, tv_SystemInformation = sysinfo\<rparr>"
  let ?ts = "selected env (mapFromStruct fs) terms"
  have "\<forall>t \<in> set ?ts. \<forall>(k, v) \<in> set (term_Labels t). returns (label_value env ?vs k v)"
    using TransformNode_Ret [OF assms] by (simp add: computed_def)
  from merged_lookup [OF this, of k x] show ?thesis
    using TransformNode_Ret [OF assms] by (simp add: merged_def empty_NodeSpec_def label_value_Ret)
qed

text \<open>
  C26: Taints are stored as the rules write them: the template of a taint is rendered and the rendering
  is validated, but the value that \<^verbatim>\<open>TransformNode\<close> returns is the text of the template itself. None of
  the eight keys that the code lists is ever returned; other well-known taints, such as
  \<^verbatim>\<open>node.kubernetes.io/unschedulable\<close>, are accepted (\<open>unschedulable_taint_accepted\<close>), although the
  documentation of the rules forbids well-known taints altogether.
\<close>

theorem TransformNode_taints:
  assumes "\<forall>t \<in> set terms. distinct_keys t"
    and "TransformNode env terms sysinfo (Some fs) = (Ret spec, r)"
  shows "ns_Taints spec k = Some v \<longleftrightarrow>
     k \<notin> {''node.kubernetes.io/not-ready'', ''node.kubernetes.io/unreachable'', ''node.kubernetes.io/memory-pressure'',
        ''node.kubernetes.io/disk-pressure'', ''node.kubernetes.io/network-unavailable'', ''node.kubernetes.io/pid-pressure'',
        ''node.cloudprovider.kubernetes.io/uninitialized'', ''node.cloudprovider.kubernetes.io/shutdown''} \<and>
     (\<exists>us t ws x. selected env (mapFromStruct fs) terms = us @ t # ws \<and> map_of (term_Taints t) k = Some v \<and>
        executeTemplate env v \<lparr>tv_PlatformMetadata = fs, tv_SystemInformation = sysinfo\<rparr> = Ret x \<and>
        isValidTaintValue x = [] \<and> (\<forall>w \<in> set ws. k \<notin> fst ` set (term_Taints w)))"
proof -
  let ?vs = "\<lparr>tv_PlatformMetadata = fs, tv_SystemInformation = sysinfo\<rparr>"
  let ?ts = "selected env (mapFromStruct fs) terms"
  have "\<forall>t \<in> set ?ts. \<forall>(k, v) \<in> set (term_Taints t). returns (taint_value env ?vs k v)"
    using TransformNode_Ret [OF assms] by (simp add: computed_def)
  note lookup = merged_lookup [OF this, of k v]
  have "ns_Taints spec = merge_maps (\<lambda>t. entries (taint_value env ?vs) (term_Taints t)) ?ts"
    using TransformNode_Ret [OF assms] by (simp add: merged_def empty_NodeSpec_def)
  then show ?thesis unfolding isQualifiedTaintName_iff [symmetric] by (simp only: lookup taint_value_Ret) blast
qed

text \<open>
  C18: Whatever the rules and the outcome, \<^verbatim>\<open>TransformNode\<close> leaves the shape of the platform metadata
  alone: the same fields with the same names, tags and kinds; and it never changes an unexported field
  or the field \<^verbatim>\<open>Platform\<close>, in whatever case a rule spells it. The field \<^verbatim>\<open>Hostname\<close> is kept too, as
  long as no metadata key of the rules contains the long s, U+017F: the ban on the name compares with
  \<^verbatim>\<open>ToLower\<close>, which leaves that character alone, and the search for the field with \<^verbatim>\<open>EqualFold\<close>, which takes it
  for an s (\<open>hostname_overwritten\<close> below).
\<close>

theorem TransformNode_keeps_identity:
  "\<exists>fs'. snd (TransformNode env terms sysinfo (Some fs)) = Some fs' \<and> length fs' = length fs \<and>
     (\<forall>i < length fs. let f = fs ! i; g = fs' ! i in
        fld_Name g = fld_Name f \<and> fld_Tag g = fld_Tag f \<and> fld_Exported g = fld_Exported f \<and>
        same_kind (fld_Value f) (fld_Value g) \<and>
        (\<not> fld_Exported f \<longrightarrow> g = f) \<and>
        (ToLower (fld_Name f) = ''platform'' \<longrightarrow> g = f) \<and>
        (ToLower (fld_Name f) = ''hostname'' \<and>
         (\<forall>t \<in> set terms. \<forall>(k, v) \<in> set (term_PlatformMetadata t). \<not> Contains k long_s) \<longrightarrow> g = f))"
proof -
  obtain fs' where fs': "snd (TransformNode env terms sysinfo (Some fs)) = Some fs'"
    and kept: "struct_kept (protected_names (metadata_keys terms)) fs fs'"
    using TransformNode_struct_kept by blast
  have "''platform'' \<in> protected_names (metadata_keys terms)" by (simp add: protected_names_def)
  moreover have "''hostname'' \<in> protected_names (metadata_keys terms)"
    if "\<forall>t \<in> set terms. \<forall>(k, v) \<in> set (term_PlatformMetadata t). \<not> Contains k long_s"
    using that by (force simp: protected_names_def metadata_keys_def)
  ultimately have "\<forall>i < length fs. let f = fs ! i; g = fs' ! i in
        fld_Name g = fld_Name f \<and> fld_Tag g = fld_Tag f \<and> fld_Exported g = fld_Exported f \<and>
        same_kind (fld_Value f) (fld_Value g) \<and>
        (\<not> fld_Exported f \<longrightarrow> g = f) \<and>
        (ToLower (fld_Name f) = ''platform'' \<longrightarrow> g = f) \<and>
        (ToLower (fld_Name f) = ''hostname'' \<and>
         (\<forall>t \<in> set terms. \<forall>(k, v) \<in> set (term_PlatformMetadata t). \<not> Contains k long_s) \<longrightarrow> g = f)"
    using kept unfolding list_all2_conv_all_nth field_kept_def Let_def by metis
  then show ?thesis using fs' list_all2_lengthD [OF kept] by simp
qed

text \<open>
  The features of a rule never reach the result: \<^verbatim>\<open>TransformNode\<close> returns the zero flags, so public
  address discovery stays off whatever the selected rules ask for.
\<close>

theorem TransformNode_ignores_features:
  assumes "\<forall>t \<in> set terms. distinct_keys t"
    and "TransformNode env terms sysinfo (Some fs) = (Ret spec, r)"
  shows "\<not> PublicIPDiscovery (ns_Features spec)"
  using TransformNode_Ret [OF assms] by (simp add: merged_def empty_NodeSpec_def)

subsection \<open>Witnesses\<close>

text \<open>Templates are their own text, but for one action and one that does not parse.\<close>

definition demo_env :: "(string, unit) transform_env" where
  "demo_env = \<lparr>te_compile = literal_compile, te_Parse = (\<lambda>s. if s = ''{{'' then Err (Errorf ''unclosed action'') else Ret s),
     te_Execute = (\<lambda>t vs. Ret (if t = ''{{.Effect}}'' then ''NoSchedule'' else t)),
     te_IsQualifiedName = (\<lambda>s. if s = '''' then [''empty''] else []),
     te_IsValidLabelValue = (\<lambda>s. if length s > 63 then [''too long''] else [])\<rparr>"

definition demo_struct :: "string \<Rightarrow> go_struct" where
  "demo_struct zone =
     [\<lparr>fld_Name = ''Platform'', fld_Tag = ''platform,omitempty'', fld_Exported = True, fld_Value = FString ''metal''\<rparr>,
      \<lparr>fld_Name = ''Zone'', fld_Tag = ''zone,omitempty'', fld_Exported = True, fld_Value = FString zone\<rparr>]"

definition demo_term :: NodeTerm where
  "demo_term = \<lparr>term_Name = ''t'',
     term_NodeSelector = [demo_req ''platform'' ''In'' [''metal'']],
     term_Annotations = [(''note'', ''n'')], term_Labels = [(''class'', ''big'')], term_Taints = [(''dedicated'', ''{{.Effect}}'')],
     term_PlatformMetadata = [(''zone'', ''z1''), (''PLATFORM'', ''aws'')], term_Features = \<lparr>PublicIPDiscovery = True\<rparr>\<rparr>"

definition demo_spec :: NodeSpec where
  "demo_spec = \<lparr>ns_Annotations = [''note'' \<mapsto> ''n''], ns_Labels = [''class'' \<mapsto> ''big''],
      ns_Taints = [''dedicated'' \<mapsto> ''{{.Effect}}''], ns_Features = \<lparr>PublicIPDiscovery = False\<rparr>\<rparr>"

lemma demo_strings:
  "ToLower ''platform'' = ''platform''" "ToLower ''Platform'' = ''platform''" "ToLower ''zone'' = ''zone''"
  "ToLower ''Zone'' = ''zone''" "ToLower ''PLATFORM'' = ''platform''"
  "Split (CHR '','') ''platform,omitempty'' = [''platform'', ''omitempty'']"
  "Split (CHR '','') ''zone,omitempty'' = [''zone'', ''omitempty'']"
  "TrimSpace ''z1'' = ''z1''" "isValidTaintValue ''NoSchedule'' = []" "isQualifiedTaintName ''dedicated'' = []"
  by code_simp+

lemma demo_folds:
  "EqualFold ''Platform'' ''zone'' = False" "EqualFold ''Zone'' ''zone'' = True"
  by code_simp+

lemma demo_metadata: "mapFromStruct (demo_struct '''') = [''platform'' \<mapsto> ''metal'']"
  by (simp add: mapFromStruct_def demo_struct_def struct_entry_def demo_strings)

lemma demo_Match: "Match literal_compile [demo_req ''platform'' ''In'' [''metal'']] [''platform'' \<mapsto> ''metal''] = Ret True"
  by (simp add: Match_def MatchExpressions_def match_rule_def demo_req_def demo_strings)

lemma demo_transform:
  "TransformNode demo_env [demo_term] None (Some (demo_struct '''')) = (Ret demo_spec, Some (demo_struct ''z1''))"
  by (simp add: TransformNode_def demo_metadata)
    (simp add: demo_term_def demo_env_def demo_Match act_defs apply_maps_def annotation_value_def label_value_def taint_value_def
      executeTemplate_def demo_strings empty_NodeSpec_def demo_spec_def prohibitedPlatformMetadataKeys_def FieldByNameFunc_def
      demo_folds demo_struct_def set_field_def del: EqualFold.simps)

lemma demo_distinct: "\<forall>t \<in> set [demo_term]. distinct_keys t"
  by (simp add: demo_term_def distinct_keys_def)

theorem TransformNode_labels_witness:
  "ns_Labels demo_spec ''class'' = Some ''big'' \<and> te_IsValidLabelValue demo_env ''big'' = []"
proof -
  have "ns_Labels demo_spec ''class'' = Some ''big''" by (simp add: demo_spec_def)
  then show ?thesis
    using TransformNode_labels [OF demo_distinct demo_transform, of "''class''" "''big''"] by blast
qed

theorem TransformNode_taints_witness:
  "ns_Taints demo_spec ''dedicated'' = Some ''{{.Effect}}'' \<and> isValidTaintValue ''{{.Effect}}'' \<noteq> [] \<and>
   ns_Taints demo_spec ''node.kubernetes.io/unreachable'' = None"
proof -
  have "ns_Taints demo_spec ''node.kubernetes.io/unreachable'' = None"
    using TransformNode_taints [OF demo_distinct demo_transform, of "''node.kubernetes.io/unreachable''"]
    by (metis insertI1 insertI2 option.exhaust)
  moreover have "isValidTaintValue ''{{.Effect}}'' \<noteq> []" by code_simp
  ultimately show ?thesis by (simp add: demo_spec_def)
qed

theorem TransformNode_keeps_identity_witness:
  "snd (TransformNode demo_env [demo_term] None (Some (demo_struct ''''))) = Some (demo_struct ''z1'') \<and>
   demo_struct ''z1'' ! 0 = demo_struct '''' ! 0"
proof -
  obtain fs' where "snd (TransformNode demo_env [demo_term] None (Some (demo_struct ''''))) = Some fs'"
    and "\<forall>i < length (demo_struct ''''). ToLower (fld_Name (demo_struct '''' ! i)) = ''platform'' \<longrightarrow> fs' ! i = demo_struct '''' ! i"
    using TransformNode_keeps_identity [of demo_env "[demo_term]" None "demo_struct ''''"] unfolding Let_def by blast
  moreover have "0 < length (demo_struct '''')" "ToLower (fld_Name (demo_struct '''' ! 0)) = ''platform''"
    by (simp_all add: demo_struct_def demo_strings)
  ultimately show ?thesis using demo_transform by auto
qed

text \<open>A rule that spells the host name with a long s overwrites it.\<close>

definition host_struct :: "string \<Rightarrow> go_struct" where
  "host_struct name = [\<lparr>fld_Name = ''Hostname'', fld_Tag = ''hostname,omitempty'', fld_Exported = True, fld_Value = FString name\<rparr>]"

definition host_key :: string where
  "host_key = ''ho'' @ long_s @ ''tname''"

definition host_term :: NodeTerm where
  "host_term = \<lparr>term_Name = ''t'', term_NodeSelector = [], term_Annotations = [], term_Labels = [], term_Taints = [],
     term_PlatformMetadata = [(host_key, ''other'')], term_Features = \<lparr>PublicIPDiscovery = False\<rparr>\<rparr>"

lemma long_s_folds:
  "EqualFold ''Hostname'' host_key = True" "ToLower host_key \<noteq> ''hostname''" "ToLower host_key \<noteq> ''platform''"
  "TrimSpace ''other'' = ''other''"
  by code_simp+

lemma hostname_overwritten:
  "TransformNode demo_env [host_term] None (Some (host_struct ''w1'')) = (Ret empty_NodeSpec, Some (host_struct ''other''))"
proof -
  have "Match literal_compile [] m = Ret True" for m by (simp add: Match_def)
  then show ?thesis
    unfolding TransformNode_def host_term_def host_struct_def demo_env_def
    by (simp add: act_defs apply_maps_def executeTemplate_def empty_NodeSpec_def prohibitedPlatformMetadataKeys_def
        FieldByNameFunc_def set_field_def long_s_folds del: EqualFold.simps)
qed

theorem TransformNode_ignores_features_witness:
  "PublicIPDiscovery (term_Features demo_term) \<and> \<not> PublicIPDiscovery (ns_Features demo_spec)"
  using TransformNode_ignores_features [OF demo_distinct demo_transform] by (simp add: demo_term_def)

end
