(* ===== verification/Instances.thy ===== *)
theory Instances
  imports Transformer NodeNetwork
begin

text \<open>
  Package \<^verbatim>\<open>talos\<close>: the cloud provider's view of a node. \<^verbatim>\<open>InstanceMetadata\<close> asks Talos for the platform
  metadata of the node, applies the transformation rules and returns the addresses, the provider ID and
  the topology; on the way it writes annotations, taints and labels to the node. The Talos API, the
  Kubernetes API and the regular expression of Azure resource IDs are fields of \<open>instance_env\<close>. The writes
  to the API server are recorded in the order they are made.

  The platform metadata is the struct of \<open>Transformer\<close>; \<open>str_field\<close>, \<open>bool_field\<close> and \<open>set_str\<close> are
  the direct accesses \<^verbatim>\<open>meta.F\<close> of the source.
\<close>

section \<open>Configuration\<close>

record cloudConfig =
  cc_ClusterName :: string
  cc_PreferIPv6 :: bool
  cc_Transformations :: "NodeTerm list"

text \<open>\<^verbatim>\<open>readCloudConfig\<close>: no reader gives the zero configuration; \<open>decode\<close> is the YAML decoder.\<close>

definition empty_config :: cloudConfig where
  "empty_config = \<lparr>cc_ClusterName = '''', cc_PreferIPv6 = False, cc_Transformations = []\<rparr>"

definition readCloudConfig :: "(string \<Rightarrow> go_err + cloudConfig) \<Rightarrow> string option \<Rightarrow> go_err + cloudConfig" where
  "readCloudConfig decode config = (case config of None \<Rightarrow> Inr empty_config | Some text \<Rightarrow> decode text)"

abbreviation "ProviderName \<equiv> ''talos''"
abbreviation "ClusterNameNodeLabel \<equiv> ''node.cloudprovider.kubernetes.io/clustername''"
abbreviation "ClusterNodePlatformLabel \<equiv> ''node.cloudprovider.kubernetes.io/platform''"
abbreviation "ClusterNodeLifeCycleLabel \<equiv> ''node.cloudprovider.kubernetes.io/lifecycle''"
abbreviation "ClusterNodeLifeCycleLabelSpot \<equiv> ''spot''"

section \<open>Platform metadata\<close>

definition str_field :: "string \<Rightarrow> go_struct \<Rightarrow> string" where
  "str_field n fs = (case find (\<lambda>f. fld_Name f = n) fs of
     Some f \<Rightarrow> (case fld_Value f of FString s \<Rightarrow> s | _ \<Rightarrow> '''') | None \<Rightarrow> '''')"

definition bool_field :: "string \<Rightarrow> go_struct \<Rightarrow> bool" where
  "bool_field n fs = (case find (\<lambda>f. fld_Name f = n) fs of
     Some f \<Rightarrow> (case fld_Value f of FBool b \<Rightarrow> b | _ \<Rightarrow> False) | None \<Rightarrow> False)"

definition set_str :: "string \<Rightarrow> string \<Rightarrow> go_struct \<Rightarrow> go_struct" where
  "set_str n v fs = map (\<lambda>f. if fld_Name f = n then f\<lparr>fld_Value := FString v\<rparr> else f) fs"

text \<open>\<^verbatim>\<open>strings.Replace(s, old, new, 1)\<close>: the first occurrence.\<close>

fun Replace1 :: "string \<Rightarrow> string \<Rightarrow> string \<Rightarrow> string" where
  "Replace1 [] old new = (if old = [] then new else [])"
| "Replace1 (c # s) old new =
     (if HasPrefix (c # s) old then new @ drop (length old) (c # s) else c # Replace1 s old new)"

text \<open>\<open>submatch\<close> is \<^verbatim>\<open>FindStringSubmatch\<close> of the pattern of Azure resource IDs.\<close>

definition AzureConvertResourceGroupNameToLower :: "(string \<Rightarrow> string list) \<Rightarrow> string \<Rightarrow> (go_err, string) outcome" where
  "AzureConvertResourceGroupNameToLower submatch resourceID =
     (let matches = submatch resourceID in
      if length matches \<noteq> 2 then Err (Errorf ''isn't in Azure resource ID format'')
      else Ret (Replace1 resourceID (matches ! 1) (ToLower (matches ! 1))))"

section \<open>Writes to the API server\<close>

datatype node_write =
    PatchAnnotations string "string \<rightharpoonup> string" "string \<rightharpoonup> string"
  | AddTaints string "Taint list"
  | UpdateLabels string "string \<rightharpoonup> string"

text \<open>
  \<open>ie_range m\<close> is the order in which \<^verbatim>\<open>range\<close> visits the keys of the map \<open>m\<close>, \<open>ie_answer\<close> the answer to a
  write; the Talos calls are functions of the address they are sent to.
\<close>

record ('t, 'i) instance_env =
  ie_config :: cloudConfig
  ie_transform :: "('t, 'i) transform_env"
  ie_GetNodeMetadata :: "string \<Rightarrow> go_err + go_struct"
  ie_GetNodeSystemInfo :: "string \<Rightarrow> go_err + 'i"
  ie_GetNodeIfaces :: "string \<Rightarrow> go_err + AddressStatusSpec list"
  ie_GetClusterName :: string
  ie_submatch :: "string \<Rightarrow> string list"
  ie_range :: "(string \<rightharpoonup> string) \<Rightarrow> string list"
  ie_answer :: "node_write \<Rightarrow> go_err option"

definition api_write :: "('t, 'i) instance_env \<Rightarrow> node_write \<Rightarrow> (node_write list, unit) act" where
  "api_write env w ws = ((case ie_answer env w of None \<Rightarrow> Ret () | Some e \<Rightarrow> Err e), ws @ [w])"

text \<open>The entries that differ from those the node has.\<close>

definition to_update :: "(string \<rightharpoonup> string) \<Rightarrow> (string \<rightharpoonup> string) \<Rightarrow> (string \<rightharpoonup> string)" where
  "to_update orig new k = (case new k of None \<Rightarrow> None | Some v \<Rightarrow> if orig k = Some v then None else Some v)"

text \<open>The patch is made from the node and its copy with the annotations overlaid.\<close>

definition syncNodeAnnotations :: "('t, 'i) instance_env \<Rightarrow> Node \<Rightarrow> (string \<rightharpoonup> string) \<Rightarrow> (node_write list, unit) act" where
  "syncNodeAnnotations env node nodeAnnotations ws =
     (let annotationsToUpdate = to_update (node_Annotations node) nodeAnnotations in
      if annotationsToUpdate \<noteq> Map.empty then
        (case api_write env (PatchAnnotations (node_Name node) (node_Annotations node) (node_Annotations node ++ annotationsToUpdate)) ws of
           (Err e, ws') \<Rightarrow> (Err (Errorf_v ''failed to patch the node'' e), ws')
         | r \<Rightarrow> r)
      else (Ret (), ws))"

definition taint_of :: "string \<Rightarrow> string \<Rightarrow> Taint" where
  "taint_of k v =
     (let value = Split (CHR '':'') v in
      if length value = 2 then \<lparr>taint_Key = k, taint_Value = value ! 0, taint_Effect = value ! 1\<rparr>
      else \<lparr>taint_Key = k, taint_Value = '''', taint_Effect = value ! 0\<rparr>)"

definition syncNodeTaints :: "('t, 'i) instance_env \<Rightarrow> Node \<Rightarrow> (string \<rightharpoonup> string) \<Rightarrow> (node_write list, unit) act" where
  "syncNodeTaints env node nodeTaints =
     api_write env (AddTaints (node_Name node) (map (\<lambda>k. taint_of k (the (nodeTaints k))) (ie_range env nodeTaints)))"

definition taintExists :: "Taint list \<Rightarrow> Taint \<Rightarrow> bool" where
  "taintExists taints taintToFind = list_ex (\<lambda>taint. MatchTaint taint taintToFind) taints"

definition setTalosNodeLabels :: "('t, 'i) instance_env \<Rightarrow> go_struct option \<Rightarrow> (string \<rightharpoonup> string)" where
  "setTalosNodeLabels env meta =
     (case meta of
        None \<Rightarrow> Map.empty
      | Some fs \<Rightarrow>
          let labels1 = (if str_field ''Platform'' fs \<noteq> '''' then [ClusterNodePlatformLabel \<mapsto> str_field ''Platform'' fs] else Map.empty);
              labels2 = (if bool_field ''Spot'' fs then labels1(ClusterNodeLifeCycleLabel \<mapsto> ClusterNodeLifeCycleLabelSpot) else labels1);
              clusterName = (if cc_ClusterName (ie_config env) = '''' then ie_GetClusterName env else cc_ClusterName (ie_config env))
          in if clusterName \<noteq> '''' then labels2(ClusterNameNodeLabel \<mapsto> clusterName) else labels2)"

definition syncNodeLabels :: "('t, 'i) instance_env \<Rightarrow> Node \<Rightarrow> (string \<rightharpoonup> string) \<Rightarrow> (node_write list, unit) act" where
  "syncNodeLabels env node nodeLabels ws =
     (let labelsToUpdate = to_update (node_Labels node) nodeLabels in
      if labelsToUpdate \<noteq> Map.empty then
        (case api_write env (UpdateLabels (node_Name node) labelsToUpdate) ws of
           (Err e, ws') \<Rightarrow> (Err (Errorf ''failed update labels for node''), ws')
         | r \<Rightarrow> r)
      else (Ret (), ws))"

section \<open>Instances\<close>

definition uninitializedTaint :: Taint where
  "uninitializedTaint = \<lparr>taint_Key = ''node.cloudprovider.kubernetes.io/uninitialized'', taint_Value = '''', taint_Effect = ''NoSchedule''\<rparr>"

definition notReadyTaint :: Taint where
  "notReadyTaint = \<lparr>taint_Key = ''node.kubernetes.io/not-ready'', taint_Value = '''', taint_Effect = ''NoExecute''\<rparr>"

text \<open>Thirty seconds, in nanoseconds.\<close>

definition initializedNodeDelay :: int where
  "initializedNodeDelay = 30 * 1000000000"

text \<open>The loop over the taints: \<open>None\<close> when it returns early, otherwise \<^verbatim>\<open>notReady\<close>.\<close>

fun taint_loop :: "Taint list \<Rightarrow> bool \<Rightarrow> bool option" where
  "taint_loop [] notReady = Some notReady"
| "taint_loop (taint # taints) notReady =
     (if MatchTaint taint uninitializedTaint then None
      else taint_loop taints (notReady \<or> MatchTaint taint notReadyTaint))"

text \<open>\<open>delay\<close> is \<^verbatim>\<open>time.Since(node.ObjectMeta.CreationTimestamp.Time)\<close>.\<close>

definition InstanceExists :: "Node \<Rightarrow> int \<Rightarrow> bool" where
  "InstanceExists node delay =
     (if spec_ProviderID node = '''' then True
      else case taint_loop (spec_Taints node) False of
        None \<Rightarrow> True
      | Some notReady \<Rightarrow>
          if delay < initializedNodeDelay then True
          else if notReady \<and> node_Labels node ClusterNodePlatformLabel = Some ''gcp'' \<and>
               node_Labels node ClusterNodeLifeCycleLabel = Some ClusterNodeLifeCycleLabelSpot then False
          else True)"

definition InstanceShutdown :: "Node \<Rightarrow> bool" where
  "InstanceShutdown node = False"

record InstanceMeta =
  im_ProviderID :: string
  im_InstanceType :: string
  im_NodeAddresses :: "NodeAddress list"
  im_Zone :: string
  im_Region :: string

definition empty_InstanceMeta :: InstanceMeta where
  "empty_InstanceMeta = \<lparr>im_ProviderID = '''', im_InstanceType = '''', im_NodeAddresses = [], im_Zone = '''', im_Region = ''''\<rparr>"

text \<open>The loop that asks for the metadata: the first address that answers, with its answer.\<close>

fun first_metadata :: "(string \<Rightarrow> go_err + go_struct) \<Rightarrow> string list \<Rightarrow> (string \<times> go_struct) option" where
  "first_metadata get [] = None"
| "first_metadata get (ip # ips) = (case get ip of Inr meta \<Rightarrow> Some (ip, meta) | Inl _ \<Rightarrow> first_metadata get ips)"

definition complete_meta :: "('t, 'i) instance_env \<Rightarrow> Node \<Rightarrow> string \<Rightarrow> go_struct \<Rightarrow> (go_err, go_struct) outcome" where
  "complete_meta env node nodeIP meta =
     (let meta1 = (if str_field ''ProviderID'' meta = ''''
            then set_str ''ProviderID'' (ProviderName @ ''://'' @ str_field ''Platform'' meta @ ''/'' @ nodeIP) meta else meta)
      in bind_out (if str_field ''Platform'' meta1 = ''azure''
                   then bind_out (map_err (Errorf_w ''error converting resource group name to lower case'')
                          (AzureConvertResourceGroupNameToLower (ie_submatch env) (str_field ''ProviderID'' meta1)))
                        (\<lambda>p. Ret (set_str ''ProviderID'' p meta1))
                   else Ret meta1)
         (\<lambda>meta2. Ret (if str_field ''Hostname'' meta2 = '''' then set_str ''Hostname'' (node_Name node) meta2 else meta2)))"

text \<open>\<^verbatim>\<open>strings.IndexByte(s, '.') > 0\<close>.\<close>

definition dotted :: "string \<Rightarrow> bool" where
  "dotted s \<longleftrightarrow> CHR ''.'' \<in> set s \<and> hd s \<noteq> CHR ''.''"

text \<open>The addresses and the result of \<^verbatim>\<open>InstanceMetadata\<close>.\<close>

definition instance_result :: "('t, 'i) instance_env \<Rightarrow> Node \<Rightarrow> string list \<Rightarrow> go_struct \<Rightarrow> NodeSpec \<Rightarrow> AddressStatusSpec list \<Rightarrow> InstanceMeta" where
  "instance_result env node nodeIPs meta nodeSpec ifaces =
     (let addresses = getNodeAddresses (cc_PreferIPv6 (ie_config env)) (str_field ''Platform'' meta)
            (Some (PublicIPDiscovery (ns_Features nodeSpec))) nodeIPs ifaces @
            [\<lparr>addr_Type = ''Hostname'', addr_Address = node_Name node\<rparr>] @
            (if str_field ''Hostname'' meta \<noteq> '''' \<and> dotted (str_field ''Hostname'' meta)
             then [\<lparr>addr_Type = ''InternalDNS'', addr_Address = str_field ''Hostname'' meta\<rparr>] else [])
      in \<lparr>im_ProviderID = str_field ''ProviderID'' meta, im_InstanceType = str_field ''InstanceType'' meta,
          im_NodeAddresses = addresses, im_Zone = str_field ''Zone'' meta, im_Region = str_field ''Region'' meta\<rparr>)"

text \<open>The writes: annotations, then taints if the node is not initialised yet, then labels; their errors are logged.\<close>

definition publish :: "('t, 'i) instance_env \<Rightarrow> Node \<Rightarrow> string list \<Rightarrow> go_struct \<Rightarrow> NodeSpec \<Rightarrow> AddressStatusSpec list \<Rightarrow>
    (node_write list, InstanceMeta) act" where
  "publish env node nodeIPs meta nodeSpec ifaces =
     bind_act (if ns_Annotations nodeSpec \<noteq> Map.empty
               then log_act (syncNodeAnnotations env node (ns_Annotations nodeSpec)) else ret_act ()) (\<lambda>_.
     bind_act (if ns_Taints nodeSpec \<noteq> Map.empty \<and> taintExists (spec_Taints node) uninitializedTaint
               then log_act (syncNodeTaints env node (ns_Taints nodeSpec)) else ret_act ()) (\<lambda>_.
     bind_act (log_act (syncNodeLabels env node (setTalosNodeLabels env (Some meta) ++ ns_Labels nodeSpec))) (\<lambda>_.
     ret_act (instance_result env node nodeIPs meta nodeSpec ifaces))))"

text \<open>The part after the metadata is complete: transformation, interfaces, and the writes.\<close>

definition transform_and_publish :: "('t, 'i) instance_env \<Rightarrow> Node \<Rightarrow> string list \<Rightarrow> string \<Rightarrow> go_struct \<Rightarrow> 'i option \<Rightarrow>
    (node_write list, InstanceMeta) act" where
  "transform_and_publish env node nodeIPs nodeIP meta sysInfo =
     (case TransformNode (ie_transform env) (cc_Transformations (ie_config env)) sysInfo (Some meta) of
        (Err e, _) \<Rightarrow> fail_act (Errorf_w ''error transforming node'' e)
      | (Panic, _) \<Rightarrow> panic_act
      | (Ret nodeSpec, meta') \<Rightarrow>
          (case ie_GetNodeIfaces env nodeIP of
             Inl e \<Rightarrow> fail_act (Errorf_w ''error getting interfaces list from the node'' e)
           | Inr ifaces \<Rightarrow> publish env node nodeIPs (the meta') nodeSpec ifaces))"

definition get_sysinfo :: "('t, 'i) instance_env \<Rightarrow> string \<Rightarrow> (go_err, 'i option) outcome" where
  "get_sysinfo env nodeIP =
     (if cc_Transformations (ie_config env) = [] then Ret None
      else case ie_GetNodeSystemInfo env nodeIP of
        Inl e \<Rightarrow> Err (Errorf_w ''error getting system info from the node'' e)
      | Inr i \<Rightarrow> Ret (Some i))"

definition InstanceMetadata :: "('t, 'i) instance_env \<Rightarrow> Node \<Rightarrow> (node_write list, InstanceMeta) act" where
  "InstanceMetadata env node =
     (case node_Annotations node AnnotationAlphaProvidedIPAddr of
        None \<Rightarrow> ret_act empty_InstanceMeta
      | Some providedIP \<Rightarrow>
          let nodeIPs = PreferredDualStackNodeIPs (cc_PreferIPv6 (ie_config env)) (Split (CHR '','') providedIP)
          in case first_metadata (ie_GetNodeMetadata env) nodeIPs of
               None \<Rightarrow> fail_act (Errorf ''error getting metadata from the node'')
             | Some (nodeIP, meta0) \<Rightarrow>
                 bind_act (lift_act (complete_meta env node nodeIP meta0)) (\<lambda>meta.
                 bind_act (lift_act (get_sysinfo env nodeIP)) (\<lambda>sysInfo.
                 transform_and_publish env node nodeIPs nodeIP meta sysInfo)))"

section \<open>Facts\<close>

lemma taint_loop_eq:
  "taint_loop ts b = (if taintExists ts uninitializedTaint then None else Some (b \<or> taintExists ts notReadyTaint))"
  by (induction ts arbitrary: b) (auto simp: taintExists_def)

lemma to_update_add: "m ++ to_update m new = m ++ new"
  by (auto simp: fun_eq_iff to_update_def map_add_def split: option.splits)

lemma to_update_same: "to_update (m ++ new) new = Map.empty"
  by (auto simp: fun_eq_iff to_update_def map_add_def split: option.splits)

text \<open>What an accepted write makes of a node: a merge patch from old to new annotations, and added labels.\<close>

fun apply_write :: "node_write \<Rightarrow> Node \<Rightarrow> Node" where
  "apply_write (PatchAnnotations n old new) node = (if n = node_Name node then node\<lparr>node_Annotations := new\<rparr> else node)"
| "apply_write (UpdateLabels n ls) node = (if n = node_Name node then node\<lparr>node_Labels := node_Labels node ++ ls\<rparr> else node)"
| "apply_write (AddTaints n ts) node = node"

lemma snd_api_write [simp]: "snd (api_write env w ws) = ws @ [w]"
  by (simp add: api_write_def)

lemma snd_syncNodeLabels:
  "snd (syncNodeLabels env node ls ws) =
    ws @ (if to_update (node_Labels node) ls \<noteq> Map.empty then [UpdateLabels (node_Name node) (to_update (node_Labels node) ls)] else [])"
  by (auto simp: syncNodeLabels_def api_write_def Let_def split: option.splits)

lemma snd_syncNodeAnnotations:
  "snd (syncNodeAnnotations env node as ws) =
    ws @ (if to_update (node_Annotations node) as \<noteq> Map.empty
      then [PatchAnnotations (node_Name node) (node_Annotations node) (node_Annotations node ++ as)] else [])"
  by (auto simp: syncNodeAnnotations_def api_write_def Let_def to_update_add split: option.splits)

lemma snd_syncNodeTaints:
  "snd (syncNodeTaints env node ts ws) =
    ws @ [AddTaints (node_Name node) (map (\<lambda>k. taint_of k (the (ts k))) (ie_range env ts))]"
  by (simp add: syncNodeTaints_def)

lemma log_syncs:
  "log_act (syncNodeLabels env node ls) ws = (Ret (), snd (syncNodeLabels env node ls ws))"
  "log_act (syncNodeAnnotations env node ls) ws = (Ret (), snd (syncNodeAnnotations env node ls ws))"
  "log_act (syncNodeTaints env node ls) ws = (Ret (), snd (syncNodeTaints env node ls ws))"
  by (auto simp: log_act_def syncNodeLabels_def syncNodeAnnotations_def syncNodeTaints_def api_write_def Let_def
      split: option.splits)

definition annotation_writes :: "Node \<Rightarrow> NodeSpec \<Rightarrow> node_write list" where
  "annotation_writes node spec = (if to_update (node_Annotations node) (ns_Annotations spec) \<noteq> Map.empty
     then [PatchAnnotations (node_Name node) (node_Annotations node) (node_Annotations node ++ ns_Annotations spec)] else [])"

definition taint_writes :: "('t, 'i) instance_env \<Rightarrow> Node \<Rightarrow> NodeSpec \<Rightarrow> node_write list" where
  "taint_writes env node spec = (if ns_Taints spec \<noteq> Map.empty \<and> taintExists (spec_Taints node) uninitializedTaint
     then [AddTaints (node_Name node) (map (\<lambda>k. taint_of k (the (ns_Taints spec k))) (ie_range env (ns_Taints spec)))] else [])"

definition label_writes :: "Node \<Rightarrow> (string \<rightharpoonup> string) \<Rightarrow> node_write list" where
  "label_writes node ls = (if to_update (node_Labels node) ls \<noteq> Map.empty
     then [UpdateLabels (node_Name node) (to_update (node_Labels node) ls)] else [])"

definition publish_writes :: "('t, 'i) instance_env \<Rightarrow> Node \<Rightarrow> go_struct \<Rightarrow> NodeSpec \<Rightarrow> node_write list" where
  "publish_writes env node meta spec =
     annotation_writes node spec @ taint_writes env node spec @
     label_writes node (setTalosNodeLabels env (Some meta) ++ ns_Labels spec)"

lemma update_empty: "to_update m Map.empty = Map.empty"
  by (simp add: to_update_def fun_eq_iff)

lemma publish_steps:
  "(if ns_Annotations spec \<noteq> Map.empty
    then log_act (syncNodeAnnotations env node (ns_Annotations spec)) else ret_act ()) ws = (Ret (), ws @ annotation_writes node spec)"
  "(if ns_Taints spec \<noteq> Map.empty \<and> taintExists (spec_Taints node) uninitializedTaint
    then log_act (syncNodeTaints env node (ns_Taints spec)) else ret_act ()) ws = (Ret (), ws @ taint_writes env node spec)"
  "log_act (syncNodeLabels env node ls) ws = (Ret (), ws @ label_writes node ls)"
  by (auto simp: log_syncs snd_syncNodeAnnotations snd_syncNodeLabels snd_syncNodeTaints update_empty ret_act_def
      annotation_writes_def taint_writes_def label_writes_def)

lemma publish_eq:
  "publish env node nodeIPs meta spec ifaces ws =
    (Ret (instance_result env node nodeIPs meta spec ifaces), ws @ publish_writes env node meta spec)"
  unfolding publish_def bind_act_def publish_steps by (simp add: publish_writes_def ret_act_def bind_act_def publish_steps)

text \<open>Nothing depends on the answers to the writes.\<close>

lemma answer_irrelevant:
  "publish (env\<lparr>ie_answer := a\<rparr>) node nodeIPs meta spec ifaces = publish env node nodeIPs meta spec ifaces"
proof
  fix ws
  have "setTalosNodeLabels (env\<lparr>ie_answer := a\<rparr>) (Some meta) = setTalosNodeLabels env (Some meta)"
    by (simp add: setTalosNodeLabels_def Let_def)
  then show "publish (env\<lparr>ie_answer := a\<rparr>) node nodeIPs meta spec ifaces ws = publish env node nodeIPs meta spec ifaces ws"
    by (simp add: publish_eq instance_result_def publish_writes_def taint_writes_def)
qed

text \<open>The run of \<^verbatim>\<open>InstanceMetadata\<close> that succeeds, step by step.\<close>

lemma transform_and_publish_Ret:
  assumes "transform_and_publish env node nodeIPs nodeIP meta sysInfo ws = (Ret im, ws')"
  obtains spec meta' ifaces where
    "TransformNode (ie_transform env) (cc_Transformations (ie_config env)) sysInfo (Some meta) = (Ret spec, Some meta')"
    "publish env node nodeIPs meta' spec ifaces ws = (Ret im, ws')"
proof -
  obtain o' r where t: "TransformNode (ie_transform env) (cc_Transformations (ie_config env)) sysInfo (Some meta) = (o', r)"
    by (cases "TransformNode (ie_transform env) (cc_Transformations (ie_config env)) sysInfo (Some meta)")
  obtain spec where o': "o' = Ret spec"
    using assms t by (cases o') (simp_all add: transform_and_publish_def fail_act_def panic_act_def)
  obtain fs where r: "r = Some fs"
    using t by (auto simp: TransformNode_def Let_def split: if_splits prod.splits)
  obtain ifaces where "ie_GetNodeIfaces env nodeIP = Inr ifaces"
    using assms t o' by (cases "ie_GetNodeIfaces env nodeIP") (simp_all add: transform_and_publish_def fail_act_def)
  then show ?thesis using that [of spec fs ifaces] t o' r assms by (simp add: transform_and_publish_def)
qed

lemma InstanceMetadata_Ret:
  assumes "InstanceMetadata env node ws = (Ret im, ws')" and "node_Annotations node AnnotationAlphaProvidedIPAddr = Some s"
  obtains nodeIPs nodeIP meta0 meta sysInfo spec meta' ifaces where
    "nodeIPs = PreferredDualStackNodeIPs (cc_PreferIPv6 (ie_config env)) (Split (CHR '','') s)"
    "first_metadata (ie_GetNodeMetadata env) nodeIPs = Some (nodeIP, meta0)"
    "complete_meta env node nodeIP meta0 = Ret meta"
    "TransformNode (ie_transform env) (cc_Transformations (ie_config env)) sysInfo (Some meta) = (Ret spec, Some meta')"
    "publish env node nodeIPs meta' spec ifaces ws = (Ret im, ws')"
proof -
  let ?ips = "PreferredDualStackNodeIPs (cc_PreferIPv6 (ie_config env)) (Split (CHR '','') s)"
  obtain nodeIP meta0 where m: "first_metadata (ie_GetNodeMetadata env) ?ips = Some (nodeIP, meta0)"
    using assms by (cases "first_metadata (ie_GetNodeMetadata env) ?ips") (auto simp: InstanceMetadata_def fail_act_def)
  obtain meta sysInfo where c: "complete_meta env node nodeIP meta0 = Ret meta"
    and t: "transform_and_publish env node ?ips nodeIP meta sysInfo ws = (Ret im, ws')"
    using assms m by (auto simp: InstanceMetadata_def bind_act_Ret_iff)
  show ?thesis by (rule transform_and_publish_Ret [OF t]) (rule that [OF refl m c])
qed

text \<open>The fields of a struct under the changes that rules may make.\<close>

lemma str_field_kept:
  assumes "struct_kept names fs gs" and "ToLower n \<in> names"
  shows "str_field n gs = str_field n fs"
  using assms(1)
proof (induction fs gs rule: list_all2_induct)
  case (Cons f fs g gs)
  then show ?case using assms(2) by (auto simp: str_field_def field_kept_def)
qed simp

lemma str_field_set_other: "m \<noteq> n \<Longrightarrow> str_field m (set_str n v fs) = str_field m fs"
  by (induction fs) (auto simp: str_field_def set_str_def)

lemma complete_meta_platform:
  assumes "complete_meta env node nodeIP meta0 = Ret meta"
  shows "str_field ''Platform'' meta = str_field ''Platform'' meta0"
  using assms by (auto simp: complete_meta_def Let_def go_out str_field_set_other split: if_splits)

text \<open>Writes are made only by a run that succeeds.\<close>

lemma transform_and_publish_writes:
  "transform_and_publish env node nodeIPs nodeIP meta sysInfo ws = (r, ws') \<Longrightarrow> ws' = ws \<or> (\<exists>im. r = Ret im)"
  by (auto simp: transform_and_publish_def publish_eq fail_act_def panic_act_def split: prod.splits outcome.splits sum.splits)

lemma InstanceMetadata_writes:
  assumes "InstanceMetadata env node ws = (r, ws')" and "ws' \<noteq> ws"
  obtains s im where "node_Annotations node AnnotationAlphaProvidedIPAddr = Some s" and "r = Ret im"
proof -
  obtain s where s: "node_Annotations node AnnotationAlphaProvidedIPAddr = Some s"
    using assms by (cases "node_Annotations node AnnotationAlphaProvidedIPAddr") (auto simp: InstanceMetadata_def ret_act_def)
  let ?ips = "PreferredDualStackNodeIPs (cc_PreferIPv6 (ie_config env)) (Split (CHR '','') s)"
  obtain nodeIP meta0 where m: "first_metadata (ie_GetNodeMetadata env) ?ips = Some (nodeIP, meta0)"
    using assms s by (cases "first_metadata (ie_GetNodeMetadata env) ?ips") (auto simp: InstanceMetadata_def fail_act_def)
  obtain meta where c: "complete_meta env node nodeIP meta0 = Ret meta"
    using assms s m by (cases "complete_meta env node nodeIP meta0") (auto simp: InstanceMetadata_def act_defs)
  obtain i where i: "get_sysinfo env nodeIP = Ret i"
    using assms s m c by (cases "get_sysinfo env nodeIP") (auto simp: InstanceMetadata_def act_defs)
  have "transform_and_publish env node ?ips nodeIP meta i ws = (r, ws')"
    using assms(1) s m c i by (simp add: InstanceMetadata_def act_defs)
  then show ?thesis using transform_and_publish_writes assms(2) that [OF s] by blast
qed

lemma fold_publish_labels:
  "node_Labels (fold apply_write (publish_writes env node meta spec) node) =
    node_Labels node ++ (setTalosNodeLabels env (Some meta) ++ ns_Labels spec)" (is "_ = _ ++ ?ls")
proof -
  have "to_update (node_Labels node) ?ls = Map.empty \<Longrightarrow> node_Labels node ++ ?ls = node_Labels node"
    using to_update_add [of "node_Labels node" ?ls] by simp
  then show ?thesis
    by (simp add: publish_writes_def annotation_writes_def taint_writes_def label_writes_def to_update_add)
qed

section \<open>Properties\<close>

text \<open>
  \<^verbatim>\<open>InstanceExists\<close> gives a node up, so that it is deleted from the cluster, exactly when it is a
  GCP spot instance that is registered and initialised, older than thirty seconds and not ready.
\<close>

theorem InstanceExists_gives_up:
  "\<not> InstanceExists node delay \<longleftrightarrow>
    spec_ProviderID node \<noteq> '''' \<and> \<not> taintExists (spec_Taints node) uninitializedTaint \<and>
    taintExists (spec_Taints node) notReadyTaint \<and> 30000000000 \<le> delay \<and>
    node_Labels node ''node.cloudprovider.kubernetes.io/platform'' = Some ''gcp'' \<and>
    node_Labels node ''node.cloudprovider.kubernetes.io/lifecycle'' = Some ''spot''"
  by (simp add: InstanceExists_def taint_loop_eq initializedNodeDelay_def)

text \<open>
  C32: Writing annotations and labels converges: whatever the node has, after the write of the
  synchronisation has been applied the node has every entry of the specification and keeps its other
  ones, and synchronising again writes nothing.
\<close>

theorem sync_converges:
  "node_Labels (fold apply_write (snd (syncNodeLabels env node ls [])) node) = node_Labels node ++ ls \<and>
   syncNodeLabels env (fold apply_write (snd (syncNodeLabels env node ls [])) node) ls ws = (Ret (), ws) \<and>
   node_Annotations (fold apply_write (snd (syncNodeAnnotations env node as [])) node) = node_Annotations node ++ as \<and>
   syncNodeAnnotations env (fold apply_write (snd (syncNodeAnnotations env node as [])) node) as ws = (Ret (), ws)"
proof -
  have none: "to_update m new = Map.empty \<Longrightarrow> m = m ++ new" for m new
    using to_update_add [of m new] by simp
  have l: "node_Labels (fold apply_write (snd (syncNodeLabels env node ls [])) node) = node_Labels node ++ ls"
    using none [of "node_Labels node" ls] by (simp add: snd_syncNodeLabels to_update_add)
  have a: "node_Annotations (fold apply_write (snd (syncNodeAnnotations env node as [])) node) = node_Annotations node ++ as"
    using none [of "node_Annotations node" as] by (simp add: snd_syncNodeAnnotations)
  show ?thesis
    using l a by (simp add: syncNodeLabels_def [of env "fold apply_write _ _"] syncNodeAnnotations_def [of env "fold apply_write _ _"] to_update_same)
qed

text \<open>
  A failing write never costs a node its metadata: the result of \<^verbatim>\<open>InstanceMetadata\<close> and the writes it
  attempts are the same whatever the API server answers to them.
\<close>

theorem InstanceMetadata_survives_writes:
  "InstanceMetadata (env\<lparr>ie_answer := answers\<rparr>) node ws = InstanceMetadata env node ws"
proof -
  have "transform_and_publish (env\<lparr>ie_answer := answers\<rparr>) node nodeIPs nodeIP meta =
      transform_and_publish env node nodeIPs nodeIP meta" for nodeIPs nodeIP meta
    by (rule ext) (simp add: transform_and_publish_def answer_irrelevant split: prod.split outcome.split sum.split)
  moreover have "complete_meta (env\<lparr>ie_answer := answers\<rparr>) node nodeIP meta = complete_meta env node nodeIP meta"
    "get_sysinfo (env\<lparr>ie_answer := answers\<rparr>) nodeIP = get_sysinfo env nodeIP" for nodeIP meta
    by (simp_all add: complete_meta_def get_sysinfo_def Let_def)
  ultimately show ?thesis by (simp add: InstanceMetadata_def Let_def split: option.split)
qed

text \<open>\<^verbatim>\<open>range\<close> visits the keys of a map.\<close>

definition range_visits :: "('t, 'i) instance_env \<Rightarrow> bool" where
  "range_visits env \<longleftrightarrow> (\<forall>m. set (ie_range env m) \<subseteq> dom m)"

text \<open>
  C31: Taints are only ever added to a node that is not initialised yet, and never one of the eight
  keys that the code lists: six conditions of a node, and the two taints of the cloud provider. Other
  well-known keys, such as \<^verbatim>\<open>node.kubernetes.io/unschedulable\<close>, are not among them and are added.
\<close>

theorem taints_only_uninitialized:
  assumes "InstanceMetadata env node [] = (r, ws)" and "AddTaints n ts \<in> set ws"
    and "range_visits env" and "\<forall>t \<in> set (cc_Transformations (ie_config env)). distinct_keys t"
  shows "n = node_Name node \<and> taintExists (spec_Taints node) uninitializedTaint \<and>
    (\<forall>t \<in> set ts. taint_Key t \<notin>
       {''node.kubernetes.io/not-ready'', ''node.kubernetes.io/unreachable'', ''node.kubernetes.io/memory-pressure'',
        ''node.kubernetes.io/disk-pressure'', ''node.kubernetes.io/network-unavailable'', ''node.kubernetes.io/pid-pressure'',
        ''node.cloudprovider.kubernetes.io/uninitialized'', ''node.cloudprovider.kubernetes.io/shutdown''})"
proof -
  have "ws \<noteq> []" using assms(2) by auto
  then obtain s im where s: "node_Annotations node AnnotationAlphaProvidedIPAddr = Some s" and r: "r = Ret im"
    using InstanceMetadata_writes [OF assms(1)] by blast
  obtain nodeIPs meta sysInfo spec meta' ifaces where
    t: "TransformNode (ie_transform env) (cc_Transformations (ie_config env)) sysInfo (Some meta) = (Ret spec, Some meta')"
    and p: "publish env node nodeIPs meta' spec ifaces [] = (Ret im, ws)"
    using InstanceMetadata_Ret [OF assms(1) [unfolded r] s] by metis
  have "AddTaints n ts \<in> set (taint_writes env node spec)"
    using p assms(2) by (auto simp: publish_eq publish_writes_def annotation_writes_def label_writes_def split: if_splits)
  then have u: "taintExists (spec_Taints node) uninitializedTaint" "n = node_Name node"
    and ts: "ts = map (\<lambda>k. taint_of k (the (ns_Taints spec k))) (ie_range env (ns_Taints spec))"
    by (auto simp: taint_writes_def split: if_splits)
  have "isQualifiedTaintName (taint_Key (taint_of k (the (ns_Taints spec k)))) = []" if "k \<in> set (ie_range env (ns_Taints spec))" for k
  proof -
    have "k \<in> dom (ns_Taints spec)" using assms(3) that unfolding range_visits_def by blast
    then obtain v where "ns_Taints spec k = Some v" by blast
    from TransformNode_taint_names [OF assms(4) t this] show ?thesis by (simp add: taint_of_def Let_def)
  qed
  then show ?thesis unfolding isQualifiedTaintName_iff [symmetric] using u ts by simp
qed

text \<open>
  The platform label of a node is the platform that Talos reports: unless a rule sets that label
  itself, after the writes of a successful \<^verbatim>\<open>InstanceMetadata\<close> the node carries the platform of its metadata,
  whatever the rules say about the platform field.
\<close>

theorem platform_label_from_talos:
  assumes "InstanceMetadata env node [] = (Ret im, ws)"
    and "node_Annotations node AnnotationAlphaProvidedIPAddr = Some s"
    and "first_metadata (ie_GetNodeMetadata env) (PreferredDualStackNodeIPs (cc_PreferIPv6 (ie_config env)) (Split (CHR '','') s)) = Some (nodeIP, meta)"
    and "str_field ''Platform'' meta \<noteq> ''''"
    and "\<forall>t \<in> set (cc_Transformations (ie_config env)). distinct_keys t \<and> ClusterNodePlatformLabel \<notin> fst ` set (term_Labels t)"
  shows "node_Labels (fold apply_write ws node) ClusterNodePlatformLabel = Some (str_field ''Platform'' meta)"
proof -
  obtain nodeIPs ip meta0 meta1 sysInfo spec meta' ifaces where
    ips: "nodeIPs = PreferredDualStackNodeIPs (cc_PreferIPv6 (ie_config env)) (Split (CHR '','') s)"
    and m: "first_metadata (ie_GetNodeMetadata env) nodeIPs = Some (ip, meta0)"
    and c: "complete_meta env node ip meta0 = Ret meta1"
    and t: "TransformNode (ie_transform env) (cc_Transformations (ie_config env)) sysInfo (Some meta1) = (Ret spec, Some meta')"
    and p: "publish env node nodeIPs meta' spec ifaces [] = (Ret im, ws)"
    by (rule InstanceMetadata_Ret [OF assms(1,2)])
  have "meta0 = meta" using m assms(3) ips by simp
  then have m1: "str_field ''Platform'' meta1 = str_field ''Platform'' meta" using complete_meta_platform [OF c] by simp
  have "struct_kept (protected_names (metadata_keys (cc_Transformations (ie_config env)))) meta1 meta'"
    using TransformNode_struct_kept [of "ie_transform env" "cc_Transformations (ie_config env)" sysInfo meta1] t by simp
  moreover have "ToLower ''Platform'' \<in> protected_names ks" for ks by (simp add: protected_names_def demo_strings)
  ultimately have "str_field ''Platform'' meta' = str_field ''Platform'' meta"
    using str_field_kept m1 by fastforce
  then have "setTalosNodeLabels env (Some meta') ClusterNodePlatformLabel = Some (str_field ''Platform'' meta)"
    using assms(4) by (simp add: setTalosNodeLabels_def Let_def)
  moreover have "ns_Labels spec ClusterNodePlatformLabel = None"
    by (rule TransformNode_label_absent [OF assms(5) t])
  moreover have "ws = publish_writes env node meta' spec" using p by (simp add: publish_eq)
  ultimately show ?thesis by (simp add: fold_publish_labels map_add_def)
qed

subsection \<open>Witnesses\<close>

definition demo_instance_env :: "(string, unit) instance_env" where
  "demo_instance_env = \<lparr>ie_config = \<lparr>cc_ClusterName = '''', cc_PreferIPv6 = False, cc_Transformations = [demo_term]\<rparr>,
     ie_transform = demo_env, ie_GetNodeMetadata = (\<lambda>ip. Inr (demo_struct '''')), ie_GetNodeSystemInfo = (\<lambda>ip. Inr ()),
     ie_GetNodeIfaces = (\<lambda>ip. Inr []), ie_GetClusterName = ''c1'', ie_submatch = (\<lambda>_. []),
     ie_range = (\<lambda>m. filter (\<lambda>k. m k \<noteq> None) [''dedicated'']), ie_answer = (\<lambda>_. None)\<rparr>"

definition demo_instance_node :: Node where
  "demo_instance_node = (blank_node ''w1'')\<lparr>node_Annotations := [''alpha.kubernetes.io/provided-node-ip'' \<mapsto> ''10.0.0.1''],
     spec_Taints := [uninitializedTaint]\<rparr>"

lemma demo_ips: "PreferredDualStackNodeIPs False [''10.0.0.1''] = [''10.0.0.1'']"
  by code_simp

lemma demo_complete: "complete_meta demo_instance_env demo_instance_node ''10.0.0.1'' (demo_struct '''') = Ret (demo_struct '''')"
  by (simp add: complete_meta_def str_field_def set_str_def demo_struct_def)

lemma demo_TransformNode:
  "TransformNode demo_env [demo_term] (Some ()) (Some (demo_struct '''')) = (Ret demo_spec, Some (demo_struct ''z1''))"
  by (simp add: TransformNode_def demo_metadata)
    (simp add: demo_term_def demo_env_def demo_Match act_defs apply_maps_def annotation_value_def label_value_def taint_value_def
      executeTemplate_def demo_strings empty_NodeSpec_def demo_spec_def prohibitedPlatformMetadataKeys_def FieldByNameFunc_def
      demo_folds demo_struct_def set_field_def del: EqualFold.simps)

lemma demo_instance_fields [simp]:
  "ie_config demo_instance_env = \<lparr>cc_ClusterName = '''', cc_PreferIPv6 = False, cc_Transformations = [demo_term]\<rparr>"
  "ie_transform demo_instance_env = demo_env" "ie_GetNodeIfaces demo_instance_env ip = Inr []"
  "ie_GetNodeMetadata demo_instance_env ip = Inr (demo_struct '''')" "get_sysinfo demo_instance_env ip = Ret (Some ())"
  "node_Annotations demo_instance_node = [''alpha.kubernetes.io/provided-node-ip'' \<mapsto> ''10.0.0.1'']"
  by (simp_all add: demo_instance_env_def demo_instance_node_def get_sysinfo_def)

lemma demo_InstanceMetadata:
  "InstanceMetadata demo_instance_env demo_instance_node [] =
    (Ret (instance_result demo_instance_env demo_instance_node [''10.0.0.1''] (demo_struct ''z1'') demo_spec []),
     publish_writes demo_instance_env demo_instance_node (demo_struct ''z1'') demo_spec)"
  by (simp add: InstanceMetadata_def demo_ips demo_complete act_defs transform_and_publish_def demo_TransformNode publish_eq)

theorem taints_only_uninitialized_witness:
  "\<exists>ws n ts. snd (InstanceMetadata demo_instance_env demo_instance_node []) = ws \<and> AddTaints n ts \<in> set ws \<and> n = ''w1'' \<and>
     (\<forall>t \<in> set ts. taint_Key t \<noteq> ''node.cloudprovider.kubernetes.io/shutdown'')"
proof -
  let ?ws = "publish_writes demo_instance_env demo_instance_node (demo_struct ''z1'') demo_spec"
  let ?ts = "map (\<lambda>k. taint_of k (the (ns_Taints demo_spec k))) (ie_range demo_instance_env (ns_Taints demo_spec))"
  have "taintExists (spec_Taints demo_instance_node) uninitializedTaint"
    by (simp add: taintExists_def demo_instance_node_def MatchTaint_def)
  moreover have "ns_Taints demo_spec \<noteq> Map.empty" by (simp add: demo_spec_def)
  ultimately have w: "AddTaints ''w1'' ?ts \<in> set ?ws"
    by (simp add: publish_writes_def taint_writes_def demo_instance_node_def)
  have "range_visits demo_instance_env" by (auto simp: range_visits_def demo_instance_env_def)
  moreover have "\<forall>t \<in> set (cc_Transformations (ie_config demo_instance_env)). distinct_keys t"
    using demo_distinct by simp
  ultimately have "\<forall>t \<in> set ?ts. taint_Key t \<noteq> ''node.cloudprovider.kubernetes.io/shutdown''"
    using taints_only_uninitialized [OF demo_InstanceMetadata w] by blast
  then show ?thesis using w demo_InstanceMetadata by (intro exI [of _ ?ws] exI [of _ "''w1''"] exI [of _ ?ts]) simp
qed

theorem platform_label_from_talos_witness:
  "node_Labels (fold apply_write (snd (InstanceMetadata demo_instance_env demo_instance_node [])) demo_instance_node)
     ''node.cloudprovider.kubernetes.io/platform'' = Some ''metal''"
proof -
  have p: "str_field ''Platform'' (demo_struct '''') = ''metal''" by (simp add: str_field_def demo_struct_def)
  have "node_Labels (fold apply_write (publish_writes demo_instance_env demo_instance_node (demo_struct ''z1'') demo_spec) demo_instance_node)
      ClusterNodePlatformLabel = Some (str_field ''Platform'' (demo_struct ''''))"
  proof (rule platform_label_from_talos [OF demo_InstanceMetadata])
    show "\<forall>t \<in> set (cc_Transformations (ie_config demo_instance_env)). distinct_keys t \<and> ClusterNodePlatformLabel \<notin> fst ` set (term_Labels t)"
      by (simp add: demo_term_def distinct_keys_def)
    show "first_metadata (ie_GetNodeMetadata demo_instance_env)
        (PreferredDualStackNodeIPs (cc_PreferIPv6 (ie_config demo_instance_env)) (Split (CHR '','') ''10.0.0.1'')) =
        Some (''10.0.0.1'', demo_struct '''')"
      by (simp add: demo_ips)
  qed (simp_all add: p)
  then show ?thesis by (simp add: demo_InstanceMetadata p)
qed

end
