(* ===== verification/TalosClient.thy ===== *)
theory TalosClient
  imports Instances
begin

text \<open>
  The connection to Talos, \<^verbatim>\<open>pkg/talosclient/client.go\<close> up to \<^verbatim>\<open>GetClusterName\<close>, and the provider that owns it,
  \<^verbatim>\<open>pkg/talos/cloud.go\<close>.

  The outside world is the record \<open>talos_world\<close>: connecting, asking for the version, and reading resources, each with
  the number of the call, since the answers change over time. A connection is a value of the type \<open>'c\<close>. The retries are those
  of \<^verbatim>\<open>go-retry\<close>, a parameter; \<open>retries\<close> states what its documentation promises.
\<close>

section \<open>The outside world\<close>

datatype resource_type = ControllerManagerConfigType | AddressStatusType | PlatformMetadataType | SystemInformationType

text \<open>A resource by the type of its specification.\<close>

datatype 'i resource =
    ControllerManagerConfig "string list" "string list"
  | AddressStatus AddressStatusSpec
  | PlatformMetadata go_struct
  | SystemInformation 'i
  | OtherResource

record ('c, 'i) talos_world =
  tw_New :: "nat \<Rightarrow> string list option \<Rightarrow> go_err + 'c"
  tw_Version :: "nat \<Rightarrow> 'c \<Rightarrow> go_err option"
  tw_Get :: "nat \<Rightarrow> 'c \<Rightarrow> string option \<Rightarrow> resource_type \<Rightarrow> go_err + 'i resource"
  tw_List :: "nat \<Rightarrow> 'c \<Rightarrow> string option \<Rightarrow> resource_type \<Rightarrow> go_err + 'i resource list"
  tw_endpoints :: string

text \<open>The client, with the number of calls so far and the connections that were opened and closed.\<close>

record 'c Client =
  tc_talos :: 'c
  tc_calls :: nat
  tc_opened :: "'c list"
  tc_closed :: "'c list"

section \<open>Connecting\<close>

definition clientOpts :: "('c, 'i) talos_world \<Rightarrow> string list option" where
  "clientOpts world = (if tw_endpoints world \<noteq> '''' then Some (Split (CHR '','') (tw_endpoints world)) else None)"

definition talosclient_New :: "('c, 'i) talos_world \<Rightarrow> nat \<Rightarrow> go_err + 'c Client" where
  "talosclient_New world n =
     (case tw_New world n (clientOpts world) of
        Inl e \<Rightarrow> Inl e
      | Inr c \<Rightarrow> Inr \<lparr>tc_talos = c, tc_calls = Suc n, tc_opened = [c], tc_closed = []\<rparr>)"

definition refreshTalosClient :: "('c, 'i) talos_world \<Rightarrow> 'c Client \<Rightarrow> go_err option \<times> 'c Client" where
  "refreshTalosClient world c =
     (let c1 = c\<lparr>tc_calls := Suc (tc_calls c)\<rparr> in
      case tw_Version world (tc_calls c) (tc_talos c) of
        None \<Rightarrow> (None, c1)
      | Some _ \<Rightarrow>
          (case talosclient_New world (tc_calls c1) of
             Inl e \<Rightarrow> (Some (Errorf_v ''failed to reinitialized talos client'' e), c1\<lparr>tc_calls := Suc (tc_calls c1)\<rparr>)
           | Inr talos \<Rightarrow>
               (None, c1\<lparr>tc_talos := tc_talos talos, tc_calls := tc_calls talos,
                         tc_opened := tc_opened c1 @ tc_opened talos, tc_closed := tc_closed c1 @ [tc_talos c1]\<rparr>)))"

section \<open>Reading resources\<close>

definition GetPodCIDRs :: "('c, 'i) talos_world \<Rightarrow> ('c Client, string list) act" where
  "GetPodCIDRs world c =
     ((case tw_Get world (tc_calls c) (tc_talos c) None ControllerManagerConfigType of
         Inl e \<Rightarrow> Err e
       | Inr (ControllerManagerConfig podCIDRs serviceCIDRs) \<Rightarrow> Ret podCIDRs
       | Inr _ \<Rightarrow> Panic), c\<lparr>tc_calls := Suc (tc_calls c)\<rparr>)"

definition GetServiceCIDRs :: "('c, 'i) talos_world \<Rightarrow> ('c Client, string list) act" where
  "GetServiceCIDRs world c =
     ((case tw_Get world (tc_calls c) (tc_talos c) None ControllerManagerConfigType of
         Inl e \<Rightarrow> Err e
       | Inr (ControllerManagerConfig podCIDRs serviceCIDRs) \<Rightarrow> Ret serviceCIDRs
       | Inr _ \<Rightarrow> Panic), c\<lparr>tc_calls := Suc (tc_calls c)\<rparr>)"

text \<open>What one attempt of a retried function reports: success, an error to retry after, or one to give up on.\<close>

datatype attempt = Success | ExpectedError go_err | UnexpectedError go_err

text \<open>
  The function that is retried: the variable \<^verbatim>\<open>resources\<close> is part of its state and holds its zero value after an error.
\<close>

definition fetch :: "('c, 'i) talos_world \<Rightarrow> (nat \<Rightarrow> 'c \<Rightarrow> go_err + 'r) \<Rightarrow> 'c Client \<times> 'r option \<Rightarrow> attempt \<times> 'c Client \<times> 'r option" where
  "fetch world call s =
     (let c = fst s; c1 = c\<lparr>tc_calls := Suc (tc_calls c)\<rparr> in
      case call (tc_calls c) (tc_talos c) of
        Inr resources \<Rightarrow> (Success, c1, Some resources)
      | Inl listErr \<Rightarrow>
          (case refreshTalosClient world c1 of
             (Some err, c2) \<Rightarrow> (ExpectedError err, c2, None)
           | (None, c2) \<Rightarrow> (UnexpectedError listErr, c2, None)))"

type_synonym 's retrier = "('s \<Rightarrow> attempt \<times> 's) \<Rightarrow> 's \<Rightarrow> go_err option \<times> 's"

definition GetNodeIfaces :: "('c, 'i) talos_world \<Rightarrow> ('c Client \<times> 'i resource list option) retrier \<Rightarrow> string \<Rightarrow> ('c Client, AddressStatusSpec list) act" where
  "GetNodeIfaces world retry nodeIP c =
     (case retry (fetch world (\<lambda>n t. tw_List world n t (Some nodeIP) AddressStatusType)) (c, None) of
        (Some err, c', _) \<Rightarrow> (Err (Errorf_w ''error get resources'' err), c')
      | (None, c', resources) \<Rightarrow>
          (Ret (List.map_filter (\<lambda>res. case res of AddressStatus spec \<Rightarrow> Some spec | _ \<Rightarrow> None)
                  (case resources of Some items \<Rightarrow> items | None \<Rightarrow> [])), c'))"

definition GetNodeMetadata :: "('c, 'i) talos_world \<Rightarrow> ('c Client \<times> 'i resource option) retrier \<Rightarrow> string \<Rightarrow> ('c Client, go_struct) act" where
  "GetNodeMetadata world retry nodeIP c =
     (case retry (fetch world (\<lambda>n t. tw_Get world n t (Some nodeIP) PlatformMetadataType)) (c, None) of
        (Some err, c', _) \<Rightarrow> (Err (Errorf_w ''error get resources'' err), c')
      | (None, c', Some (PlatformMetadata meta)) \<Rightarrow> (Ret meta, c')
      | (None, c', _) \<Rightarrow> (Panic, c'))"

definition GetNodeSystemInfo :: "('c, 'i) talos_world \<Rightarrow> ('c Client \<times> 'i resource option) retrier \<Rightarrow> string \<Rightarrow> ('c Client, 'i) act" where
  "GetNodeSystemInfo world retry nodeIP c =
     (case retry (fetch world (\<lambda>n t. tw_Get world n t (Some nodeIP) SystemInformationType)) (c, None) of
        (Some err, c', _) \<Rightarrow> (Err (Errorf_w ''error get resources'' err), c')
      | (None, c', Some (SystemInformation info)) \<Rightarrow> (Ret info, c')
      | (None, c', _) \<Rightarrow> (Panic, c'))"

section \<open>The provider\<close>

text \<open>
  The client of the provider, with the account of its Kubernetes client once it is initialised, and the provider: the instances interface is that
  of \<open>Instances\<close> on the same client.
\<close>

record 'c provider_client =
  pc_config :: cloudConfig
  pc_talos :: "'c Client"
  pc_kclient :: "string option"

record 'c Cloud =
  cloud_client :: "'c provider_client"
  cloud_instancesV2 :: bool
  cloud_running :: bool

definition newClient :: "('c, 'i) talos_world \<Rightarrow> nat \<Rightarrow> cloudConfig option \<Rightarrow> go_err + 'c provider_client" where
  "newClient world n config =
     (case config of
        None \<Rightarrow> Inl (Errorf ''talos cloudConfig is nil'')
      | Some cfg \<Rightarrow>
          (case talosclient_New world n of
             Inl e \<Rightarrow> Inl e
           | Inr talos \<Rightarrow> Inr \<lparr>pc_config = cfg, pc_talos = talos, pc_kclient = None\<rparr>))"

definition newCloud :: "('c, 'i) talos_world \<Rightarrow> nat \<Rightarrow> cloudConfig option \<Rightarrow> go_err + 'c Cloud" where
  "newCloud world n config =
     (case newClient world n config of
        Inl e \<Rightarrow> Inl e
      | Inr client \<Rightarrow> Inr \<lparr>cloud_client = client, cloud_instancesV2 = True, cloud_running = False\<rparr>)"

text \<open>The function that is registered for the provider's name.\<close>

definition init_provider :: "(string \<Rightarrow> go_err + cloudConfig) \<Rightarrow> ('c, 'i) talos_world \<Rightarrow> nat \<Rightarrow> string option \<Rightarrow> go_err + 'c Cloud" where
  "init_provider decode world n config =
     (case readCloudConfig decode config of Inl e \<Rightarrow> Inl e | Inr cfg \<Rightarrow> newCloud world n (Some cfg))"

definition Initialize :: "string \<Rightarrow> 'c Cloud \<Rightarrow> 'c Cloud" where
  "Initialize serviceAccountEnv c =
     c\<lparr>cloud_client := (cloud_client c)\<lparr>pc_kclient :=
         Some (if serviceAccountEnv = '''' then ''talos-cloud-controller-manager'' else serviceAccountEnv)\<rparr>, cloud_running := True\<rparr>"

text \<open>The interfaces of a cloud provider and whether they are supported.\<close>

datatype cloud_interface = LoadBalancer | InstancesV1 | InstancesV2 | Zones | Clusters | Routes

fun supports :: "cloud_interface \<Rightarrow> 'c Cloud \<Rightarrow> bool" where
  "supports LoadBalancer c = False"
| "supports InstancesV1 c = False"
| "supports InstancesV2 c = cloud_instancesV2 c"
| "supports Zones c = False"
| "supports Clusters c = False"
| "supports Routes c = False"

section \<open>What the retries promise\<close>

text \<open>
  The state after \<open>n\<close> attempts. A retrier makes some number of attempts, goes on only after an error that is marked
  as expected, and reports no error exactly if the last attempt succeeded. When it gives up on expected errors is its own affair.
\<close>

definition after :: "('s \<Rightarrow> attempt \<times> 's) \<Rightarrow> nat \<Rightarrow> 's \<Rightarrow> 's" where
  "after f n = (snd \<circ> f) ^^ n"

definition retries :: "'s retrier \<Rightarrow> bool" where
  "retries retry \<longleftrightarrow> (\<forall>f s. \<exists>n. (\<forall>i<n. \<exists>e. fst (f (after f i s)) = ExpectedError e) \<and> snd (retry f s) = after f (Suc n) s \<and>
     (fst (retry f s) = None \<longleftrightarrow> fst (f (after f n s)) = Success))"

lemma retriesE:
  assumes "retries retry"
  obtains n where "\<forall>i<n. \<exists>e. fst (f (after f i s)) = ExpectedError e" "snd (retry f s) = snd (f (after f n s))"
    "fst (retry f s) = None \<longleftrightarrow> fst (f (after f n s)) = Success"
proof -
  obtain n where "\<forall>i<n. \<exists>e. fst (f (after f i s)) = ExpectedError e" "snd (retry f s) = after f (Suc n) s"
    "fst (retry f s) = None \<longleftrightarrow> fst (f (after f n s)) = Success"
    using assms unfolding retries_def by blast
  then show ?thesis using that [of n] by (simp add: after_def)
qed

lemma after_keeps: "(\<And>s. P s \<Longrightarrow> P (snd (f s))) \<Longrightarrow> P s \<Longrightarrow> P (after f n s)"
  by (induction n) (simp_all add: after_def)

lemma retry_keeps:
  assumes "retries retry" and "\<And>s. P s \<Longrightarrow> P (snd (f s))" and "P s"
  shows "P (snd (retry f s))"
proof -
  obtain n where "snd (retry f s) = snd (f (after f n s))" by (rule retriesE [OF assms(1)])
  then show ?thesis using assms(2) after_keeps [of P f, OF assms(2,3)] by simp
qed

section \<open>Connections\<close>

text \<open>Every connection but the current one is closed, and only those.\<close>

definition balanced :: "'c Client \<Rightarrow> bool" where
  "balanced c \<longleftrightarrow> tc_opened c = tc_closed c @ [tc_talos c]"

lemma refresh_balanced: "balanced c \<Longrightarrow> balanced (snd (refreshTalosClient world c))"
  by (auto simp: balanced_def refreshTalosClient_def talosclient_New_def Let_def split: option.split sum.split)

lemma fetch_balanced: "balanced (fst s) \<Longrightarrow> balanced (fst (snd (fetch world call s)))"
  using refresh_balanced [of "(fst s)\<lparr>tc_calls := Suc (tc_calls (fst s))\<rparr>" world]
  by (auto simp: fetch_def balanced_def Let_def split: sum.split prod.split option.split)

lemma retry_fetch_balanced:
  "retries retry \<Longrightarrow> balanced c \<Longrightarrow> balanced (fst (snd (retry (fetch world call) (c, None))))"
  using retry_keeps [of retry "\<lambda>s. balanced (fst s)" "fetch world call" "(c, None)"] by (simp add: fetch_balanced)

text \<open>The clients of a run: connected once, then used for any calls in any order.\<close>

inductive client_reach :: "('c, 'i) talos_world \<Rightarrow> 'c Client \<Rightarrow> bool" for world where
  connect: "talosclient_New world n = Inr c \<Longrightarrow> client_reach world c"
| pods: "client_reach world c \<Longrightarrow> client_reach world (snd (GetPodCIDRs world c))"
| services: "client_reach world c \<Longrightarrow> client_reach world (snd (GetServiceCIDRs world c))"
| ifaces: "client_reach world c \<Longrightarrow> retries retry \<Longrightarrow> client_reach world (snd (GetNodeIfaces world retry ip c))"
| metadata: "client_reach world c \<Longrightarrow> retries retry' \<Longrightarrow> client_reach world (snd (GetNodeMetadata world retry' ip c))"
| sysinfo: "client_reach world c \<Longrightarrow> retries retry' \<Longrightarrow> client_reach world (snd (GetNodeSystemInfo world retry' ip c))"

lemma call_state:
  "snd (GetNodeIfaces world retry ip c) = fst (snd (retry (fetch world (\<lambda>n t. tw_List world n t (Some ip) AddressStatusType)) (c, None)))"
  "snd (GetNodeMetadata world retry' ip c) = fst (snd (retry' (fetch world (\<lambda>n t. tw_Get world n t (Some ip) PlatformMetadataType)) (c, None)))"
  "snd (GetNodeSystemInfo world retry' ip c) = fst (snd (retry' (fetch world (\<lambda>n t. tw_Get world n t (Some ip) SystemInformationType)) (c, None)))"
  by (auto simp: GetNodeIfaces_def GetNodeMetadata_def GetNodeSystemInfo_def split: prod.split option.split resource.split)

text \<open>
  C36: Used by one goroutine, one call after another, a client never leaks a connection and never closes the one it uses: after any
  calls, in any order and whatever Talos answers, the connections opened so far are those closed, in the same order, followed by
  the current one. The client has no lock: for calls that overlap the statement is false (the next property). It says nothing of
  callers that make a client and drop it, as the cloud allocator does on every node, without ever closing its connection.
\<close>

theorem connections_balanced:
  assumes "client_reach world c"
  shows "tc_opened c = tc_closed c @ [tc_talos c]"
proof -
  have "balanced c"
    using assms
  proof induction
    case (connect n c)
    then show ?case by (auto simp: balanced_def talosclient_New_def split: sum.splits)
  qed (simp_all add: call_state retry_fetch_balanced, simp_all add: balanced_def GetPodCIDRs_def GetServiceCIDRs_def)
  then show ?thesis by (simp add: balanced_def)
qed

section \<open>Goroutines that share a client\<close>

text \<open>
  \<^verbatim>\<open>refreshTalosClient\<close> in the steps between which another goroutine can run: the check of the version, the new connection, closing
  what \<^verbatim>\<open>c.talos\<close> holds by then, and the assignment. The client is shared and has no lock.
\<close>

datatype 'c refresh_pc = RVersion | RNew | RClose 'c | RAssign 'c | RDone "go_err option"

fun refresh_step :: "('c, 'i) talos_world \<Rightarrow> 'c refresh_pc \<times> 'c Client \<Rightarrow> 'c refresh_pc \<times> 'c Client" where
  "refresh_step world (RVersion, c) =
     ((case tw_Version world (tc_calls c) (tc_talos c) of None \<Rightarrow> RDone None | Some _ \<Rightarrow> RNew), c\<lparr>tc_calls := Suc (tc_calls c)\<rparr>)"
| "refresh_step world (RNew, c) =
     (case tw_New world (tc_calls c) (clientOpts world) of
        Inl e \<Rightarrow> (RDone (Some (Errorf_v ''failed to reinitialized talos client'' e)), c\<lparr>tc_calls := Suc (tc_calls c)\<rparr>)
      | Inr t \<Rightarrow> (RClose t, c\<lparr>tc_calls := Suc (tc_calls c), tc_opened := tc_opened c @ [t]\<rparr>))"
| "refresh_step world (RClose t, c) = (RAssign t, c\<lparr>tc_closed := tc_closed c @ [tc_talos c]\<rparr>)"
| "refresh_step world (RAssign t, c) = (RDone None, c\<lparr>tc_talos := t\<rparr>)"
| "refresh_step world (RDone r, c) = (RDone r, c)"

text \<open>Undisturbed, the steps are the function.\<close>

lemma refresh_alone:
  "(refresh_step world ^^ 4) (RVersion, c) = (RDone (fst (refreshTalosClient world c)), snd (refreshTalosClient world c))"
  by (simp add: numeral_eq_Suc refreshTalosClient_def talosclient_New_def Let_def split: option.split sum.split)

text \<open>One step of one of the goroutines that are refreshing the client.\<close>

inductive refreshing :: "('c, 'i) talos_world \<Rightarrow> 'c refresh_pc list \<times> 'c Client \<Rightarrow> 'c refresh_pc list \<times> 'c Client \<Rightarrow> bool" for world where
  run: "i < length pcs \<Longrightarrow> refresh_step world (pcs ! i, c) = (pc, c') \<Longrightarrow> refreshing world (pcs, c) (pcs[i := pc], c')"

lemma refreshing_pair:
  "refresh_step world (p, c) = (p', c') \<Longrightarrow> refreshing world ([p, q], c) ([p', q], c')"
  "refresh_step world (q, c) = (q', c') \<Longrightarrow> refreshing world ([p, q], c) ([p, q'], c')"
  using run [of 0 "[p, q]" world c p' c'] run [of 1 "[p, q]" world c q' c'] by simp_all

lemma refreshing_both:
  assumes "refresh_step world (p, c) = (p', c1)" and "refresh_step world (q, c1) = (q', c2)"
  shows "(refreshing world)\<^sup>*\<^sup>* ([p, q], c) ([p', q'], c2)"
proof (rule rtranclp.rtrancl_into_rtrancl)
  show "(refreshing world)\<^sup>*\<^sup>* ([p, q], c) ([p', q], c1)" by (rule r_into_rtranclp) (rule refreshing_pair(1) [OF assms(1)])
  show "refreshing world ([p', q], c1) ([p', q'], c2)" by (rule refreshing_pair(2) [OF assms(2)])
qed

text \<open>
  C37: Two goroutines that refresh a shared client at the same time can close its old connection twice and leak a new one: if both find the
  connection broken and connect anew before either has closed it, there is an interleaving in which both close the old
  connection, both report success, and the connection of the one that assigns first is neither closed nor in use.
\<close>

theorem concurrent_refresh_leaks:
  assumes "tc_opened c = tc_closed c @ [tc_talos c]"
    and "tw_Version world (tc_calls c) (tc_talos c) = Some e" and "tw_Version world (tc_calls c + 1) (tc_talos c) = Some e'"
    and "tw_New world (tc_calls c + 2) (clientOpts world) = Inr t" and "tw_New world (tc_calls c + 3) (clientOpts world) = Inr t'"
    and "t \<notin> set (tc_opened c)" and "t \<noteq> t'"
  shows "\<exists>c'. (refreshing world)\<^sup>*\<^sup>* ([RVersion, RVersion], c) ([RDone None, RDone None], c') \<and>
    tc_closed c' = tc_closed c @ [tc_talos c, tc_talos c] \<and>
    t \<in> set (tc_opened c') \<and> t \<notin> set (tc_closed c') \<and> t \<noteq> tc_talos c'"
proof -
  let ?c2 = "c\<lparr>tc_calls := tc_calls c + 2\<rparr>"
  let ?c4 = "c\<lparr>tc_calls := tc_calls c + 4, tc_opened := tc_opened c @ [t, t']\<rparr>"
  let ?c6 = "?c4\<lparr>tc_closed := tc_closed c @ [tc_talos c, tc_talos c]\<rparr>"
  let ?R = "(refreshing world)\<^sup>*\<^sup>*"
  have "?R ([RVersion, RVersion], c) ([RNew, RNew], ?c2)"
    using assms(2,3) by (intro refreshing_both [of _ _ _ _ "c\<lparr>tc_calls := tc_calls c + 1\<rparr>"]) simp_all
  moreover have "?R ([RNew, RNew], ?c2) ([RClose t, RClose t'], ?c4)"
    using assms(4,5)
    by (intro refreshing_both [of _ _ _ _ "c\<lparr>tc_calls := tc_calls c + 3, tc_opened := tc_opened c @ [t]\<rparr>"]) (simp_all add: numeral_eq_Suc)
  moreover have "?R ([RClose t, RClose t'], ?c4) ([RAssign t, RAssign t'], ?c6)"
    by (intro refreshing_both [of _ _ _ _ "?c4\<lparr>tc_closed := tc_closed c @ [tc_talos c]\<rparr>"]) simp_all
  moreover have "?R ([RAssign t, RAssign t'], ?c6) ([RDone None, RDone None], ?c6\<lparr>tc_talos := t'\<rparr>)"
    by (intro refreshing_both [of _ _ _ _ "?c6\<lparr>tc_talos := t\<rparr>"]) simp_all
  ultimately have "?R ([RVersion, RVersion], c) ([RDone None, RDone None], ?c6\<lparr>tc_talos := t'\<rparr>)" by (blast intro: rtranclp_trans)
  moreover have "t \<notin> set (tc_closed c)" "t \<noteq> tc_talos c" using assms(1,6) by auto
  ultimately show ?thesis using assms(7) by (intro exI [of _ "?c6\<lparr>tc_talos := t'\<rparr>"]) simp
qed

text \<open>A registered provider offers the instances interface and nothing else, on a client in a reachable state.\<close>

lemma init_provider_ready:
  assumes "init_provider decode world n config = Inr c"
  shows "supports i (Initialize account c) \<longleftrightarrow> i = InstancesV2" and "client_reach world (pc_talos (cloud_client (Initialize account c)))"
    and "pc_kclient (cloud_client (Initialize account c)) \<noteq> None"
  using assms
  by (cases i; auto simp: init_provider_def newCloud_def newClient_def Initialize_def split: sum.splits intro: client_reach.connect)+

section \<open>Answers\<close>

text \<open>The attempt that ended the retries.\<close>

lemma fetch_Success:
  assumes "fst (fetch world call s) = Success"
  obtains r where "call (tc_calls (fst s)) (tc_talos (fst s)) = Inr r"
    "snd (fetch world call s) = ((fst s)\<lparr>tc_calls := Suc (tc_calls (fst s))\<rparr>, Some r)"
  using assms by (auto simp: fetch_def Let_def split: sum.splits prod.splits option.splits)

lemma address_entries:
  "set (List.map_filter (\<lambda>res. case res of AddressStatus spec \<Rightarrow> Some spec | _ \<Rightarrow> None) items) = {spec. AddressStatus spec \<in> set items}"
  by (induction items) (auto simp: List.map_filter_simps split: resource.splits)

lemma GetNodeIfaces_Ret:
  assumes "retries retry" and "GetNodeIfaces world retry ip c = (Ret ifaces, c')"
  shows "\<exists>n items. tw_List world n (tc_talos c') (Some ip) AddressStatusType = Inr items \<and> tc_calls c' = Suc n \<and>
    set ifaces = {spec. AddressStatus spec \<in> set items}"
proof -
  let ?f = "fetch world (\<lambda>n t. tw_List world n t (Some ip) AddressStatusType)"
  obtain n where n: "snd (retry ?f (c, None)) = snd (?f (after ?f n (c, None)))"
    "fst (retry ?f (c, None)) = None \<longleftrightarrow> fst (?f (after ?f n (c, None))) = Success"
    by (rule retriesE [OF assms(1), of ?f "(c, None)"])
  define s where "s = after ?f n (c, None)"
  have "fst (?f s) = Success"
    using assms(2) n(2) by (auto simp: GetNodeIfaces_def s_def split: prod.splits option.splits)
  then obtain items where items: "tw_List world (tc_calls (fst s)) (tc_talos (fst s)) (Some ip) AddressStatusType = Inr items"
    "snd (?f s) = ((fst s)\<lparr>tc_calls := Suc (tc_calls (fst s))\<rparr>, Some items)"
    by (rule fetch_Success)
  have "snd (retry ?f (c, None)) = ((fst s)\<lparr>tc_calls := Suc (tc_calls (fst s))\<rparr>, Some items)"
    using n(1) items(2) by (simp add: s_def)
  then have "c' = (fst s)\<lparr>tc_calls := Suc (tc_calls (fst s))\<rparr>"
    "ifaces = List.map_filter (\<lambda>res. case res of AddressStatus spec \<Rightarrow> Some spec | _ \<Rightarrow> None) items"
    using assms(2) by (auto simp: GetNodeIfaces_def split: prod.splits option.splits)
  then show ?thesis using items(1) by (auto simp: address_entries)
qed

lemma GetNodeIfaces_refreshed:
  assumes "retries retry" and "tw_List world (tc_calls c) (tc_talos c) (Some ip) AddressStatusType = Inl e"
    and "refreshTalosClient world (c\<lparr>tc_calls := Suc (tc_calls c)\<rparr>) = (None, c2)"
  shows "\<exists>e'. GetNodeIfaces world retry ip c = (Err e', c2)"
proof -
  let ?f = "fetch world (\<lambda>n t. tw_List world n t (Some ip) AddressStatusType)"
  obtain n where n: "\<forall>i<n. \<exists>e. fst (?f (after ?f i (c, None))) = ExpectedError e"
    "snd (retry ?f (c, None)) = snd (?f (after ?f n (c, None)))"
    "fst (retry ?f (c, None)) = None \<longleftrightarrow> fst (?f (after ?f n (c, None))) = Success"
    by (rule retriesE [OF assms(1), of ?f "(c, None)"])
  have f: "?f (c, None) = (UnexpectedError e, c2, None)" using assms(2,3) by (simp add: fetch_def)
  have "n = 0" using n(1) f by (cases n) (auto simp: after_def)
  then have "snd (retry ?f (c, None)) = (c2, None)" "fst (retry ?f (c, None)) \<noteq> None"
    using n(2,3) f by (simp_all add: after_def)
  then show ?thesis by (auto simp: GetNodeIfaces_def split: prod.splits)
qed

text \<open>
  C38: \<^verbatim>\<open>GetNodeIfaces\<close> returns the address entries of one successful answer, given by the connection that the client has afterwards, and never
  panics. But a read that fails is not repeated once the connection works again: if checking or replacing the connection
  succeeds, the call ends with an error after this single read.
\<close>

theorem GetNodeIfaces_reads:
  assumes "retries retry" and "GetNodeIfaces world retry ip c = (res, c')"
  shows "(\<forall>ifaces. res = Ret ifaces \<longrightarrow> (\<exists>n items. tw_List world n (tc_talos c') (Some ip) AddressStatusType = Inr items \<and>
      tc_calls c' = Suc n \<and> set ifaces = {spec. AddressStatus spec \<in> set items})) \<and> res \<noteq> Panic \<and>
    (\<forall>e c2. tw_List world (tc_calls c) (tc_talos c) (Some ip) AddressStatusType = Inl e \<longrightarrow>
      refreshTalosClient world (c\<lparr>tc_calls := Suc (tc_calls c)\<rparr>) = (None, c2) \<longrightarrow> (\<exists>e'. res = Err e') \<and> c' = c2)"
proof (intro conjI allI impI)
  show "res \<noteq> Panic" using assms(2) by (auto simp: GetNodeIfaces_def split: prod.splits option.splits)
next
  fix ifaces assume "res = Ret ifaces"
  then show "\<exists>n items. tw_List world n (tc_talos c') (Some ip) AddressStatusType = Inr items \<and> tc_calls c' = Suc n \<and>
      set ifaces = {spec. AddressStatus spec \<in> set items}"
    using GetNodeIfaces_Ret [OF assms(1)] assms(2) by blast
next
  fix e c2
  assume "tw_List world (tc_calls c) (tc_talos c) (Some ip) AddressStatusType = Inl e"
    "refreshTalosClient world (c\<lparr>tc_calls := Suc (tc_calls c)\<rparr>) = (None, c2)"
  from GetNodeIfaces_refreshed [OF assms(1) this] show "\<exists>e'. res = Err e'" "c' = c2" using assms(2) by auto
qed

section \<open>Witnesses\<close>

text \<open>A retrier that makes at most \<open>k + 1\<close> attempts.\<close>

fun retry_upto :: "nat \<Rightarrow> 's retrier" where
  "retry_upto 0 f s =
     (case f s of (Success, s') \<Rightarrow> (None, s') | (UnexpectedError e, s') \<Rightarrow> (Some e, s') | (ExpectedError e, s') \<Rightarrow> (Some e, s'))"
| "retry_upto (Suc k) f s =
     (case f s of (Success, s') \<Rightarrow> (None, s') | (UnexpectedError e, s') \<Rightarrow> (Some e, s') | (ExpectedError e, s') \<Rightarrow> retry_upto k f s')"

lemma retry_upto_runs:
  "\<exists>n. (\<forall>i<n. \<exists>e. fst (f (after f i s)) = ExpectedError e) \<and> snd (retry_upto k f s) = after f (Suc n) s \<and>
     (fst (retry_upto k f s) = None \<longleftrightarrow> fst (f (after f n s)) = Success)"
proof (induction k arbitrary: s)
  case 0
  show ?case by (intro exI [of _ 0]) (auto simp: after_def split: prod.split attempt.split)
next
  case (Suc k)
  obtain a s' where fs: "f s = (a, s')" by (cases "f s")
  have sh: "after f (Suc i) s = after f i s'" for i using fs by (simp add: after_def funpow_swap1)
  show ?case
  proof (cases a)
    case (ExpectedError e)
    obtain n where n: "\<forall>i<n. \<exists>e. fst (f (after f i s')) = ExpectedError e" "snd (retry_upto k f s') = after f (Suc n) s'"
      "fst (retry_upto k f s') = None \<longleftrightarrow> fst (f (after f n s')) = Success" using Suc.IH by blast
    have "\<exists>e. fst (f (after f i s)) = ExpectedError e" if i: "i < Suc n" for i
      using i n(1) fs ExpectedError sh by (cases i) (auto simp: after_def [of _ 0])
    then show ?thesis using n fs ExpectedError sh by (intro exI [of _ "Suc n"]) simp
  qed (use fs in \<open>auto simp: after_def intro!: exI [of _ 0]\<close>)
qed

lemma retry_upto_retries: "retries (retry_upto k)"
  unfolding retries_def by (intro allI retry_upto_runs)

text \<open>A world in which the first connection goes stale and the later ones answer.\<close>

definition stale_world :: "(nat, unit) talos_world" where
  "stale_world = \<lparr>tw_New = \<lambda>n _. Inr n, tw_Version = \<lambda>_ c. if c = 0 then Some (Errorf ''unavailable'') else None,
     tw_Get = \<lambda>_ _ _ _. Inl (Errorf ''unavailable''),
     tw_List = \<lambda>_ c _ _. if c = 0 then Inl (Errorf ''unavailable'') else Inr [], tw_endpoints = ''''\<rparr>"

definition stale_client :: "nat Client" where
  "stale_client = \<lparr>tc_talos = 0, tc_calls = 1, tc_opened = [0], tc_closed = []\<rparr>"

definition fresh_client :: "nat Client" where
  "fresh_client = \<lparr>tc_talos = 3, tc_calls = 4, tc_opened = [0, 3], tc_closed = [0]\<rparr>"

lemma stale_runs:
  "talosclient_New stale_world 0 = Inr stale_client"
  "refreshTalosClient stale_world (stale_client\<lparr>tc_calls := Suc (tc_calls stale_client)\<rparr>) = (None, fresh_client)"
  by (simp_all add: talosclient_New_def refreshTalosClient_def stale_world_def stale_client_def fresh_client_def)

theorem GetNodeIfaces_reads_witness:
  "\<exists>e. GetNodeIfaces stale_world (retry_upto 100) ''10.0.0.1'' stale_client = (Err e, fresh_client)"
proof -
  obtain res c' where r: "GetNodeIfaces stale_world (retry_upto 100) ''10.0.0.1'' stale_client = (res, c')" by fastforce
  have "tw_List stale_world (tc_calls stale_client) (tc_talos stale_client) (Some ''10.0.0.1'') AddressStatusType = Inl (Errorf ''unavailable'')"
    by (simp add: stale_world_def stale_client_def)
  then have "(\<exists>e. res = Err e) \<and> c' = fresh_client" using GetNodeIfaces_reads [OF retry_upto_retries r] stale_runs(2) by simp
  then show ?thesis using r by auto
qed

theorem concurrent_refresh_leaks_witness:
  "\<exists>c'. (refreshing stale_world)\<^sup>*\<^sup>* ([RVersion, RVersion], stale_client) ([RDone None, RDone None], c') \<and>
     tc_closed c' = [0, 0] \<and> 3 \<in> set (tc_opened c') \<and> 3 \<notin> set (tc_closed c') \<and> tc_talos c' \<noteq> 3"
proof -
  have "\<exists>c'. (refreshing stale_world)\<^sup>*\<^sup>* ([RVersion, RVersion], stale_client) ([RDone None, RDone None], c') \<and>
    tc_closed c' = tc_closed stale_client @ [tc_talos stale_client, tc_talos stale_client] \<and>
    3 \<in> set (tc_opened c') \<and> 3 \<notin> set (tc_closed c') \<and> 3 \<noteq> tc_talos c'"
    by (rule concurrent_refresh_leaks [where e = "Errorf ''unavailable''" and e' = "Errorf ''unavailable''" and t' = 4])
      (simp_all add: stale_world_def stale_client_def)
  then show ?thesis by (auto simp: stale_client_def)
qed

theorem connections_balanced_witness:
  "tc_opened fresh_client = tc_closed fresh_client @ [tc_talos fresh_client] \<and>
   snd (GetNodeIfaces stale_world (retry_upto 100) ''10.0.0.1'' stale_client) = fresh_client"
proof -
  have "tw_List stale_world (tc_calls stale_client) (tc_talos stale_client) (Some ''10.0.0.1'') AddressStatusType = Inl (Errorf ''unavailable'')"
    by (simp add: stale_world_def stale_client_def)
  from GetNodeIfaces_refreshed [OF retry_upto_retries [of 100] this stale_runs(2)]
  have s: "snd (GetNodeIfaces stale_world (retry_upto 100) ''10.0.0.1'' stale_client) = fresh_client" by auto
  have "client_reach stale_world (snd (GetNodeIfaces stale_world (retry_upto 100) ''10.0.0.1'' stale_client))"
    by (rule client_reach.ifaces [OF client_reach.connect [OF stale_runs(1)] retry_upto_retries])
  then show ?thesis using connections_balanced [of stale_world fresh_client] s by simp
qed

end
