(* ===== verification/TemplateFuncs.thy ===== *)
theory TemplateFuncs
  imports NodeSelector
begin

text \<open>
  The functions that templates of the transformer may call (\<^verbatim>\<open>transformer/functions.go\<close>): defaults on
  values of any type, strings, regular expressions, base64 and the lookup in a list of settings, and the map of
  their names. The regular
  expression engine is a parameter: \<open>None\<close> where \<^verbatim>\<open>regexp.Compile\<close> fails, otherwise the method of the
  compiled expression. Executing a template turns a panic of a function into an error of the template.
\<close>

section \<open>Values of any type\<close>

datatype go_any = ANil | ABool bool | AString string | AInt int | ASlice "go_any list option"

text \<open>\<^verbatim>\<open>empty\<close>: the nil interface and the zero values; a slice is zero when it is nil, not when it has no elements.\<close>

fun empty :: "go_any \<Rightarrow> bool" where
  "empty ANil \<longleftrightarrow> True"
| "empty (ABool b) \<longleftrightarrow> \<not> b"
| "empty (AString s) \<longleftrightarrow> s = ''''"
| "empty (AInt i) \<longleftrightarrow> i = 0"
| "empty (ASlice xs) \<longleftrightarrow> xs = None"

text \<open>The variadic argument is a slice: nil, or with elements; indexing an empty one panics.\<close>

definition defaultFunc :: "go_any \<Rightarrow> go_any list option \<Rightarrow> ('e, go_any) outcome" where
  "defaultFunc d given =
     (if empty (ASlice given) then Ret d
      else case the given of
        [] \<Rightarrow> Panic
      | g # _ \<Rightarrow> Ret (if empty g then d else g))"

fun coalesce :: "go_any list \<Rightarrow> go_any" where
  "coalesce [] = ANil"
| "coalesce (v # vs) = (if \<not> empty v then v else coalesce vs)"

definition ternary :: "go_any \<Rightarrow> go_any \<Rightarrow> bool \<Rightarrow> go_any" where
  "ternary vt vf v = (if v then vt else vf)"

section \<open>Regular expressions\<close>

text \<open>Go's \<^verbatim>\<open>int\<close> addition wraps at 64 bits.\<close>

definition wrap64 :: "int \<Rightarrow> int" where
  "wrap64 i = signed_take_bit 63 i"

definition regexFindString :: "(string \<Rightarrow> go_err + (string \<Rightarrow> string list)) \<Rightarrow> string \<Rightarrow> string \<Rightarrow> int \<Rightarrow> (go_err, string) outcome" where
  "regexFindString FindStringSubmatch regex s n =
     (case FindStringSubmatch regex of
        Inl e \<Rightarrow> Err e
      | Inr r \<Rightarrow>
          (let matches = r s in
           if int (length matches) < wrap64 (n + 1) then Ret ''''
           else if n < 0 \<or> int (length matches) \<le> n then Panic
           else Ret (matches ! nat n)))"

definition regexReplaceAll :: "(string \<Rightarrow> go_err + (string \<Rightarrow> string \<Rightarrow> string)) \<Rightarrow> string \<Rightarrow> string \<Rightarrow> string \<Rightarrow> (go_err, string) outcome" where
  "regexReplaceAll ReplaceAllString regex s repl =
     (case ReplaceAllString regex of Inl e \<Rightarrow> Err e | Inr r \<Rightarrow> Ret (r s repl))"

definition regexFind :: "(string \<Rightarrow> go_err + (string \<Rightarrow> string)) \<Rightarrow> string \<Rightarrow> string \<Rightarrow> (go_err, string) outcome" where
  "regexFind FindString regex s = (case FindString regex of Inl e \<Rightarrow> Err e | Inr r \<Rightarrow> Ret (r s))"

section \<open>Base64\<close>

text \<open>The standard encoding of \<^verbatim>\<open>encoding/base64\<close>, with padding; decoding skips line breaks.\<close>

definition b64_char :: "nat \<Rightarrow> char" where
  "b64_char n =
     (if n < 26 then char_of (65 + n)
      else if n < 52 then char_of (71 + n)
      else if n < 62 then char_of (n - 4)
      else if n = 62 then CHR ''+'' else CHR ''/'')"

definition b64_val :: "char \<Rightarrow> nat option" where
  "b64_val c =
     (let n = code c in
      if 65 \<le> n \<and> n \<le> 90 then Some (n - 65)
      else if 97 \<le> n \<and> n \<le> 122 then Some (n - 71)
      else if 48 \<le> n \<and> n \<le> 57 then Some (n + 4)
      else if c = CHR ''+'' then Some 62
      else if c = CHR ''/'' then Some 63
      else None)"

abbreviation "pad \<equiv> CHR ''=''"

fun encode_quanta :: "string \<Rightarrow> string" where
  "encode_quanta [] = []"
| "encode_quanta [a] =
     (let v = code a * 65536 in [b64_char (v div 262144), b64_char (v div 4096 mod 64), pad, pad])"
| "encode_quanta [a, b] =
     (let v = code a * 65536 + code b * 256
      in [b64_char (v div 262144), b64_char (v div 4096 mod 64), b64_char (v div 64 mod 64), pad])"
| "encode_quanta (a # b # c # s) =
     (let v = code a * 65536 + code b * 256 + code c
      in b64_char (v div 262144) # b64_char (v div 4096 mod 64) # b64_char (v div 64 mod 64) # b64_char (v mod 64) #
         encode_quanta s)"

definition byte_at :: "nat \<Rightarrow> nat \<Rightarrow> char" where
  "byte_at v k = char_of (v div 256 ^ k mod 256)"

fun decode_quanta :: "string \<Rightarrow> string option" where
  "decode_quanta [] = Some []"
| "decode_quanta (a # b # c # d # s) =
     (case (b64_val a, b64_val b) of
        (Some x, Some y) \<Rightarrow>
          (if c = pad then
             (if d = pad \<and> s = [] then Some [byte_at (x * 262144 + y * 4096) 2] else None)
           else case b64_val c of
             None \<Rightarrow> None
           | Some z \<Rightarrow>
               (if d = pad then
                  (if s = [] then Some [byte_at (x * 262144 + y * 4096 + z * 64) 2, byte_at (x * 262144 + y * 4096 + z * 64) 1] else None)
                else case (b64_val d, decode_quanta s) of
                  (Some w, Some r) \<Rightarrow>
                    (let v = x * 262144 + y * 4096 + z * 64 + w in Some (byte_at v 2 # byte_at v 1 # byte_at v 0 # r))
                | _ \<Rightarrow> None))
      | _ \<Rightarrow> None)"
| "decode_quanta _ = None"

definition base64encode :: "string \<Rightarrow> string" where
  "base64encode v = encode_quanta v"

definition base64decode :: "string \<Rightarrow> (go_err, string) outcome" where
  "base64decode v =
     (case decode_quanta (filter (\<lambda>c. code c \<noteq> 10 \<and> code c \<noteq> 13) v) of
        None \<Rightarrow> Err (Errorf ''illegal base64 data'')
      | Some data \<Rightarrow> Ret data)"

section \<open>Settings\<close>

text \<open>\<^verbatim>\<open>getValue\<close>: the value of the first \<^verbatim>\<open>key=value\<close> of a list separated by semicolons; a part
  with the key alone has no \<^verbatim>\<open>kv[1]\<close>.\<close>

fun find_value :: "string list \<Rightarrow> string \<Rightarrow> ('e, string) outcome" where
  "find_value [] key = Ret ''''"
| "find_value (part # parts) key =
     (let kv = Split (CHR ''='') part in
      if hd kv = key then (if length kv < 2 then Panic else Ret (kv ! 1)) else find_value parts key)"

definition getValue :: "string \<Rightarrow> string \<Rightarrow> ('e, string) outcome" where
  "getValue source key = find_value (Split (CHR '';'') source) key"

section \<open>Functions on strings\<close>

definition upper_char :: "char \<Rightarrow> char" where
  "upper_char c = (if 97 \<le> code c \<and> code c \<le> 122 then char_of (code c - 32) else c)"

definition ToUpper :: "string \<Rightarrow> string" where
  "ToUpper s = map upper_char s"

definition TrimPrefix :: "string \<Rightarrow> string \<Rightarrow> string" where
  "TrimPrefix s p = (if HasPrefix s p then drop (length p) s else s)"

definition TrimSuffix :: "string \<Rightarrow> string \<Rightarrow> string" where
  "TrimSuffix s p = (if HasSuffix s p then take (length s - length p) s else s)"

text \<open>\<^verbatim>\<open>strings.ReplaceAll\<close>: matches from the left that do not overlap; the text to replace matches before every character and at the end when it is empty.\<close>

fun replace_skip :: "nat \<Rightarrow> string \<Rightarrow> string \<Rightarrow> string \<Rightarrow> string" where
  "replace_skip k [] old new = []"
| "replace_skip (Suc k) (c # s) old new = replace_skip k s old new"
| "replace_skip 0 (c # s) old new =
     (if HasPrefix (c # s) old then new @ replace_skip (length old - 1) s old new else c # replace_skip 0 s old new)"

definition ReplaceAll :: "string \<Rightarrow> string \<Rightarrow> string \<Rightarrow> string" where
  "ReplaceAll s old new =
     (if old = '''' then concat (map (\<lambda>c. new @ [c]) s) @ new else replace_skip 0 s old new)"

section \<open>The map of functions\<close>

record regex_env =
  re_FindString :: "string \<Rightarrow> go_err + (string \<Rightarrow> string)"
  re_FindStringSubmatch :: "string \<Rightarrow> go_err + (string \<Rightarrow> string list)"
  re_ReplaceAllString :: "string \<Rightarrow> go_err + (string \<Rightarrow> string \<Rightarrow> string)"

type_synonym template_func = "go_any list \<Rightarrow> (go_err, go_any) outcome"

text \<open>The template engine calls a function on values and reports a wrong number or type of them as an error.\<close>

definition bad_args :: "(go_err, go_any) outcome" where
  "bad_args = Err (Errorf ''wrong number or type of args'')"

definition str1 :: "(string \<Rightarrow> (go_err, go_any) outcome) \<Rightarrow> template_func" where
  "str1 f args = (case args of [AString a] \<Rightarrow> f a | _ \<Rightarrow> bad_args)"

definition str2 :: "(string \<Rightarrow> string \<Rightarrow> (go_err, go_any) outcome) \<Rightarrow> template_func" where
  "str2 f args = (case args of [AString a, AString b] \<Rightarrow> f a b | _ \<Rightarrow> bad_args)"

definition str3 :: "(string \<Rightarrow> string \<Rightarrow> string \<Rightarrow> (go_err, go_any) outcome) \<Rightarrow> template_func" where
  "str3 f args = (case args of [AString a, AString b, AString c] \<Rightarrow> f a b c | _ \<Rightarrow> bad_args)"

definition to_any :: "(go_err, string) outcome \<Rightarrow> (go_err, go_any) outcome" where
  "to_any m = bind_out m (\<lambda>s. Ret (AString s))"

definition genericMap :: "regex_env \<Rightarrow> (string \<times> template_func) list" where
  "genericMap re =
     [(''default'', \<lambda>args. case args of d # given \<Rightarrow> defaultFunc d (if given = [] then None else Some given) | [] \<Rightarrow> bad_args),
      (''empty'', \<lambda>args. case args of [v] \<Rightarrow> Ret (ABool (empty v)) | _ \<Rightarrow> bad_args),
      (''coalesce'', \<lambda>args. Ret (coalesce args)),
      (''ternary'', \<lambda>args. case args of [vt, vf, ABool v] \<Rightarrow> Ret (ternary vt vf v) | _ \<Rightarrow> bad_args),
      (''upper'', str1 (\<lambda>s. Ret (AString (ToUpper s)))),
      (''lower'', str1 (\<lambda>s. Ret (AString (ToLower s)))),
      (''trim'', str1 (\<lambda>s. Ret (AString (TrimSpace s)))),
      (''trimSuffix'', str2 (\<lambda>a b. Ret (AString (TrimSuffix b a)))),
      (''trimPrefix'', str2 (\<lambda>a b. Ret (AString (TrimPrefix b a)))),
      (''replace'', str3 (\<lambda>old n s. Ret (AString (ReplaceAll s old n)))),
      (''regexFind'', str2 (\<lambda>r s. to_any (regexFind (re_FindString re) r s))),
      (''regexFindString'', \<lambda>args. case args of
          [AString r, AString s, AInt n] \<Rightarrow> to_any (regexFindString (re_FindStringSubmatch re) r s n) | _ \<Rightarrow> bad_args),
      (''regexReplaceAll'', str3 (\<lambda>r s repl. to_any (regexReplaceAll (re_ReplaceAllString re) r s repl))),
      (''contains'', str2 (\<lambda>substr str. Ret (ABool (Contains str substr)))),
      (''hasPrefix'', str2 (\<lambda>substr str. Ret (ABool (HasPrefix str substr)))),
      (''hasSuffix'', str2 (\<lambda>substr str. Ret (ABool (HasSuffix str substr)))),
      (''b64enc'', str1 (\<lambda>s. Ret (AString (base64encode s)))),
      (''b64dec'', str1 (\<lambda>s. to_any (base64decode s))),
      (''getValue'', str2 (\<lambda>source key. to_any (getValue source key)))]"

definition GenericFuncMap :: "regex_env \<Rightarrow> (string \<rightharpoonup> template_func)" where
  "GenericFuncMap re = map_of (genericMap re)"

section \<open>Properties\<close>

lemma b64_val_char: "n < 64 \<Longrightarrow> b64_val (b64_char n) = Some n"
proof -
  have "\<forall>n \<in> set [0..<64]. b64_val (b64_char n) = Some n" by code_simp
  then show "n < 64 \<Longrightarrow> b64_val (b64_char n) = Some n" by simp
qed

lemma b64_char_plain: "n < 64 \<Longrightarrow> b64_char n \<noteq> pad \<and> code (b64_char n) \<noteq> 10 \<and> code (b64_char n) \<noteq> 13"
proof -
  have "\<forall>n \<in> set [0..<64]. b64_char n \<noteq> pad \<and> code (b64_char n) \<noteq> 10 \<and> code (b64_char n) \<noteq> 13" by code_simp
  then show "n < 64 \<Longrightarrow> b64_char n \<noteq> pad \<and> code (b64_char n) \<noteq> 10 \<and> code (b64_char n) \<noteq> 13" by simp
qed

lemma code_less [simp]: "code c < 256"
  by (simp add: code_def)

lemma char_of_code [simp]: "char_of (code c) = c"
  by (simp add: code_def)

lemma sextet_less: "v < 16777216 \<Longrightarrow> v div 262144 < (64::nat)"
  by (simp add: less_mult_imp_div_less)

text \<open>Four sextets put a 24-bit number together again, and three bytes are read off it.\<close>

lemma sextets: "v div 262144 * 262144 + v div 4096 mod 64 * 4096 + v div 64 mod 64 * 64 + v mod 64 = (v::nat)"
proof -
  have "v div 262144 * 64 + v div 4096 mod 64 = v div 4096"
    using div_mult_mod_eq [of "v div 4096" 64] by (simp add: div_mult2_eq [symmetric])
  moreover have "v div 4096 * 64 + v div 64 mod 64 = v div 64"
    using div_mult_mod_eq [of "v div 64" 64] by (simp add: div_mult2_eq [symmetric])
  moreover have "v div 64 * 64 + v mod 64 = v" by simp
  ultimately show ?thesis by linarith
qed

lemma byte_at_sum:
  assumes "v = code a * 65536 + code b * 256 + code c"
  shows "byte_at v 2 = a" and "byte_at v 1 = b" and "byte_at v 0 = c" and "v < 16777216"
proof -
  have "v div 256 = code a * 256 + code b" using assms code_less [of c] by (simp add: div_add1_eq)
  moreover from this have "v div 65536 = code a"
    using div_mult2_eq [of v 256 256] code_less [of b] by simp
  ultimately show "byte_at v 2 = a" and "byte_at v 1 = b"
    using code_less [of a] code_less [of b] by (simp_all add: byte_at_def)
  have "v mod 256 = code c" using assms code_less [of c] by (simp add: mod_add_eq [symmetric] del: mod_add_eq)
  then show "byte_at v 0 = c" unfolding byte_at_def by (metis char_of_code div_by_1 power_0)
  show "v < 16777216"
    using assms code_less [of a] code_less [of b] code_less [of c] by linarith
qed

lemma sextets_padded:
  "v = a * 65536 \<Longrightarrow> v div 262144 * 262144 + v div 4096 mod 64 * 4096 = (v::nat)"
  "w = a * 65536 + b * 256 \<Longrightarrow> w div 262144 * 262144 + w div 4096 mod 64 * 4096 + w div 64 mod 64 * 64 = (w::nat)"
proof -
  assume "v = a * 65536"
  then have v: "v = 64 * (64 * (16 * a))" by simp
  have "v div 64 mod 64 = 0" "v mod 64 = 0" unfolding v by simp_all
  then show "v div 262144 * 262144 + v div 4096 mod 64 * 4096 = v" using sextets [of v] by linarith
next
  assume "w = a * 65536 + b * 256"
  then have w: "w = 64 * (1024 * a + 4 * b)" by simp
  have "w mod 64 = 0" unfolding w by simp
  then show "w div 262144 * 262144 + w div 4096 mod 64 * 4096 + w div 64 mod 64 * 64 = w"
    using sextets [of w] by linarith
qed

lemma code_pad: "code pad \<noteq> 10" "code pad \<noteq> 13"
  by (simp_all add: code_def)

lemma decode_encode: "decode_quanta (encode_quanta s) = Some s"
proof (induction s rule: encode_quanta.induct)
  case (2 a)
  let ?v = "code a * 65536"
  have v: "?v = code a * 65536 + code (char_of (0::nat)) * 256 + code (char_of (0::nat))" by simp
  note b = byte_at_sum [OF v]
  show ?case
    using b sextet_less [OF b(4)] sextets_padded(1) [of ?v "code a"] by (simp add: Let_def b64_val_char)
next
  case (3 a b)
  let ?v = "code a * 65536 + code b * 256"
  have v: "?v = code a * 65536 + code b * 256 + code (char_of (0::nat))" by simp
  note b = byte_at_sum [OF v]
  show ?case
    using b sextet_less [OF b(4)] sextets_padded(2) [of ?v "code a" "code b"] b64_char_plain [of "?v div 64 mod 64"]
    by (simp add: Let_def b64_val_char)
next
  case (4 a b c s)
  let ?v = "code a * 65536 + code b * 256 + code c"
  note b = byte_at_sum [of ?v a b c, OF refl]
  show ?case
    using 4 b sextet_less [OF b(4)] sextets [of ?v] b64_char_plain [of "?v div 64 mod 64"] b64_char_plain [of "?v mod 64"]
    by (simp add: Let_def b64_val_char)
qed simp

lemma encode_plain: "\<forall>c \<in> set (encode_quanta s). code c \<noteq> 10 \<and> code c \<noteq> 13"
proof (induction s rule: encode_quanta.induct)
  case (2 a)
  then show ?case using sextet_less [OF byte_at_sum(4) [of "code a * 65536" a "char_of (0::nat)" "char_of (0::nat)"]]
    by (simp add: Let_def b64_char_plain code_pad)
next
  case (3 a b)
  then show ?case
    using sextet_less [OF byte_at_sum(4) [of "code a * 65536 + code b * 256" a b "char_of (0::nat)"]]
    by (simp add: Let_def b64_char_plain code_pad)
next
  case (4 a b c s)
  then show ?case
    using sextet_less [OF byte_at_sum(4) [of "code a * 65536 + code b * 256 + code c" a b c]]
    by (simp add: Let_def b64_char_plain)
qed simp

text \<open>
  Decoding what \<^verbatim>\<open>b64enc\<close> wrote gives back the string, for strings of any bytes and any length,
  and the encoding consists of whole groups of four characters.
\<close>

theorem base64_roundtrip: "base64decode (base64encode s) = Ret s \<and> length (base64encode s) = 4 * ((length s + 2) div 3)"
proof
  have "filter (\<lambda>c. code c \<noteq> 10 \<and> code c \<noteq> 13) (encode_quanta s) = encode_quanta s"
    using encode_plain by (intro filter_True) simp
  then show "base64decode (base64encode s) = Ret s"
    by (simp add: base64decode_def base64encode_def decode_encode)
  show "length (base64encode s) = 4 * ((length s + 2) div 3)"
    unfolding base64encode_def
  proof (induction s rule: encode_quanta.induct)
    case (4 a b c s)
    have "(length (a # b # c # s) + 2) div 3 = Suc ((length s + 2) div 3)"
      using div_add_self2 [of 3 "length s + 2"] by simp
    then show ?case using 4 by (simp only: encode_quanta.simps Let_def list.size) simp
  qed (simp_all add: Let_def)
qed

definition show_settings :: "(string \<times> string) list \<Rightarrow> string" where
  "show_settings kvs = Join '';'' (map (\<lambda>(k, v). k @ ''='' @ v) kvs)"

lemma Split_setting:
  "CHR ''='' \<notin> set k \<Longrightarrow> CHR ''='' \<notin> set v \<Longrightarrow> Split (CHR ''='') (k @ ''='' @ v) = [k, v]"
  by (simp add: Split_append Split_no_sep)

lemma find_value_settings:
  assumes "\<forall>(k, v) \<in> set kvs. CHR ''='' \<notin> set k \<and> CHR ''='' \<notin> set v"
  shows "find_value (map (\<lambda>(k, v). k @ ''='' @ v) kvs) key = Ret (case map_of kvs key of None \<Rightarrow> '''' | Some v \<Rightarrow> v)"
  using assms by (induction kvs) (auto simp: Split_setting [simplified] Let_def)

text \<open>The key of a setting is what stands before its first equals sign, and its value what follows up to the next one.\<close>

lemma Split_takeWhile:
  "Split sep s = (if sep \<in> set s then takeWhile (\<lambda>c. c \<noteq> sep) s # Split sep (tl (dropWhile (\<lambda>c. c \<noteq> sep) s)) else [s])"
proof (cases "sep \<in> set s")
  case True
  then obtain p r where s: "s = p @ sep # r" "sep \<notin> set p" by (metis split_list_first)
  have "takeWhile (\<lambda>c. c \<noteq> sep) s = p" "dropWhile (\<lambda>c. c \<noteq> sep) s = sep # r"
    unfolding s(1) using s(2) by (subst takeWhile_append2 dropWhile_append2; auto)+
  then show ?thesis using s by (simp add: Split_append)
qed (simp add: Split_no_sep)

lemma hd_Split: "hd (Split sep s) = takeWhile (\<lambda>c. c \<noteq> sep) s"
proof (cases "sep \<in> set s")
  case False
  then have all: "takeWhile (\<lambda>c. c \<noteq> sep) s = s" unfolding takeWhile_eq_all_conv by blast
  show ?thesis unfolding Split_no_sep [OF False] all by simp
qed (simp add: Split_takeWhile [of sep s])

lemma Split_second:
  assumes "sep \<in> set s"
  shows "length (Split sep s) \<ge> 2 \<and> Split sep s ! 1 = takeWhile (\<lambda>c. c \<noteq> sep) (tl (dropWhile (\<lambda>c. c \<noteq> sep) s))"
proof -
  let ?r = "tl (dropWhile (\<lambda>c. c \<noteq> sep) s)"
  have "Split sep s = takeWhile (\<lambda>c. c \<noteq> sep) s # Split sep ?r" using assms Split_takeWhile [of sep s] by simp
  then show ?thesis using hd_Split [of sep ?r] by (cases "Split sep ?r") simp_all
qed

text \<open>
  C27: What \<^verbatim>\<open>getValue\<close> makes of any text: of the parts between the semicolons the first counts whose text before the equals sign is the
  key. The value is the text after that sign, up to a second one if there is one, so a value with an equals sign is cut. A part
  that is the key alone makes the function panic, and without such a part the value is empty.
\<close>

theorem getValue_decides:
  "getValue source key =
    (case find (\<lambda>part. takeWhile (\<lambda>c. c \<noteq> CHR ''='') part = key) (Split (CHR '';'') source) of
       None \<Rightarrow> Ret ''''
     | Some part \<Rightarrow>
         if CHR ''='' \<in> set part then Ret (takeWhile (\<lambda>c. c \<noteq> CHR ''='') (tl (dropWhile (\<lambda>c. c \<noteq> CHR ''='') part)))
         else Panic)"
proof -
  have "find_value parts key = (case find (\<lambda>part. takeWhile (\<lambda>c. c \<noteq> CHR ''='') part = key) parts of
       None \<Rightarrow> Ret ''''
     | Some part \<Rightarrow>
         if CHR ''='' \<in> set part then Ret (takeWhile (\<lambda>c. c \<noteq> CHR ''='') (tl (dropWhile (\<lambda>c. c \<noteq> CHR ''='') part)))
         else Panic)" for parts
  proof (induction parts)
    case (Cons p parts)
    then show ?case using Split_second [of "CHR ''=''" p] Split_no_sep [of "CHR ''=''" p] by (auto simp: hd_Split Let_def)
  qed simp
  then show ?thesis by (simp add: getValue_def)
qed

text \<open>
  \<^verbatim>\<open>getValue\<close> on settings written as \<^verbatim>\<open>key=value\<close> separated by semicolons returns the value of the
  first setting with the key, and the empty string if there is none.
\<close>

theorem getValue_finds:
  assumes "kvs \<noteq> []" and "\<forall>(k, v) \<in> set kvs. set (k @ v) \<inter> {CHR ''='', CHR '';''} = {}"
  shows "getValue (show_settings kvs) key = Ret (case map_of kvs key of None \<Rightarrow> '''' | Some v \<Rightarrow> v)"
proof -
  have "Split (CHR '';'') (show_settings kvs) = map (\<lambda>(k, v). k @ ''='' @ v) kvs"
    unfolding show_settings_def using assms by (intro Split_Join) auto
  then show ?thesis
    unfolding getValue_def using assms(2) by (simp only:) (rule find_value_settings, auto)
qed

theorem getValue_finds_witness: "getValue ''cpu=4;disk=ssd'' ''disk'' = (Ret ''ssd'' :: (go_err, string) outcome)"
  using getValue_finds [of "[(''cpu'', ''4''), (''disk'', ''ssd'')]" "''disk''"] by (simp add: show_settings_def)

section \<open>Properties of the functions on strings\<close>

lemma HasPrefix_append [simp]: "HasPrefix (p @ s) p"
  by (simp add: HasPrefix_def)

lemma trim_inverse: "TrimPrefix (p @ s) p = s" "TrimSuffix (s @ p) p = s"
  by (simp_all add: TrimPrefix_def TrimSuffix_def HasSuffix_def)

lemma ReplaceAll_absent: "old \<noteq> '''' \<Longrightarrow> \<not> Contains s old \<Longrightarrow> ReplaceAll s old new = s"
  unfolding ReplaceAll_def by (induction s) auto

text \<open>Replacing one character joins the parts that it separates.\<close>

lemma ReplaceAll_char: "ReplaceAll s [c] new = Join new (Split c s)"
proof (induction s)
  case (Cons d s)
  have split: "Split c s \<noteq> []" by simp
  show ?case
  proof (cases "d = c")
    case True
    then show ?thesis using Cons split by (cases "Split c s") (simp_all add: ReplaceAll_def HasPrefix_def)
  next
    case False
    obtain p ps where ps: "Split c s = p # ps" using split by (cases "Split c s") auto
    then have "Join new ((d # p) # ps) = d # Join new (p # ps)" by (cases ps) simp_all
    then show ?thesis using Cons False ps by (simp add: ReplaceAll_def HasPrefix_def)
  qed
qed (simp add: ReplaceAll_def)

text \<open>Only two functions of the map can panic: \<^verbatim>\<open>getValue\<close> and \<^verbatim>\<open>regexFindString\<close>.\<close>

lemma str_total:
  "(\<And>a. f a \<noteq> Panic) \<Longrightarrow> str1 f args \<noteq> Panic" "(\<And>a b. g a b \<noteq> Panic) \<Longrightarrow> str2 g args \<noteq> Panic"
  "(\<And>a b c. h a b c \<noteq> Panic) \<Longrightarrow> str3 h args \<noteq> Panic"
  by (simp_all add: str1_def str2_def str3_def bad_args_def split: list.split go_any.split)

lemma to_any_Panic [simp]: "to_any m = Panic \<longleftrightarrow> m = Panic"
  by (cases m) (simp_all add: to_any_def)

lemma func_total:
  "(case args of d # given \<Rightarrow> defaultFunc d (if given = [] then None else Some given) | [] \<Rightarrow> bad_args) \<noteq> Panic"
  "(case args of [v] \<Rightarrow> Ret (ABool (empty v)) | _ \<Rightarrow> bad_args) \<noteq> Panic"
  "(case args of [vt, vf, ABool v] \<Rightarrow> Ret (ternary vt vf v) | _ \<Rightarrow> bad_args) \<noteq> Panic"
  "regexFind fs r t \<noteq> Panic" "regexReplaceAll ra r t u \<noteq> Panic" "base64decode t \<noteq> Panic"
  by (auto simp: defaultFunc_def bad_args_def regexFind_def regexReplaceAll_def base64decode_def
      split: list.split go_any.split sum.split option.split)

lemma template_panics:
  assumes "GenericFuncMap re name = Some f" and "f args = Panic"
  shows "name = ''getValue'' \<or> name = ''regexFindString''"
proof -
  have "list_all (\<lambda>(n, f). n = ''getValue'' \<or> n = ''regexFindString'' \<or> (\<forall>args. f args \<noteq> Panic)) (genericMap re)"
    unfolding genericMap_def by (simp add: str_total func_total)
  moreover have "(name, f) \<in> set (genericMap re)" using assms(1) by (auto simp: GenericFuncMap_def dest: map_of_SomeD)
  ultimately show ?thesis using assms(2) by (auto simp: list_all_iff)
qed

end
