(* ===== verification/CsrApproval.thy ===== *)
theory CsrApproval
  imports NodeSelector
begin

text \<open>
  Package \<^verbatim>\<open>certificatesigningrequest\<close> and its provider check \<^verbatim>\<open>CSRNodeChecks\<close> of \<^verbatim>\<open>pkg/talos/helper.go\<close>:
  the controller that approves or denies the serving certificates of kubelets. Decoding PEM and parsing
  X.509 requests are parameters, the nodes of the API server are a function from names. The interface
  between the controller and the provider check is the locale \<open>provider_checks\<close>.
\<close>

section \<open>Requests\<close>

record CsrSpec =
  csr_SignerName :: string
  csr_Request :: string
  csr_Username :: string
  csr_Usages :: "string list"

record CsrCondition =
  csrc_Type :: string
  csrc_Status :: string
  csrc_Reason :: string
  csrc_Message :: string

record CSR =
  csr_Name :: string
  csr_Spec :: CsrSpec
  csr_Certificate :: string
  csr_Conditions :: "CsrCondition list"

record CertificateRequest =
  x_DNSNames :: "string list"
  x_IPAddresses :: "IP list"
  x_EmailAddresses :: "string list"
  x_URIs :: "string list"
  x_Organization :: "string list"
  x_CommonName :: string

record Verdict =
  Valid :: bool
  Message :: string

abbreviation "KubeletServingSignerName \<equiv> ''kubernetes.io/kubelet-serving''"
abbreviation "UsageKeyEncipherment \<equiv> ''key encipherment''"
abbreviation "UsageDigitalSignature \<equiv> ''digital signature''"
abbreviation "UsageServerAuth \<equiv> ''server auth''"

text \<open>\<^verbatim>\<open>IP.Equal\<close>: an IPv4 address and its IPv6-mapped form are equal.\<close>

fun ip_Equal :: "IP \<Rightarrow> IP \<Rightarrow> bool" where
  "ip_Equal (IP4 a) (IP4 b) \<longleftrightarrow> a = b"
| "ip_Equal (IP16 a) (IP16 b) \<longleftrightarrow> a = b"
| "ip_Equal (IP4 a) (IP16 b) \<longleftrightarrow> is4in6 b \<and> ucast b = a"
| "ip_Equal (IP16 a) (IP4 b) \<longleftrightarrow> is4in6 a \<and> ucast a = b"
| "ip_Equal IPnil IPnil \<longleftrightarrow> True"
| "ip_Equal _ _ \<longleftrightarrow> False"

section \<open>Validation of a request\<close>

text \<open>
  \<open>pem_Decode\<close> gives the type and the bytes of the first PEM block, \<open>ParseCertificateRequest\<close> the
  text of its error or the request.
\<close>

record x509_env =
  pem_Decode :: "string \<Rightarrow> (string \<times> string) option"
  ParseCertificateRequest :: "string \<Rightarrow> string + CertificateRequest"

definition parseCSR :: "x509_env \<Rightarrow> string \<Rightarrow> string + CertificateRequest" where
  "parseCSR x pemBytes =
     (case pem_Decode x pemBytes of
        None \<Rightarrow> Inl ''PEM block type must be CERTIFICATE REQUEST''
      | Some (ty, bytes) \<Rightarrow>
          if ty \<noteq> ''CERTIFICATE REQUEST'' then Inl ''PEM block type must be CERTIFICATE REQUEST''
          else ParseCertificateRequest x bytes)"

definition kubeletServingRequiredUsages :: "string list" where
  "kubeletServingRequiredUsages = [UsageKeyEncipherment, UsageDigitalSignature, UsageServerAuth]"

text \<open>The loop that marks the usages; \<open>None\<close> is a usage that is not a key of the map.\<close>

fun mark_usages :: "(string \<rightharpoonup> bool) \<Rightarrow> string list \<Rightarrow> (string \<rightharpoonup> bool) option" where
  "mark_usages usageMap [] = Some usageMap"
| "mark_usages usageMap (ku # kus) =
     (if usageMap ku = None then None else mark_usages (usageMap(ku \<mapsto> True)) kus)"

definition kubernetes_name :: "string \<Rightarrow> bool" where
  "kubernetes_name name =
     (let n = ToLower name in n = ''kubernetes'' \<or> HasPrefix n ''kubernetes.'' \<or> HasPrefix n ''*.'')"

text \<open>\<open>None\<close> is a nil error.\<close>

definition validateKubeletServingCSR :: "CertificateRequest \<Rightarrow> CsrSpec \<Rightarrow> string option" where
  "validateKubeletServingCSR req csrSpec =
     (if x_DNSNames req = [] \<and> x_IPAddresses req = [] then Some ''DNS or IP subjectAltName is required''
      else if list_ex kubernetes_name (x_DNSNames req) then Some ''DNS subjectAltNames are not allowed''
      else if x_EmailAddresses req \<noteq> [] then Some ''email subjectAltNames are not allowed''
      else if x_URIs req \<noteq> [] then Some ''URI subjectAltNames are not allowed''
      else if x_Organization req \<noteq> [''system:nodes''] then Some ''subject organization is not system:nodes''
      else if (case CutPrefix (x_CommonName req) ''system:node:'' of (name, ok) \<Rightarrow> \<not> ok \<or> name = '''')
      then Some ''subject common name does not begin with system:node: ''
      else if x_CommonName req \<noteq> csr_Username csrSpec then Some ''subject common name does not match the CSR username''
      else case mark_usages (map_of (map (\<lambda>u. (u, False)) kubeletServingRequiredUsages)) (csr_Usages csrSpec) of
        None \<Rightarrow> Some ''key usage does not match''
      | Some usageMap \<Rightarrow>
          if usageMap UsageServerAuth = Some True \<and> usageMap UsageDigitalSignature = Some True then None
          else Some ''key usage does not match'')"

section \<open>The controller\<close>

type_synonym ProviderChecks = "CsrSpec \<Rightarrow> CertificateRequest \<Rightarrow> (go_err, Verdict) outcome"

definition updateApproval :: "CSR \<Rightarrow> bool \<Rightarrow> string \<Rightarrow> CSR" where
  "updateApproval csr approved reason =
     (let reasonMessage = (if reason \<noteq> '''' then '', reason: '' @ reason else '''') in
      csr\<lparr>csr_Conditions := csr_Conditions csr @
        [if approved then
           \<lparr>csrc_Type = ''Approved'', csrc_Status = ''True'', csrc_Reason = ''Approved by TalosCloudControllerManager'',
            csrc_Message = ''This CSR was approved by Talos Cloud Controller Manager'' @ reasonMessage\<rparr>
         else
           \<lparr>csrc_Type = ''Denied'', csrc_Status = ''True'', csrc_Reason = ''Denied by TalosCloudControllerManager'',
            csrc_Message = ''This CSR was denied by Talos Cloud Controller Manager'' @ reasonMessage\<rparr>]\<rparr>)"

definition Reconcile :: "x509_env \<Rightarrow> ProviderChecks \<Rightarrow> (CSR, bool) act" where
  "Reconcile x providerChecks csr =
     (if csr_SignerName (csr_Spec csr) \<noteq> KubeletServingSignerName then (Ret False, csr)
      else if csr_Certificate csr \<noteq> '''' then (Ret False, csr)
      else if csr_Conditions csr \<noteq> [] then (Ret False, csr)
      else case parseCSR x (csr_Request (csr_Spec csr)) of
        Inl err \<Rightarrow> (Ret True, updateApproval csr False err)
      | Inr x509cr \<Rightarrow> (case validateKubeletServingCSR x509cr (csr_Spec csr) of
            Some err \<Rightarrow> (Ret True, updateApproval csr False err)
          | None \<Rightarrow> (case providerChecks (csr_Spec csr) x509cr of
                Err e \<Rightarrow> (Err (Errorf_v ''providerChecks has an error'' e), csr)
              | Panic \<Rightarrow> (Panic, csr)
              | Ret verdict \<Rightarrow> (Ret True, updateApproval csr (Valid verdict) (Message verdict)))))"

text \<open>
  One event of the watch in \<^verbatim>\<open>Run\<close>: only added requests are looked at, an object of another type is
  skipped, an error is logged; the result is the request that is sent to \<^verbatim>\<open>UpdateApproval\<close>, if any.
\<close>

record watch_event =
  ev_Type :: string
  ev_Object :: "CSR option"

definition on_event :: "x509_env \<Rightarrow> ProviderChecks \<Rightarrow> watch_event \<Rightarrow> (go_err, CSR option) outcome" where
  "on_event x providerChecks ev =
     (if ev_Type ev \<noteq> ''ADDED'' then Ret None
      else case ev_Object ev of
        None \<Rightarrow> Ret None
      | Some csr \<Rightarrow> (case Reconcile x providerChecks csr of
            (Ret update, csr') \<Rightarrow> Ret (if update then Some csr' else None)
          | (Err _, _) \<Rightarrow> Ret None
          | (Panic, _) \<Rightarrow> Panic))"

section \<open>The provider check\<close>

definition add_dns :: "string \<Rightarrow> string list \<Rightarrow> string list" where
  "add_dns n names = (if n \<in> set names then names else names @ [n])"

text \<open>One address of the node: the addresses and the DNS names collected so far.\<close>

definition collect_addr :: "NodeAddress \<Rightarrow> IP list \<times> string list \<Rightarrow> IP list \<times> string list" where
  "collect_addr addr acc =
     (case acc of (nodeAddrs, nodeDNSNames) \<Rightarrow>
      let ip = ParseIP (addr_Address addr); new = (ip \<noteq> IPnil \<and> \<not> list_ex (ip_Equal ip) nodeAddrs) in
      if addr_Type addr \<in> {''Hostname'', ''InternalDNS'', ''ExternalDNS''} then
        if addr_Type addr = ''Hostname'' \<and> new then (nodeAddrs @ [ip], nodeDNSNames)
        else (nodeAddrs, add_dns (ToLower (addr_Address addr)) nodeDNSNames)
      else if addr_Type addr \<in> {''InternalIP'', ''ExternalIP''} then
        if new then (nodeAddrs @ [ip], nodeDNSNames) else acc
      else acc)"

definition CSRNodeChecks :: "(string \<Rightarrow> (go_err, Node) outcome) \<Rightarrow> ProviderChecks" where
  "CSRNodeChecks getNode spec x509cr =
     (case CutPrefix (csr_Username spec) ''system:node:'' of (nodeName, ok) \<Rightarrow>
      if \<not> ok \<or> nodeName = '''' then Ret \<lparr>Valid = False, Message = ''invalid CSR username: '' @ csr_Username spec\<rparr>
      else case getNode nodeName of
        Err e \<Rightarrow>
          if IsNotFound e then Ret \<lparr>Valid = False, Message = ''csrNodeChecks: node '' @ nodeName @ '' not found''\<rparr>
          else Err (Errorf_w ''failed to get node'' e)
      | Panic \<Rightarrow> Panic
      | Ret node \<Rightarrow>
          if status_Addresses node = [] then Err (Errorf ''node not initialized yet'')
          else case fold collect_addr (status_Addresses node) ([], [ToLower nodeName]) of (nodeAddrs, nodeDNSNames) \<Rightarrow>
            if \<not> list_all (\<lambda>name. ToLower name \<in> set nodeDNSNames) (x_DNSNames x509cr)
            then Ret \<lparr>Valid = False, Message = ''csrNodeChecks: CSR DNSName doesn't match Node(In/Ex)ternalDNS names''\<rparr>
            else if \<not> list_all (\<lambda>ip. list_ex (ip_Equal ip) nodeAddrs) (x_IPAddresses x509cr)
            then Ret \<lparr>Valid = False, Message = ''csrNodeChecks: CSR IPAddresses doesn't match Node(In/Ex)ternalIP addresses''\<rparr>
            else Ret \<lparr>Valid = True, Message = ''''\<rparr>)"

section \<open>Validation, declaratively\<close>

definition pending :: "CSR \<Rightarrow> bool" where
  "pending csr \<longleftrightarrow> csr_SignerName (csr_Spec csr) = KubeletServingSignerName \<and> csr_Certificate csr = '''' \<and> csr_Conditions csr = []"

text \<open>A kubelet's request for a serving certificate: who asks, for which names, for which uses.\<close>

definition kubelet_request :: "CertificateRequest \<Rightarrow> CsrSpec \<Rightarrow> bool" where
  "kubelet_request r s \<longleftrightarrow>
     (x_DNSNames r \<noteq> [] \<or> x_IPAddresses r \<noteq> []) \<and> (\<forall>n \<in> set (x_DNSNames r). \<not> kubernetes_name n) \<and>
     x_EmailAddresses r = [] \<and> x_URIs r = [] \<and> x_Organization r = [''system:nodes''] \<and>
     (\<exists>name. name \<noteq> '''' \<and> x_CommonName r = ''system:node:'' @ name) \<and> csr_Username s = x_CommonName r \<and>
     set (csr_Usages s) \<subseteq> {UsageKeyEncipherment, UsageDigitalSignature, UsageServerAuth} \<and>
     {UsageDigitalSignature, UsageServerAuth} \<subseteq> set (csr_Usages s)"

lemma mark_usages_eq:
  "mark_usages m kus = (if set kus \<subseteq> dom m then Some (\<lambda>u. if u \<in> set kus then Some True else m u) else None)"
proof (induction kus arbitrary: m)
  case (Cons ku kus)
  show ?case
  proof (cases "m ku")
    case (Some b)
    then have d: "dom (m(ku \<mapsto> True)) = dom m" by auto
    have "mark_usages m (ku # kus) = mark_usages (m(ku \<mapsto> True)) kus" using Some by simp
    also have "\<dots> = (if set kus \<subseteq> dom m then Some (\<lambda>u. if u \<in> set kus then Some True else (m(ku \<mapsto> True)) u) else None)"
      using Cons [of "m(ku \<mapsto> True)"] unfolding d .
    also have "\<dots> = (if set (ku # kus) \<subseteq> dom m then Some (\<lambda>u. if u \<in> set (ku # kus) then Some True else m u) else None)"
      using Some by (auto simp: fun_eq_iff)
    finally show ?thesis .
  qed (auto simp: domIff)
qed simp

lemma CutPrefix_ok: "(case CutPrefix s p of (name, ok) \<Rightarrow> \<not> ok \<or> name = '''') \<longleftrightarrow> \<not> (\<exists>name. name \<noteq> '''' \<and> s = p @ name)"
proof (cases "HasPrefix s p")
  case True
  then have cut: "CutPrefix s p = (drop (length p) s, True)" by (simp add: CutPrefix_def)
  then have "s = p @ drop (length p) s" by (simp only: CutPrefix_eq)
  then have "(\<exists>name. name \<noteq> '''' \<and> s = p @ name) \<longleftrightarrow> drop (length p) s \<noteq> ''''"
    by (metis append_self_conv same_append_eq)
  then show ?thesis by (simp add: cut)
next
  case False
  then have "\<not> (\<exists>name. s = p @ name)" by (auto simp: HasPrefix_def)
  then show ?thesis using False by (simp add: CutPrefix_def)
qed

lemma if_Some_None: "(if b then Some x else y) = None \<longleftrightarrow> \<not> b \<and> y = None"
  by simp

lemma validate_iff: "validateKubeletServingCSR r s = None \<longleftrightarrow> kubelet_request r s"
proof -
  let ?m = "map_of (map (\<lambda>u. (u, False)) kubeletServingRequiredUsages)"
  have dom: "dom ?m = {UsageKeyEncipherment, UsageDigitalSignature, UsageServerAuth}"
    by (simp add: kubeletServingRequiredUsages_def)
  have m: "?m u \<noteq> Some True" for u by (auto simp: kubeletServingRequiredUsages_def)
  have usages: "(case mark_usages ?m (csr_Usages s) of
        None \<Rightarrow> Some ''key usage does not match''
      | Some usageMap \<Rightarrow>
          if usageMap UsageServerAuth = Some True \<and> usageMap UsageDigitalSignature = Some True then None
          else Some ''key usage does not match'') = None \<longleftrightarrow>
      set (csr_Usages s) \<subseteq> {UsageKeyEncipherment, UsageDigitalSignature, UsageServerAuth} \<and>
      {UsageDigitalSignature, UsageServerAuth} \<subseteq> set (csr_Usages s)"
    unfolding mark_usages_eq dom using m by auto
  show ?thesis
    unfolding validateKubeletServingCSR_def kubelet_request_def CutPrefix_ok if_Some_None usages list_ex_iff
    by (simp only: de_Morgan_conj not_not bex_simps ball_simps eq_commute [of "csr_Username s"])
qed

section \<open>The interface\<close>

text \<open>
  What the controller relies on: a check that calls a request valid vouches for it. \<open>vouches s r\<close> is
  what the provider stands for.
\<close>

locale provider_checks =
  fixes checks :: ProviderChecks and vouches :: "CsrSpec \<Rightarrow> CertificateRequest \<Rightarrow> bool"
  assumes valid_vouches: "checks s r = Ret v \<Longrightarrow> Valid v \<Longrightarrow> vouches s r"
begin

lemma Reconcile_approves:
  assumes "Reconcile x checks csr = (Ret True, csr')" and "c \<in> set (csr_Conditions csr')" and "csrc_Type c = ''Approved''"
  shows "pending csr \<and> csr' = csr\<lparr>csr_Conditions := [c]\<rparr> \<and>
    (\<exists>r. parseCSR x (csr_Request (csr_Spec csr)) = Inr r \<and> kubelet_request r (csr_Spec csr) \<and> vouches (csr_Spec csr) r)"
proof -
  have p: "pending csr" using assms(1) by (auto simp: Reconcile_def pending_def split: if_splits)
  then obtain r where r: "parseCSR x (csr_Request (csr_Spec csr)) = Inr r"
    using assms by (auto simp: Reconcile_def pending_def updateApproval_def split: sum.splits)
  moreover have k: "validateKubeletServingCSR r (csr_Spec csr) = None"
    using p r assms by (auto simp: Reconcile_def pending_def updateApproval_def split: option.splits)
  moreover obtain v where v: "checks (csr_Spec csr) r = Ret v" and "csr' = updateApproval csr (Valid v) (Message v)"
    using p r k assms by (auto simp: Reconcile_def pending_def split: outcome.splits)
  moreover from this have "Valid v" and "csr' = csr\<lparr>csr_Conditions := [c]\<rparr>"
    using p assms(2,3) by (auto simp: updateApproval_def pending_def Let_def split: if_splits)
  ultimately show ?thesis using p valid_vouches [OF v] by (auto simp: validate_iff)
qed

lemma on_event_approves:
  assumes "on_event x checks ev = Ret (Some csr')" and "c \<in> set (csr_Conditions csr')" and "csrc_Type c = ''Approved''"
  shows "\<exists>csr r. ev_Type ev = ''ADDED'' \<and> ev_Object ev = Some csr \<and> pending csr \<and> csr' = csr\<lparr>csr_Conditions := [c]\<rparr> \<and>
    parseCSR x (csr_Request (csr_Spec csr)) = Inr r \<and> kubelet_request r (csr_Spec csr) \<and> vouches (csr_Spec csr) r"
proof -
  obtain csr where "ev_Type ev = ''ADDED''" "ev_Object ev = Some csr" "Reconcile x checks csr = (Ret True, csr')"
    using assms(1) by (auto simp: on_event_def split: if_splits option.splits outcome.splits prod.splits)
  then show ?thesis using Reconcile_approves [OF _ assms(2,3)] by blast
qed

end

section \<open>What CSRNodeChecks vouches for\<close>

abbreviation "dns_types \<equiv> {''Hostname'', ''InternalDNS'', ''ExternalDNS''}"
abbreviation "ip_types \<equiv> {''Hostname'', ''InternalIP'', ''ExternalIP''}"

definition node_vouches :: "(string \<Rightarrow> (go_err, Node) outcome) \<Rightarrow> CsrSpec \<Rightarrow> CertificateRequest \<Rightarrow> bool" where
  "node_vouches getNode s r \<longleftrightarrow> (\<exists>name node.
     csr_Username s = ''system:node:'' @ name \<and> name \<noteq> '''' \<and> getNode name = Ret node \<and>
     (\<forall>n \<in> set (x_DNSNames r). lower_eq n name \<or>
        (\<exists>a \<in> set (status_Addresses node). addr_Type a \<in> dns_types \<and> lower_eq n (addr_Address a))) \<and>
     (\<forall>ip \<in> set (x_IPAddresses r).
        \<exists>a \<in> set (status_Addresses node). addr_Type a \<in> ip_types \<and> ip_Equal ip (ParseIP (addr_Address a))))"

lemma ip_Equal_iff: "ip_Equal a b \<longleftrightarrow> To16 a = To16 b"
proof -
  have "push_bit 32 0xffff OR ucast v = w \<longleftrightarrow> is4in6 w \<and> ucast w = v" for v :: u32 and w :: u128
  proof
    assume w: "push_bit 32 0xffff OR ucast v = w"
    have low: "ucast (push_bit 32 u OR ucast v :: u128) = v" for u
      by (rule bit_word_eqI) (auto simp: bit_simps)
    have "drop_bit 32 (ucast v :: u128) = 0"
      by (rule bit_word_eqI) (auto simp: bit_simps dest: bit_imp_le_length)
    then have "drop_bit 32 w = 0xffff" unfolding w [symmetric] by (simp add: drop_bit_or)
    moreover have "ucast w = v"
      unfolding w [symmetric] by (rule low)
    ultimately show "is4in6 w \<and> ucast w = v" by (simp add: is4in6_def)
  next
    assume "is4in6 w \<and> ucast w = v"
    then have w: "drop_bit 32 w = 0xffff" and v: "v = ucast w" by (auto simp: is4in6_def)
    show "push_bit 32 0xffff OR ucast v = w"
      unfolding v w [symmetric] by (rule bit_word_eqI) (auto simp: bit_simps)
  qed
  note m = this
  show ?thesis
    by (cases a; cases b; simp only: ip_Equal.simps To16.simps option.inject option.distinct; metis m)
qed

text \<open>The addresses and names that the loop collects, against those of the node.\<close>

lemma collect_sound:
  assumes "fold collect_addr addrs ([], [ToLower name]) = (ips, names)"
  shows "\<forall>ip \<in> set ips. \<exists>a \<in> set addrs. addr_Type a \<in> ip_types \<and> ip = ParseIP (addr_Address a)"
    and "\<forall>n \<in> set names. n = ToLower name \<or> (\<exists>a \<in> set addrs. addr_Type a \<in> dns_types \<and> n = ToLower (addr_Address a))"
proof -
  have "(\<forall>ip \<in> set ips. \<exists>a \<in> set addrs. addr_Type a \<in> ip_types \<and> ip = ParseIP (addr_Address a)) \<and>
    (\<forall>n \<in> set names. n = ToLower name \<or> (\<exists>a \<in> set addrs. addr_Type a \<in> dns_types \<and> n = ToLower (addr_Address a)))"
    using assms
  proof (induction addrs arbitrary: ips names rule: rev_induct)
    case (snoc a addrs)
    obtain ips0 ns where f: "fold collect_addr addrs ([], [ToLower name]) = (ips0, ns)"
      by (cases "fold collect_addr addrs ([], [ToLower name])")
    have step: "collect_addr a (ips0, ns) = (ips, names)" using snoc(2) f by simp
    have "\<forall>ip \<in> set ips. ip \<in> set ips0 \<or> (addr_Type a \<in> ip_types \<and> ip = ParseIP (addr_Address a))"
      and "\<forall>n \<in> set names. n \<in> set ns \<or> (addr_Type a \<in> dns_types \<and> n = ToLower (addr_Address a))"
      using step by (auto simp: collect_addr_def add_dns_def Let_def split: if_splits)
    then show ?case using snoc(1) [OF f] unfolding set_append bex_Un list.set by blast
  qed auto
  then show "\<forall>ip \<in> set ips. \<exists>a \<in> set addrs. addr_Type a \<in> ip_types \<and> ip = ParseIP (addr_Address a)"
    and "\<forall>n \<in> set names. n = ToLower name \<or> (\<exists>a \<in> set addrs. addr_Type a \<in> dns_types \<and> n = ToLower (addr_Address a))"
    by blast+
qed

lemma collect_complete:
  assumes "fold collect_addr addrs ([], [ToLower name]) = (ips, names)"
  shows "\<forall>a \<in> set addrs. addr_Type a \<in> ip_types \<and> ParseIP (addr_Address a) \<noteq> IPnil \<longrightarrow>
           (\<exists>ip \<in> set ips. ip_Equal (ParseIP (addr_Address a)) ip)"
    and "\<forall>a \<in> set addrs. addr_Type a \<in> dns_types \<and> (addr_Type a = ''Hostname'' \<longrightarrow> ParseIP (addr_Address a) = IPnil) \<longrightarrow>
           ToLower (addr_Address a) \<in> set names"
    and "ToLower name \<in> set names"
proof -
  have "(\<forall>a \<in> set addrs. addr_Type a \<in> ip_types \<and> ParseIP (addr_Address a) \<noteq> IPnil \<longrightarrow>
           (\<exists>ip \<in> set ips. ip_Equal (ParseIP (addr_Address a)) ip)) \<and>
    (\<forall>a \<in> set addrs. addr_Type a \<in> dns_types \<and> (addr_Type a = ''Hostname'' \<longrightarrow> ParseIP (addr_Address a) = IPnil) \<longrightarrow>
           ToLower (addr_Address a) \<in> set names) \<and> ToLower name \<in> set names"
    using assms
  proof (induction addrs arbitrary: ips names rule: rev_induct)
    case (snoc a addrs)
    obtain ips0 ns where f: "fold collect_addr addrs ([], [ToLower name]) = (ips0, ns)"
      by (cases "fold collect_addr addrs ([], [ToLower name])")
    have step: "collect_addr a (ips0, ns) = (ips, names)" using snoc(2) f by simp
    have mono: "set ips0 \<subseteq> set ips" "set ns \<subseteq> set names"
      using step by (auto simp: collect_addr_def add_dns_def Let_def split: if_splits)
    have new: "addr_Type a \<in> ip_types \<and> ParseIP (addr_Address a) \<noteq> IPnil \<Longrightarrow>
        \<exists>ip \<in> set ips. ip_Equal (ParseIP (addr_Address a)) ip"
      using step by (auto simp: collect_addr_def Let_def list_ex_iff ip_Equal_iff split: if_splits)
    have new': "addr_Type a \<in> dns_types \<and> (addr_Type a = ''Hostname'' \<longrightarrow> ParseIP (addr_Address a) = IPnil) \<Longrightarrow>
        ToLower (addr_Address a) \<in> set names"
      using step by (auto simp: collect_addr_def add_dns_def Let_def split: if_splits)
    have old: "\<forall>a \<in> set addrs. addr_Type a \<in> ip_types \<and> ParseIP (addr_Address a) \<noteq> IPnil \<longrightarrow>
           (\<exists>ip \<in> set ips. ip_Equal (ParseIP (addr_Address a)) ip)"
      using snoc(1) [OF f] mono(1) by blast
    have old': "\<forall>a \<in> set addrs. addr_Type a \<in> dns_types \<and> (addr_Type a = ''Hostname'' \<longrightarrow> ParseIP (addr_Address a) = IPnil) \<longrightarrow>
           ToLower (addr_Address a) \<in> set names" "ToLower name \<in> set names"
      using snoc(1) [OF f] mono(2) by blast+
    show ?case using old old' new new' unfolding set_append ball_Un by simp
  qed auto
  then show "\<forall>a \<in> set addrs. addr_Type a \<in> ip_types \<and> ParseIP (addr_Address a) \<noteq> IPnil \<longrightarrow>
           (\<exists>ip \<in> set ips. ip_Equal (ParseIP (addr_Address a)) ip)"
    and "\<forall>a \<in> set addrs. addr_Type a \<in> dns_types \<and> (addr_Type a = ''Hostname'' \<longrightarrow> ParseIP (addr_Address a) = IPnil) \<longrightarrow>
           ToLower (addr_Address a) \<in> set names"
    and "ToLower name \<in> set names"
    by blast+
qed

lemma CSRNodeChecks_valid:
  assumes "CSRNodeChecks getNode s r = Ret v" and "Valid v"
  shows "node_vouches getNode s r"
proof -
  obtain name ok where cut: "CutPrefix (csr_Username s) ''system:node:'' = (name, ok)"
    by (cases "CutPrefix (csr_Username s) ''system:node:''")
  have ok: "ok" "name \<noteq> ''''" using assms cut by (auto simp: CSRNodeChecks_def split: if_splits)
  have user: "csr_Username s = ''system:node:'' @ name" using cut ok by (simp add: CutPrefix_eq)
  obtain node where node: "getNode name = Ret node"
    using assms cut ok by (auto simp: CSRNodeChecks_def split: outcome.splits if_splits)
  obtain ips names where f: "fold collect_addr (status_Addresses node) ([], [ToLower name]) = (ips, names)"
    by (cases "fold collect_addr (status_Addresses node) ([], [ToLower name])")
  have dns: "\<forall>n \<in> set (x_DNSNames r). ToLower n \<in> set names"
    using assms cut ok node f by (auto simp: CSRNodeChecks_def list_all_iff split: if_splits)
  have ip: "\<forall>ip \<in> set (x_IPAddresses r). \<exists>i \<in> set ips. ip_Equal ip i"
    using assms cut ok node f by (auto simp: CSRNodeChecks_def list_all_iff list_ex_iff split: if_splits)
  have "\<forall>n \<in> set (x_DNSNames r). lower_eq n name \<or>
        (\<exists>a \<in> set (status_Addresses node). addr_Type a \<in> dns_types \<and> lower_eq n (addr_Address a))"
    using collect_sound(2) [OF f] dns by (auto simp: lower_eq_def)
  moreover have "\<forall>ip \<in> set (x_IPAddresses r).
        \<exists>a \<in> set (status_Addresses node). addr_Type a \<in> ip_types \<and> ip_Equal ip (ParseIP (addr_Address a))"
    using collect_sound(1) [OF f] ip by metis
  ultimately show ?thesis using user ok node unfolding node_vouches_def by blast
qed

interpretation nc: provider_checks "CSRNodeChecks getNode" "node_vouches getNode" for getNode
  by unfold_locales (rule CSRNodeChecks_valid)

section \<open>Properties\<close>

text \<open>
  C5: The controller approves only what a node may have: whenever it sends an approval to the API
  server, the request was newly added, undecided and unsigned, for a kubelet serving certificate; it was
  made by a node that exists, in that node's name; every DNS name of the certificate is the node's name or one
  of its host and DNS addresses, every IP address is an address of the node; there are no e-mail
  addresses, URIs or names of the API server; and the usages are those of a server.
\<close>

theorem csr_approval_sound:
  assumes "on_event x (CSRNodeChecks getNode) ev = Ret (Some csr')"
    and "c \<in> set (csr_Conditions csr')" and "csrc_Type c = ''Approved''"
  shows "\<exists>csr r name node. ev_Type ev = ''ADDED'' \<and> ev_Object ev = Some csr \<and> csr' = csr\<lparr>csr_Conditions := [c]\<rparr> \<and>
     csr_SignerName (csr_Spec csr) = ''kubernetes.io/kubelet-serving'' \<and> csr_Certificate csr = '''' \<and> csr_Conditions csr = [] \<and>
     parseCSR x (csr_Request (csr_Spec csr)) = Inr r \<and> kubelet_request r (csr_Spec csr) \<and>
     x_CommonName r = ''system:node:'' @ name \<and> getNode name = Ret node \<and>
     (\<forall>n \<in> set (x_DNSNames r). lower_eq n name \<or>
        (\<exists>a \<in> set (status_Addresses node). addr_Type a \<in> {''Hostname'', ''InternalDNS'', ''ExternalDNS''} \<and> lower_eq n (addr_Address a))) \<and>
     (\<forall>ip \<in> set (x_IPAddresses r).
        \<exists>a \<in> set (status_Addresses node). addr_Type a \<in> {''Hostname'', ''InternalIP'', ''ExternalIP''} \<and> ip_Equal ip (ParseIP (addr_Address a)))"
proof -
  obtain csr r where ev: "ev_Type ev = ''ADDED''" "ev_Object ev = Some csr" and p: "pending csr"
    and "csr' = csr\<lparr>csr_Conditions := [c]\<rparr>" and r: "parseCSR x (csr_Request (csr_Spec csr)) = Inr r"
    and k: "kubelet_request r (csr_Spec csr)" and v: "node_vouches getNode (csr_Spec csr) r"
    using nc.on_event_approves [OF assms] by blast
  moreover obtain name node where "csr_Username (csr_Spec csr) = ''system:node:'' @ name" "getNode name = Ret node"
    "\<forall>n \<in> set (x_DNSNames r). lower_eq n name \<or>
        (\<exists>a \<in> set (status_Addresses node). addr_Type a \<in> dns_types \<and> lower_eq n (addr_Address a))"
    "\<forall>ip \<in> set (x_IPAddresses r).
        \<exists>a \<in> set (status_Addresses node). addr_Type a \<in> ip_types \<and> ip_Equal ip (ParseIP (addr_Address a))"
    using v unfolding node_vouches_def by blast
  moreover have "x_CommonName r = csr_Username (csr_Spec csr)" using k by (simp add: kubelet_request_def)
  ultimately show ?thesis unfolding pending_def by metis
qed

text \<open>The check accepts a request whose names and addresses are all those of the node.\<close>

lemma CSRNodeChecks_accepts:
  assumes "csr_Username spec = ''system:node:'' @ name" and "name \<noteq> ''''" and "getNode name = Ret node" and "status_Addresses node \<noteq> []"
    and names: "\<forall>n \<in> set (x_DNSNames r). lower_eq n name \<or>
        (\<exists>a \<in> set (status_Addresses node). addr_Type a \<in> {''Hostname'', ''InternalDNS'', ''ExternalDNS''} \<and>
           (addr_Type a = ''Hostname'' \<longrightarrow> ParseIP (addr_Address a) = IPnil) \<and> lower_eq n (addr_Address a))"
    and addrs: "\<forall>ip \<in> set (x_IPAddresses r). ip \<noteq> IPnil \<and>
        (\<exists>a \<in> set (status_Addresses node). addr_Type a \<in> {''Hostname'', ''InternalIP'', ''ExternalIP''} \<and> ip_Equal ip (ParseIP (addr_Address a)))"
  shows "CSRNodeChecks getNode spec r = Ret \<lparr>Valid = True, Message = ''''\<rparr>"
proof -
  have cut: "CutPrefix (csr_Username spec) ''system:node:'' = (name, True)"
    using assms(1) by (simp add: CutPrefix_eq)
  obtain ips names where f: "fold collect_addr (status_Addresses node) ([], [ToLower name]) = (ips, names)"
    by (cases "fold collect_addr (status_Addresses node) ([], [ToLower name])")
  have "\<forall>n \<in> set (x_DNSNames r). ToLower n \<in> set names"
  proof
    fix n assume "n \<in> set (x_DNSNames r)"
    then consider "lower_eq n name" | a where "a \<in> set (status_Addresses node)" "addr_Type a \<in> dns_types"
      "addr_Type a = ''Hostname'' \<longrightarrow> ParseIP (addr_Address a) = IPnil" "lower_eq n (addr_Address a)"
      using names by blast
    then show "ToLower n \<in> set names"
    proof cases
      case 1
      then show ?thesis using collect_complete(3) [OF f] by (simp only: lower_eq_def)
    next
      case (2 a)
      have "ToLower (addr_Address a) \<in> set names"
        by (rule mp [OF bspec [OF collect_complete(2) [OF f] 2(1)]]) (intro conjI 2)
      then show ?thesis using 2(4) by (simp only: lower_eq_def)
    qed
  qed
  moreover have "\<exists>i \<in> set ips. ip_Equal ip i" if ip: "ip \<in> set (x_IPAddresses r)" for ip
  proof -
    obtain a where a: "a \<in> set (status_Addresses node)"
      and ty: "addr_Type a \<in> ip_types \<and> ip_Equal ip (ParseIP (addr_Address a))"
      by (rule bexE [OF conjunct2 [OF bspec [OF addrs ip]]])
    have "ParseIP (addr_Address a) \<noteq> IPnil"
      using conjunct1 [OF bspec [OF addrs ip]] ty by (cases ip) auto
    then obtain i where "i \<in> set ips" "ip_Equal (ParseIP (addr_Address a)) i"
      using mp [OF bspec [OF collect_complete(1) [OF f] a]] ty by blast
    then show ?thesis using ty unfolding ip_Equal_iff by auto
  qed
  ultimately show ?thesis
    using cut assms(2,3,4) f by (simp add: CSRNodeChecks_def list_all_iff list_ex_iff)
qed

text \<open>
  C28: A kubelet's proper request is approved: when its node is registered with addresses, every DNS name
  of a well-formed request is the node's name or a DNS address of the node (or a host name that is not an
  address), and every IP address is one of the node's, the controller sends exactly one
  condition, an approval.
\<close>

theorem csr_approval_complete:
  assumes "ev_Type ev = ''ADDED''" and "ev_Object ev = Some csr" and "pending csr"
    and "parseCSR x (csr_Request (csr_Spec csr)) = Inr r" and "kubelet_request r (csr_Spec csr)"
    and "csr_Username (csr_Spec csr) = ''system:node:'' @ name" and "getNode name = Ret node"
    and "status_Addresses node \<noteq> []"
    and "\<forall>n \<in> set (x_DNSNames r). lower_eq n name \<or>
        (\<exists>a \<in> set (status_Addresses node). addr_Type a \<in> {''Hostname'', ''InternalDNS'', ''ExternalDNS''} \<and>
           (addr_Type a = ''Hostname'' \<longrightarrow> ParseIP (addr_Address a) = IPnil) \<and> lower_eq n (addr_Address a))"
    and "\<forall>ip \<in> set (x_IPAddresses r). ip \<noteq> IPnil \<and>
        (\<exists>a \<in> set (status_Addresses node). addr_Type a \<in> {''Hostname'', ''InternalIP'', ''ExternalIP''} \<and> ip_Equal ip (ParseIP (addr_Address a)))"
  shows "\<exists>c. on_event x (CSRNodeChecks getNode) ev = Ret (Some (csr\<lparr>csr_Conditions := [c]\<rparr>)) \<and> csrc_Type c = ''Approved''"
proof -
  have "name \<noteq> ''''" using assms(5,6) by (auto simp: kubelet_request_def)
  then have "CSRNodeChecks getNode (csr_Spec csr) r = Ret \<lparr>Valid = True, Message = ''''\<rparr>"
    by (rule CSRNodeChecks_accepts [where getNode = getNode, OF assms(6) _ assms(7,8,9,10)])
  moreover have "validateKubeletServingCSR r (csr_Spec csr) = None" using assms(5) by (simp add: validate_iff)
  ultimately have "Reconcile x (CSRNodeChecks getNode) csr = (Ret True, updateApproval csr True '''')"
    using assms(3,4) by (simp add: Reconcile_def pending_def)
  moreover have "\<exists>c. updateApproval csr True '''' = csr\<lparr>csr_Conditions := [c]\<rparr> \<and> csrc_Type c = ''Approved''"
    using assms(3) by (intro exI [of _ "last (csr_Conditions (updateApproval csr True ''''))"])
      (simp add: updateApproval_def pending_def)
  ultimately show ?thesis using assms(1,2) by (simp add: on_event_def)
qed

text \<open>
  C29: Requests are decided once: the controller leaves alone every request for another signer, with a
  certificate or with a condition, and after it has decided a request it never touches it again.
  An error of the check leaves the request undecided.
\<close>

theorem csr_decided_once:
  "(\<not> pending csr \<longrightarrow> Reconcile x checks csr = (Ret False, csr)) \<and>
   (\<forall>csr'. Reconcile x checks csr = (Ret True, csr') \<longrightarrow>
      length (csr_Conditions csr') = 1 \<and> Reconcile y checks' csr' = (Ret False, csr')) \<and>
   (\<forall>e csr'. Reconcile x checks csr = (Err e, csr') \<longrightarrow> csr' = csr)"
proof (intro conjI allI impI)
  assume "\<not> pending csr"
  then show "Reconcile x checks csr = (Ret False, csr)" by (simp add: Reconcile_def pending_def)
next
  fix csr' assume r: "Reconcile x checks csr = (Ret True, csr')"
  then have p: "pending csr" by (auto simp: Reconcile_def pending_def split: if_splits)
  have "\<exists>b m. csr' = updateApproval csr b m"
    using r p by (auto simp: Reconcile_def pending_def split: sum.splits option.splits outcome.splits)
  then show "length (csr_Conditions csr') = 1" "Reconcile y checks' csr' = (Ret False, csr')"
    using p by (auto simp: Reconcile_def pending_def updateApproval_def Let_def)
next
  fix e csr' assume "Reconcile x checks csr = (Err e, csr')"
  then show "csr' = csr" by (auto simp: Reconcile_def split: if_splits sum.splits option.splits outcome.splits)
qed

subsection \<open>Witnesses\<close>

definition demo_x509 :: x509_env where
  "demo_x509 = \<lparr>pem_Decode = (\<lambda>b. Some (''CERTIFICATE REQUEST'', b)),
     ParseCertificateRequest = (\<lambda>_. Inr \<lparr>x_DNSNames = [''W1''], x_IPAddresses = [IP4 0x0a000001], x_EmailAddresses = [], x_URIs = [],
        x_Organization = [''system:nodes''], x_CommonName = ''system:node:w1''\<rparr>)\<rparr>"

definition demo_csr :: CSR where
  "demo_csr = \<lparr>csr_Name = ''csr-1'', csr_Spec = \<lparr>csr_SignerName = ''kubernetes.io/kubelet-serving'', csr_Request = ''pem'',
       csr_Username = ''system:node:w1'', csr_Usages = [''digital signature'', ''server auth'']\<rparr>,
     csr_Certificate = '''', csr_Conditions = []\<rparr>"

definition demo_nodes :: "string \<Rightarrow> (go_err, Node) outcome" where
  "demo_nodes n = (if n = ''w1'' then Ret ((blank_node ''w1'')\<lparr>status_Addresses :=
       [\<lparr>addr_Type = ''InternalIP'', addr_Address = ''10.0.0.1''\<rparr>]\<rparr>) else Err (StatusError NotFound))"

lemma demo_csr_facts:
  "pending demo_csr" "csr_Username (csr_Spec demo_csr) = ''system:node:'' @ ''w1''"
  "\<exists>r. parseCSR demo_x509 (csr_Request (csr_Spec demo_csr)) = Inr r"
  by (simp_all add: pending_def demo_csr_def demo_x509_def parseCSR_def)

theorem csr_approval_complete_witness:
  "\<exists>c. on_event demo_x509 (CSRNodeChecks demo_nodes) \<lparr>ev_Type = ''ADDED'', ev_Object = Some demo_csr\<rparr> =
      Ret (Some (demo_csr\<lparr>csr_Conditions := [c]\<rparr>)) \<and> csrc_Type c = ''Approved''"
proof (rule csr_approval_complete [where name = "''w1''"])
  show "kubelet_request \<lparr>x_DNSNames = [''W1''], x_IPAddresses = [IP4 0x0a000001], x_EmailAddresses = [], x_URIs = [],
        x_Organization = [''system:nodes''], x_CommonName = ''system:node:w1''\<rparr> (csr_Spec demo_csr)"
  proof -
    have "\<not> kubernetes_name ''W1''" by code_simp
    then show ?thesis by (simp add: kubelet_request_def demo_csr_def)
  qed
  have "ip_Equal (IP4 0x0a000001) (ParseIP ''10.0.0.1'')" by code_simp
  then show "\<forall>ip \<in> set (x_IPAddresses \<lparr>x_DNSNames = [''W1''], x_IPAddresses = [IP4 0x0a000001], x_EmailAddresses = [], x_URIs = [],
        x_Organization = [''system:nodes''], x_CommonName = ''system:node:w1''\<rparr>). ip \<noteq> IPnil \<and>
        (\<exists>a \<in> set (status_Addresses ((blank_node ''w1'')\<lparr>status_Addresses := [\<lparr>addr_Type = ''InternalIP'', addr_Address = ''10.0.0.1''\<rparr>]\<rparr>)).
           addr_Type a \<in> {''Hostname'', ''InternalIP'', ''ExternalIP''} \<and> ip_Equal ip (ParseIP (addr_Address a)))"
    by simp
  have "lower_eq ''W1'' ''w1''" by code_simp
  then show "\<forall>n \<in> set (x_DNSNames \<lparr>x_DNSNames = [''W1''], x_IPAddresses = [IP4 0x0a000001], x_EmailAddresses = [], x_URIs = [],
        x_Organization = [''system:nodes''], x_CommonName = ''system:node:w1''\<rparr>). lower_eq n ''w1'' \<or>
        (\<exists>a \<in> set (status_Addresses ((blank_node ''w1'')\<lparr>status_Addresses := [\<lparr>addr_Type = ''InternalIP'', addr_Address = ''10.0.0.1''\<rparr>]\<rparr>)).
           addr_Type a \<in> {''Hostname'', ''InternalDNS'', ''ExternalDNS''} \<and>
           (addr_Type a = ''Hostname'' \<longrightarrow> ParseIP (addr_Address a) = IPnil) \<and> lower_eq n (addr_Address a))"
    by simp
qed (simp_all add: demo_csr_facts demo_nodes_def parseCSR_def demo_x509_def)

lemma demo_on_event:
  "on_event demo_x509 (CSRNodeChecks demo_nodes) \<lparr>ev_Type = ''ADDED'', ev_Object = Some demo_csr\<rparr> =
      Ret (Some (updateApproval demo_csr True ''''))"
proof -
  obtain r where r: "parseCSR demo_x509 (csr_Request (csr_Spec demo_csr)) = Inr r" by (rule exE [OF demo_csr_facts(3)])
  have r': "r = projr (parseCSR demo_x509 (csr_Request (csr_Spec demo_csr)))" by (simp add: r)
  have "validateKubeletServingCSR r (csr_Spec demo_csr) = None" unfolding r' by code_simp
  moreover have "CSRNodeChecks demo_nodes (csr_Spec demo_csr) r = Ret \<lparr>Valid = True, Message = ''''\<rparr>"
    unfolding r' by code_simp
  ultimately have "Reconcile demo_x509 (CSRNodeChecks demo_nodes) demo_csr = (Ret True, updateApproval demo_csr True '''')"
    using demo_csr_facts(1) r by (simp add: Reconcile_def pending_def)
  then show ?thesis by (simp add: on_event_def)
qed

theorem csr_approval_sound_witness:
  "\<exists>csr' c. on_event demo_x509 (CSRNodeChecks demo_nodes) \<lparr>ev_Type = ''ADDED'', ev_Object = Some demo_csr\<rparr> = Ret (Some csr') \<and>
     c \<in> set (csr_Conditions csr') \<and> csrc_Type c = ''Approved'' \<and>
     (\<exists>name node. demo_nodes name = Ret node)"
proof -
  have "\<exists>c \<in> set (csr_Conditions (updateApproval demo_csr True '''')). csrc_Type c = ''Approved''"
    by (simp add: updateApproval_def)
  then obtain c where c: "c \<in> set (csr_Conditions (updateApproval demo_csr True ''''))" "csrc_Type c = ''Approved''"
    by (rule bexE)
  show ?thesis
    using csr_approval_sound [OF demo_on_event c] demo_on_event c by blast
qed

theorem csr_decided_once_witness:
  "Reconcile demo_x509 (CSRNodeChecks demo_nodes) (updateApproval demo_csr True '''') = (Ret False, updateApproval demo_csr True '''')"
proof -
  have "\<not> pending (updateApproval demo_csr True '''')" by (simp add: pending_def updateApproval_def)
  then show ?thesis using csr_decided_once by blast
qed

end
