(* ===== verification/CsrRun.thy ===== *)
theory CsrRun
  imports CsrApproval
begin

text \<open>
  \<^verbatim>\<open>Reconciler.Run\<close> of \<^verbatim>\<open>pkg/certificatesigningrequest/controller.go\<close>: the loop that opens a watch for requests, serves
  its events and opens it again when the API server closes it. The loop may run forever, so it is a partial function.

  The outside world is whether the \<open>n\<close>-th call of \<^verbatim>\<open>Watch\<close> succeeds and what the \<open>i\<close>-th \<^verbatim>\<open>select\<close> receives.
\<close>

section \<open>The loop\<close>

datatype csr_signal = Cancelled | Closed | Received watch_event

text \<open>
  \<open>opened\<close> tells the inner loop from the outer one; \<open>sent\<close> are the requests passed to \<^verbatim>\<open>UpdateApproval\<close>, whose answers are only logged.
\<close>

partial_function (option) run_loop :: "x509_env \<Rightarrow> ProviderChecks \<Rightarrow> (nat \<Rightarrow> bool) \<Rightarrow> (nat \<Rightarrow> csr_signal) \<Rightarrow> bool \<Rightarrow> nat \<Rightarrow> nat \<Rightarrow> CSR list \<Rightarrow>
    ((go_err, unit) outcome \<times> CSR list) option" where
  "run_loop x checks watch sig opened n i sent =
     (if \<not> opened then run_loop x checks watch sig (watch n) (Suc n) i sent
      else case sig i of
        Cancelled \<Rightarrow> Some (Ret (), sent)
      | Closed \<Rightarrow> run_loop x checks watch sig False n (Suc i) sent
      | Received event \<Rightarrow>
          (case on_event x checks event of
             Ret (Some csr) \<Rightarrow> run_loop x checks watch sig True n (Suc i) (sent @ [csr])
           | Ret None \<Rightarrow> run_loop x checks watch sig True n (Suc i) sent
           | Err e \<Rightarrow> Some (Err e, sent)
           | Panic \<Rightarrow> Some (Panic, sent)))"

definition csr_Run :: "x509_env \<Rightarrow> ProviderChecks \<Rightarrow> (nat \<Rightarrow> bool) \<Rightarrow> (nat \<Rightarrow> csr_signal) \<Rightarrow> ((go_err, unit) outcome \<times> CSR list) option" where
  "csr_Run x checks watch sig = run_loop x checks watch sig False 0 0 []"

section \<open>What the loop sends\<close>

text \<open>The decision on one signal, and on a sequence of them.\<close>

definition decision :: "x509_env \<Rightarrow> ProviderChecks \<Rightarrow> csr_signal \<Rightarrow> CSR list" where
  "decision x checks s = (case s of Received ev \<Rightarrow> (case on_event x checks ev of Ret (Some csr) \<Rightarrow> [csr] | _ \<Rightarrow> []) | _ \<Rightarrow> [])"

definition decisions :: "x509_env \<Rightarrow> ProviderChecks \<Rightarrow> (nat \<Rightarrow> csr_signal) \<Rightarrow> nat \<Rightarrow> nat \<Rightarrow> CSR list" where
  "decisions x checks sig i j = concat (map (decision x checks \<circ> sig) [i..<j])"

lemma decisions_step: "i < j \<Longrightarrow> decisions x checks sig i j = decision x checks (sig i) @ decisions x checks sig (Suc i) j"
  by (simp add: decisions_def upt_conv_Cons)

lemma on_event_not_Err: "on_event x checks ev \<noteq> Err e"
  by (auto simp: on_event_def split: option.splits outcome.splits prod.splits)

lemma opens:
  assumes "watch m" and "n \<le> m"
  shows "\<exists>n'. run_loop x checks watch sig False n i sent = run_loop x checks watch sig True n' i sent"
  using assms(2)
proof (induction "m - n" arbitrary: n)
  case 0
  then show ?case using assms(1) by (subst run_loop.simps) auto
next
  case (Suc d)
  show ?case
  proof (cases "watch n")
    case True
    then show ?thesis by (subst run_loop.simps) auto
  next
    case False
    then show ?thesis using Suc.hyps(1) [of "Suc n"] Suc.hyps(2) by (subst run_loop.simps) auto
  qed
qed

lemma run_loop_serves:
  assumes w: "\<forall>n. \<exists>m\<ge>n. watch m" and "i \<le> k" and k: "sig k = Cancelled" and "\<forall>j. i \<le> j \<longrightarrow> j < k \<longrightarrow> sig j \<noteq> Cancelled"
  shows "\<exists>out j. run_loop x checks watch sig True n i sent = Some (out, sent @ decisions x checks sig i j) \<and> i \<le> j \<and>
    (out = Ret () \<and> j = k \<or> out = Panic \<and> j < k)"
  using assms(2,4)
proof (induction "k - i" arbitrary: i n sent)
  case 0
  then show ?case using k by (subst run_loop.simps) (auto simp: decisions_def intro!: exI [of _ "Ret ()"] exI [of _ k])
next
  case (Suc d)
  have ik: "i < k" and live: "sig i \<noteq> Cancelled" using Suc.hyps(2) Suc.prems by auto
  have ih: "\<exists>out j. run_loop x checks watch sig True n' (Suc i) sent' = Some (out, sent' @ decisions x checks sig (Suc i) j) \<and> Suc i \<le> j \<and>
      (out = Ret () \<and> j = k \<or> out = Panic \<and> j < k)" for n' sent'
    using Suc.hyps(1) [of "Suc i"] Suc.hyps(2) Suc.prems ik by simp
  have next_step: ?case
    if st: "run_loop x checks watch sig True n i sent = run_loop x checks watch sig True n' (Suc i) (sent @ decision x checks (sig i))" for n'
  proof -
    obtain out j where "run_loop x checks watch sig True n' (Suc i) (sent @ decision x checks (sig i)) =
        Some (out, (sent @ decision x checks (sig i)) @ decisions x checks sig (Suc i) j)" "Suc i \<le> j"
      "out = Ret () \<and> j = k \<or> out = Panic \<and> j < k" using ih by blast
    then show ?thesis using st decisions_step [of i j x checks sig] by (intro exI [of _ out] exI [of _ j]) auto
  qed
  show ?case
  proof (cases "sig i")
    case Closed
    obtain m where "watch m" "n \<le> m" using w by blast
    then obtain n' where "run_loop x checks watch sig False n (Suc i) sent = run_loop x checks watch sig True n' (Suc i) sent"
      using opens by blast
    then show ?thesis using Closed by (intro next_step [of n']) (subst run_loop.simps, simp add: decision_def)
  next
    case (Received ev)
    show ?thesis
    proof (cases "on_event x checks ev")
      case (Ret upd)
      then show ?thesis using Received by (intro next_step [of n], subst run_loop.simps) (auto simp: decision_def split: option.split)
    next
      case Panic
      then show ?thesis using Received ik
        by (subst run_loop.simps) (auto simp: decisions_def intro!: exI [of _ "Panic"] exI [of _ i])
    qed (use on_event_not_Err in blast)
  qed (use live in blast)
qed

text \<open>The loop returns only after a watch could be opened.\<close>

lemma run_loop_needs_watch:
  assumes "run_loop x checks watch sig opened n i sent = Some res" and "\<not> opened"
  shows "\<exists>m\<ge>n. watch m"
proof -
  have "\<not> opened \<longrightarrow> (\<exists>m\<ge>n. watch m)"
  proof (rule run_loop.raw_induct [where P = "\<lambda>_ _ watch _ opened n _ _ _. \<not> opened \<longrightarrow> (\<exists>m\<ge>n. watch m)" and
        xa = "(((((((x, checks), watch), sig), opened), n), i), sent)" and y = res, simplified prod.case])
    fix f :: "x509_env \<Rightarrow> ProviderChecks \<Rightarrow> (nat \<Rightarrow> bool) \<Rightarrow> (nat \<Rightarrow> csr_signal) \<Rightarrow> bool \<Rightarrow> nat \<Rightarrow> nat \<Rightarrow> CSR list \<Rightarrow>
      ((go_err, unit) outcome \<times> CSR list) option"
    fix x checks watch sig opened n i sent y
    assume ih: "\<And>x checks watch sig opened n i sent y. f x checks watch sig opened n i sent = Some y \<Longrightarrow> \<not> opened \<longrightarrow> (\<exists>m\<ge>n. watch m)"
    assume st: "(if \<not> opened then f x checks watch sig (watch n) (Suc n) i sent
      else case sig i of Cancelled \<Rightarrow> Some (Ret (), sent) | Closed \<Rightarrow> f x checks watch sig False n (Suc i) sent
        | Received event \<Rightarrow> (case on_event x checks event of Ret None \<Rightarrow> f x checks watch sig True n (Suc i) sent
            | Ret (Some csr) \<Rightarrow> f x checks watch sig True n (Suc i) (sent @ [csr]) | Err e \<Rightarrow> Some (Err e, sent) | Panic \<Rightarrow> Some (Panic, sent))) = Some y"
    show "\<not> opened \<longrightarrow> (\<exists>m\<ge>n. watch m)"
    proof
      assume "\<not> opened"
      then have "\<not> watch n \<longrightarrow> (\<exists>m\<ge>Suc n. watch m)" using ih st by simp
      then show "\<exists>m\<ge>n. watch m" by (metis Suc_leD order_refl)
    qed
  qed (rule assms(1))
  then show ?thesis using assms(2) by blast
qed

section \<open>Properties\<close>

text \<open>
  C39: \<^verbatim>\<open>Run\<close> serves the requests: if watches can be opened again and again and the context is cancelled at the \<open>k\<close>-th signal, it returns
  after sending exactly the decisions on the events before it, in their order, unless the process crashed with a panic on the way. But it
  never returns while watches fail, because the cancelled context is only looked at between the events of an open watch.
\<close>

theorem csr_Run_serves:
  assumes "sig k = Cancelled" and "\<forall>i<k. sig i \<noteq> Cancelled"
  shows "((\<forall>n. \<exists>m\<ge>n. watch m) \<longrightarrow>
      (\<exists>out j. csr_Run x checks watch sig = Some (out, decisions x checks sig 0 j) \<and> (out = Ret () \<and> j = k \<or> out = Panic \<and> j < k))) \<and>
    ((\<forall>n. \<not> watch n) \<longrightarrow> csr_Run x checks watch sig = None)"
proof (intro conjI impI)
  assume w: "\<forall>n. \<exists>m\<ge>n. watch m"
  then obtain m where "watch m" "0 \<le> m" by blast
  then obtain n where "csr_Run x checks watch sig = run_loop x checks watch sig True n 0 []"
    unfolding csr_Run_def using opens by blast
  then show "\<exists>out j. csr_Run x checks watch sig = Some (out, decisions x checks sig 0 j) \<and> (out = Ret () \<and> j = k \<or> out = Panic \<and> j < k)"
    using run_loop_serves [where watch = watch and sig = sig and k = k and i = 0 and n = n and sent = "[]" and x = x and checks = checks, OF w _ assms(1)]
      assms(2) by auto
next
  assume "\<forall>n. \<not> watch n"
  then show "csr_Run x checks watch sig = None"
    unfolding csr_Run_def using run_loop_needs_watch [of x checks watch sig False 0 0 "[]"] by (meson not_None_eq)
qed

text \<open>A request of a node, a watch that ends, and the cancellation; every second watch fails.\<close>

definition demo_sig :: "nat \<Rightarrow> csr_signal" where
  "demo_sig i = (if i = 0 then Received \<lparr>ev_Type = ''ADDED'', ev_Object = Some demo_csr\<rparr> else if i = 1 then Closed else Cancelled)"

theorem csr_Run_serves_witness:
  "(\<exists>out j. csr_Run demo_x509 (CSRNodeChecks demo_nodes) odd demo_sig = Some (out, decisions demo_x509 (CSRNodeChecks demo_nodes) demo_sig 0 j) \<and>
      (out = Ret () \<and> j = 2 \<or> out = Panic \<and> j < 2)) \<and>
   decisions demo_x509 (CSRNodeChecks demo_nodes) demo_sig 0 2 = [updateApproval demo_csr True ''''] \<and>
   csr_Run demo_x509 (CSRNodeChecks demo_nodes) (\<lambda>_. False) demo_sig = None"
proof (intro conjI)
  have sig: "demo_sig 2 = Cancelled" "\<forall>i<2. demo_sig i \<noteq> Cancelled" by (auto simp: demo_sig_def)
  have "\<exists>m\<ge>n. odd m" for n :: nat by (intro exI [of _ "2 * n + 1"]) simp
  then show "\<exists>out j. csr_Run demo_x509 (CSRNodeChecks demo_nodes) odd demo_sig = Some (out, decisions demo_x509 (CSRNodeChecks demo_nodes) demo_sig 0 j) \<and>
      (out = Ret () \<and> j = 2 \<or> out = Panic \<and> j < 2)"
    using csr_Run_serves [OF sig, of odd demo_x509 "CSRNodeChecks demo_nodes"] by blast
  show "csr_Run demo_x509 (CSRNodeChecks demo_nodes) (\<lambda>_. False) demo_sig = None"
    using csr_Run_serves [OF sig, of "\<lambda>_. False"] by simp
  show "decisions demo_x509 (CSRNodeChecks demo_nodes) demo_sig 0 2 = [updateApproval demo_csr True '''']"
    by (simp add: decisions_def decision_def demo_sig_def demo_on_event upt_rec)
qed

end
