(* ===== verification/Metrics.thy ===== *)
theory Metrics
  imports CsrApproval Instances
begin

text \<open>
  Package \<^verbatim>\<open>metrics\<close>: the latencies and counters that the program reports. The collectors of
  \<^verbatim>\<open>k8s.io/component-base\<close> are outside the model; what the program does is the sequence of its calls on them, each with the
  name of the metric and the label values. Times are nanoseconds, and \<open>clock i\<close> is the \<open>i\<close>-th reading of the clock.
\<close>

section \<open>The metrics\<close>

record MetricContext =
  mc_start :: int
  mc_attributes :: "string list"

definition NewMetricContext :: "int \<Rightarrow> string \<Rightarrow> MetricContext" where
  "NewMetricContext now resource = \<lparr>mc_start = now, mc_attributes = [resource]\<rparr>"

datatype metric_call = Observe string "string list" int | Inc string "string list"

text \<open>A registered collector; the bounds of the buckets of a histogram are in milliseconds.\<close>

record metric_desc =
  md_Name :: string
  md_Labels :: "string list"
  md_Buckets :: "int list"

abbreviation "api_duration \<equiv> ''talosccm_api_request_duration_seconds''"
abbreviation "api_errors \<equiv> ''talosccm_api_request_errors_total''"
abbreviation "transformer_duration \<equiv> ''talosccm_transformer_duration_seconds''"
abbreviation "transformer_errors \<equiv> ''talosccm_transformer_errors_total''"
abbreviation "csr_approval_count \<equiv> ''talosccm_csr_approval_count''"

definition registerAPIMetrics :: "metric_desc list" where
  "registerAPIMetrics =
     [\<lparr>md_Name = api_duration, md_Labels = [''request''], md_Buckets = [100, 250, 500, 1000, 2500, 5000, 10000, 30000]\<rparr>,
      \<lparr>md_Name = api_errors, md_Labels = [''request''], md_Buckets = []\<rparr>]"

definition registerTransformerMetrics :: "metric_desc list" where
  "registerTransformerMetrics =
     [\<lparr>md_Name = transformer_duration, md_Labels = [''type''], md_Buckets = [1, 10, 50, 100]\<rparr>,
      \<lparr>md_Name = transformer_errors, md_Labels = [''type''], md_Buckets = []\<rparr>]"

definition registerCSRMetrics :: "metric_desc list" where
  "registerCSRMetrics = [\<lparr>md_Name = csr_approval_count, md_Labels = [''status''], md_Buckets = []\<rparr>]"

text \<open>Both observers record the latency, count an error and hand the error back.\<close>

definition ObserveRequest :: "int \<Rightarrow> MetricContext \<Rightarrow> go_err option \<Rightarrow> metric_call list \<Rightarrow> go_err option \<times> metric_call list" where
  "ObserveRequest now mc err calls =
     (err, calls @ [Observe api_duration (mc_attributes mc) (now - mc_start mc)] @
       (if err \<noteq> None then [Inc api_errors (mc_attributes mc)] else []))"

definition ObserveTransformer :: "int \<Rightarrow> MetricContext \<Rightarrow> go_err option \<Rightarrow> metric_call list \<Rightarrow> go_err option \<times> metric_call list" where
  "ObserveTransformer now mc err calls =
     (err, calls @ [Observe transformer_duration (mc_attributes mc) (now - mc_start mc)] @
       (if err \<noteq> None then [Inc transformer_errors (mc_attributes mc)] else []))"

datatype CSRApprovalStatus = ApprovalStatusDeny | ApprovalStatusApprove

fun status_String :: "CSRApprovalStatus \<Rightarrow> string" where
  "status_String ApprovalStatusDeny = ''deny''"
| "status_String ApprovalStatusApprove = ''approve''"

definition CSRApprovedCount :: "CSRApprovalStatus \<Rightarrow> metric_call list \<Rightarrow> metric_call list" where
  "CSRApprovedCount status calls = calls @ [Inc csr_approval_count [status_String status]]"

section \<open>Certificate signing requests\<close>

text \<open>\<^verbatim>\<open>updateApproval\<close> and \<^verbatim>\<open>Reconcile\<close> with the counter.\<close>

definition updateApproval_m :: "CSR \<Rightarrow> metric_call list \<Rightarrow> bool \<Rightarrow> string \<Rightarrow> CSR \<times> metric_call list" where
  "updateApproval_m csr calls approved reason =
     (updateApproval csr approved reason,
      CSRApprovedCount (if approved then ApprovalStatusApprove else ApprovalStatusDeny) calls)"

definition Reconcile_m :: "x509_env \<Rightarrow> ProviderChecks \<Rightarrow> (CSR \<times> metric_call list, bool) act" where
  "Reconcile_m x providerChecks s = (case s of (csr, calls) \<Rightarrow>
     (if csr_SignerName (csr_Spec csr) \<noteq> KubeletServingSignerName then (Ret False, csr, calls)
      else if csr_Certificate csr \<noteq> '''' then (Ret False, csr, calls)
      else if csr_Conditions csr \<noteq> [] then (Ret False, csr, calls)
      else case parseCSR x (csr_Request (csr_Spec csr)) of
        Inl err \<Rightarrow> (Ret True, updateApproval_m csr calls False err)
      | Inr x509cr \<Rightarrow> (case validateKubeletServingCSR x509cr (csr_Spec csr) of
            Some err \<Rightarrow> (Ret True, updateApproval_m csr calls False err)
          | None \<Rightarrow> (case providerChecks (csr_Spec csr) x509cr of
                Err e \<Rightarrow> (Err (Errorf_v ''providerChecks has an error'' e), csr, calls)
              | Panic \<Rightarrow> (Panic, csr, calls)
              | Ret verdict \<Rightarrow> (Ret True, updateApproval_m csr calls (Valid verdict) (Message verdict))))))"

text \<open>
  C40: The counter of decisions counts exactly the decisions on certificate signing requests: one increment for each request that is approved or
  denied, with the status of the condition that is added to it. A request that is ignored or fails is not counted, against the comment of
  \<^verbatim>\<open>CSRApprovedCount\<close> and the help text of the counter, which promise that ignored requests are counted as well. Counting does not change
  the decision.
\<close>

theorem csr_counter_counts_decisions:
  "case Reconcile_m x checks (csr, calls) of (res, csr', calls') \<Rightarrow>
     (res, csr') = Reconcile x checks csr \<and>
     (res = Ret True \<and> csr_Conditions csr' \<noteq> [] \<and>
        calls' = calls @ [Inc csr_approval_count [if csrc_Type (last (csr_Conditions csr')) = ''Approved'' then ''approve'' else ''deny'']] \<or>
      res \<noteq> Ret True \<and> csr' = csr \<and> calls' = calls)"
  by (auto simp: Reconcile_m_def Reconcile_def updateApproval_m_def updateApproval_def CSRApprovedCount_def Let_def
      split: sum.split option.split outcome.split)

section \<open>Instance metadata\<close>

text \<open>The resource types of Talos that label the requests.\<close>

record resource_ids =
  PlatformMetadataID :: string
  SystemInformationID :: string

text \<open>The loop over the addresses of the node: one context for all attempts. The result also has the next reading of the clock.\<close>

fun metadata_calls :: "(nat \<Rightarrow> int) \<Rightarrow> (string \<Rightarrow> go_err + go_struct) \<Rightarrow> MetricContext \<Rightarrow> nat \<Rightarrow> string list \<Rightarrow> metric_call list \<times> nat" where
  "metadata_calls clock get mc i [] = ([], i)"
| "metadata_calls clock get mc i (ip # ips) =
     (case get ip of
        Inr meta \<Rightarrow> (snd (ObserveRequest (clock i) mc None []), Suc i)
      | Inl e \<Rightarrow> (case metadata_calls clock get mc (Suc i) ips of
            (cs, j) \<Rightarrow> (snd (ObserveRequest (clock i) mc (Some e) []) @ cs, j)))"

text \<open>A request with a context of its own.\<close>

definition request_calls :: "(nat \<Rightarrow> int) \<Rightarrow> nat \<Rightarrow> string \<Rightarrow> go_err option \<Rightarrow> metric_call list" where
  "request_calls clock i resource err = snd (ObserveRequest (clock (Suc i)) (NewMetricContext (clock i) resource) err [])"

text \<open>The calls of the transformation and of the request for the interfaces.\<close>

definition transform_calls :: "(nat \<Rightarrow> int) \<Rightarrow> ('t, 'i) instance_env \<Rightarrow> nat \<Rightarrow> string \<Rightarrow> go_struct \<Rightarrow> 'i option \<Rightarrow> metric_call list" where
  "transform_calls clock env i nodeIP meta sysInfo =
     (let mct = NewMetricContext (clock i) ''transformer'' in
      case TransformNode (ie_transform env) (cc_Transformations (ie_config env)) sysInfo (Some meta) of
        (Err e, _) \<Rightarrow> snd (ObserveTransformer (clock (Suc i)) mct (Some e) [])
      | (Panic, _) \<Rightarrow> []
      | (Ret nodeSpec, _) \<Rightarrow> snd (ObserveTransformer (clock (Suc i)) mct None []) @
          request_calls clock (i + 2) ''addresses'' (case ie_GetNodeIfaces env nodeIP of Inl e \<Rightarrow> Some e | Inr _ \<Rightarrow> None))"

text \<open>The calls of \<^verbatim>\<open>InstanceMetadata\<close> on the metrics, along the branches of its model in theory \<open>Instances\<close>.\<close>

definition InstanceMetadata_calls :: "resource_ids \<Rightarrow> (nat \<Rightarrow> int) \<Rightarrow> ('t, 'i) instance_env \<Rightarrow> Node \<Rightarrow> metric_call list" where
  "InstanceMetadata_calls ids clock env node =
     (case node_Annotations node AnnotationAlphaProvidedIPAddr of
        None \<Rightarrow> []
      | Some providedIP \<Rightarrow>
          let nodeIPs = PreferredDualStackNodeIPs (cc_PreferIPv6 (ie_config env)) (Split (CHR '','') providedIP);
              (cs, i) = metadata_calls clock (ie_GetNodeMetadata env) (NewMetricContext (clock 0) (PlatformMetadataID ids)) 1 nodeIPs
          in cs @ (case first_metadata (ie_GetNodeMetadata env) nodeIPs of
               None \<Rightarrow> []
             | Some (nodeIP, meta0) \<Rightarrow>
                 (case complete_meta env node nodeIP meta0 of
                    Ret meta \<Rightarrow>
                      if cc_Transformations (ie_config env) = [] then transform_calls clock env i nodeIP meta None
                      else (case ie_GetNodeSystemInfo env nodeIP of
                          Inl e \<Rightarrow> request_calls clock i (SystemInformationID ids) (Some e)
                        | Inr sysInfo \<Rightarrow> request_calls clock i (SystemInformationID ids) None @
                            transform_calls clock env (i + 2) nodeIP meta (Some sysInfo))
                  | _ \<Rightarrow> [])))"

fun is_Inc :: "metric_call \<Rightarrow> bool" where
  "is_Inc (Inc _ _) = True"
| "is_Inc (Observe _ _ _) = False"

definition asked_in_vain :: "(string \<Rightarrow> go_err + go_struct) \<Rightarrow> string list \<Rightarrow> string list" where
  "asked_in_vain get ips = takeWhile (\<lambda>ip. \<exists>e. get ip = Inl e) ips"

lemma metadata_calls_incs:
  "filter is_Inc (fst (metadata_calls clock get mc i ips)) = replicate (length (asked_in_vain get ips)) (Inc api_errors (mc_attributes mc))"
  by (induction ips arbitrary: i) (auto simp: ObserveRequest_def asked_in_vain_def split_beta split: sum.split)

text \<open>
  When \<^verbatim>\<open>InstanceMetadata\<close> succeeds, the errors it has counted are those of the addresses that did not answer the request for the platform metadata before one did, one each,
  and no other.
\<close>

lemma instance_errors_counted:
  assumes "InstanceMetadata env node ws = (Ret im, ws')" and "node_Annotations node AnnotationAlphaProvidedIPAddr = Some providedIP"
  shows "filter is_Inc (InstanceMetadata_calls ids clock env node) =
    replicate (length (asked_in_vain (ie_GetNodeMetadata env) (PreferredDualStackNodeIPs (cc_PreferIPv6 (ie_config env)) (Split (CHR '','') providedIP))))
      (Inc api_errors [PlatformMetadataID ids])"
proof -
  let ?ips = "PreferredDualStackNodeIPs (cc_PreferIPv6 (ie_config env)) (Split (CHR '','') providedIP)"
  let ?mc = "NewMetricContext (clock 0) (PlatformMetadataID ids)"
  obtain nodeIP meta0 where f: "first_metadata (ie_GetNodeMetadata env) ?ips = Some (nodeIP, meta0)"
    using assms by (auto simp: InstanceMetadata_def Let_def fail_act_def split: option.splits)
  obtain meta sysInfo where m: "complete_meta env node nodeIP meta0 = Ret meta" "get_sysinfo env nodeIP = Ret sysInfo"
    "transform_and_publish env node ?ips nodeIP meta sysInfo ws = (Ret im, ws')"
    using assms f by (auto simp: InstanceMetadata_def Let_def bind_act_Ret_iff)
  obtain spec meta' ifaces where t: "TransformNode (ie_transform env) (cc_Transformations (ie_config env)) sysInfo (Some meta) = (Ret spec, meta')"
    "ie_GetNodeIfaces env nodeIP = Inr ifaces"
    using m(3) by (auto simp: transform_and_publish_def fail_act_def panic_act_def split: prod.splits outcome.splits sum.splits)
  have tc: "filter is_Inc (transform_calls clock env i nodeIP meta sysInfo) = []" for i
    using t by (simp add: transform_calls_def Let_def ObserveTransformer_def request_calls_def ObserveRequest_def)
  have "filter is_Inc (request_calls clock i (SystemInformationID ids) None) = []" for i
    by (simp add: request_calls_def ObserveRequest_def)
  then show ?thesis
    using assms(2) f m(1,2) tc metadata_calls_incs [of clock "ie_GetNodeMetadata env" ?mc 1 ?ips]
    by (auto simp: InstanceMetadata_calls_def Let_def get_sysinfo_def NewMetricContext_def split: prod.splits if_splits sum.splits)
qed

text \<open>
  The latency reported for an attempt after failed ones is not that of the request: the context is made once before the loop, so
  the time of the earlier attempts is counted again.
\<close>

lemma metadata_latency_accumulates:
  assumes "get ip1 = Inl e" and "get ip2 = Inr meta"
  shows "fst (metadata_calls clock get (NewMetricContext (clock 0) r) 1 [ip1, ip2]) =
    [Observe api_duration [r] (clock 1 - clock 0), Inc api_errors [r], Observe api_duration [r] (clock 2 - clock 0)]"
  using assms by (simp add: ObserveRequest_def NewMetricContext_def numeral_2_eq_2)

section \<open>Registration\<close>

definition call_ok :: "metric_desc list \<Rightarrow> metric_call \<Rightarrow> bool" where
  "call_ok descs call = (case call of
     Observe n ls _ \<Rightarrow> (\<exists>d\<in>set descs. md_Name d = n \<and> length ls = length (md_Labels d) \<and> md_Buckets d \<noteq> [])
   | Inc n ls \<Rightarrow> (\<exists>d\<in>set descs. md_Name d = n \<and> length ls = length (md_Labels d) \<and> md_Buckets d = []))"

text \<open>
  No call panics in \<^verbatim>\<open>WithLabelValues\<close>: every metric is registered once, with as many labels as the calls give, and the buckets
  of the histograms increase, as the registration demands.
\<close>

lemma metrics_registered:
  "distinct (map md_Name (registerAPIMetrics @ registerTransformerMetrics @ registerCSRMetrics))"
  "\<forall>d\<in>set (registerAPIMetrics @ registerTransformerMetrics @ registerCSRMetrics). sorted_wrt (<) (md_Buckets d)"
  "\<forall>call\<in>set (snd (ObserveRequest now (NewMetricContext start r) err [])). call_ok registerAPIMetrics call"
  "\<forall>call\<in>set (snd (ObserveTransformer now (NewMetricContext start r) err [])). call_ok registerTransformerMetrics call"
  "\<forall>call\<in>set (CSRApprovedCount status []). call_ok registerCSRMetrics call"
  by (simp_all add: registerAPIMetrics_def registerTransformerMetrics_def registerCSRMetrics_def ObserveRequest_def ObserveTransformer_def
      CSRApprovedCount_def NewMetricContext_def call_ok_def)

end
