(* ===== verification/Program.thy ===== *)
theory Program
  imports NodeIpam TalosClient CsrRun Workers
begin

text \<open>
  The main program: the registry of controllers that \<^verbatim>\<open>main\<close> hands to the framework of \<^verbatim>\<open>k8s.io/cloud-provider\<close>, the flags, the
  initialisation of the provider, the start of the approving controller and the \<^verbatim>\<open>Run\<close> methods that start the workers. The framework itself, the
  flag library and the process environment are parameters; ending the process is \<open>None\<close>.
\<close>

section \<open>Names\<close>

text \<open>The constants of \<^verbatim>\<open>pkg/names/controller_names.go\<close>: identifiers and names.\<close>

definition controller_names :: "(string \<times> string) list" where
  "controller_names =
     [(''ServiceAccountTokenController'', ''serviceaccount-token-controller''),
      (''EndpointsController'', ''endpoints-controller''),
      (''EndpointSliceController'', ''endpointslice-controller''),
      (''EndpointSliceMirroringController'', ''endpointslice-mirroring-controller''),
      (''ReplicationControllerController'', ''replicationcontroller-controller''),
      (''PodGarbageCollectorController'', ''pod-garbage-collector-controller''),
      (''ResourceQuotaController'', ''resourcequota-controller''),
      (''NamespaceController'', ''namespace-controller''),
      (''ServiceAccountController'', ''serviceaccount-controller''),
      (''GarbageCollectorController'', ''garbage-collector-controller''),
      (''DaemonSetController'', ''daemonset-controller''),
      (''JobController'', ''job-controller''),
      (''DeploymentController'', ''deployment-controller''),
      (''ReplicaSetController'', ''replicaset-controller''),
      (''HorizontalPodAutoscalerController'', ''horizontal-pod-autoscaler-controller''),
      (''DisruptionController'', ''disruption-controller''),
      (''StatefulSetController'', ''statefulset-controller''),
      (''CronJobController'', ''cronjob-controller''),
      (''CertificateSigningRequestSigningController'', ''certificatesigningrequest-signing-controller''),
      (''CertificateSigningRequestApprovingController'', ''certificatesigningrequest-approving-controller''),
      (''CertificateSigningRequestCleanerController'', ''certificatesigningrequest-cleaner-controller''),
      (''TTLController'', ''ttl-controller''),
      (''BootstrapSignerController'', ''bootstrap-signer-controller''),
      (''TokenCleanerController'', ''token-cleaner-controller''),
      (''NodeIpamController'', ''node-ipam-controller''),
      (''NodeLifecycleController'', ''node-lifecycle-controller''),
      (''TaintEvictionController'', ''taint-eviction-controller''),
      (''PersistentVolumeBinderController'', ''persistentvolume-binder-controller''),
      (''PersistentVolumeAttachDetachController'', ''persistentvolume-attach-detach-controller''),
      (''PersistentVolumeExpanderController'', ''persistentvolume-expander-controller''),
      (''ClusterRoleAggregationController'', ''clusterrole-aggregation-controller''),
      (''PersistentVolumeClaimProtectionController'', ''persistentvolumeclaim-protection-controller''),
      (''PersistentVolumeProtectionController'', ''persistentvolume-protection-controller''),
      (''TTLAfterFinishedController'', ''ttl-after-finished-controller''),
      (''RootCACertificatePublisherController'', ''root-ca-certificate-publisher-controller''),
      (''EphemeralVolumeController'', ''ephemeral-volume-controller''),
      (''StorageVersionGarbageCollectorController'', ''storageversion-garbage-collector-controller''),
      (''ResourceClaimController'', ''resourceclaim-controller''),
      (''LegacyServiceAccountTokenCleanerController'', ''legacy-serviceaccount-token-cleaner-controller''),
      (''ValidatingAdmissionPolicyStatusController'', ''validatingadmissionpolicy-status-controller''),
      (''ServiceCIDRController'', ''service-cidr-controller''),
      (''StorageVersionMigratorController'', ''storage-version-migrator-controller'')]"

abbreviation "NodeIpamController \<equiv> ''node-ipam-controller''"
abbreviation "NodeLifecycleController \<equiv> ''node-lifecycle-controller''"
abbreviation "CertificateSigningRequestApprovingController \<equiv> ''certificatesigningrequest-approving-controller''"

lemma controller_names_distinct: "distinct (map fst controller_names)" "distinct (map snd controller_names)"
  by (simp_all add: controller_names_def)

lemma controller_names_suffix: "\<forall>(c, n) \<in> set controller_names. HasSuffix n ''-controller'' \<and> ToLower n = n"
  by code_simp

section \<open>Flags\<close>

datatype flag_value = StringFlag string | Int32Flag "32 word"

text \<open>\<^verbatim>\<open>AddFlags\<close> binds each flag to a field of the options, with the value of the field as its default; nothing for a nil receiver.\<close>

definition AddFlags :: "NodeIPAMControllerConfiguration option \<Rightarrow> (string \<times> flag_value) list" where
  "AddFlags opt =
     (case opt of
        None \<Rightarrow> []
      | Some opts \<Rightarrow>
         [(''service-cluster-ip-range'', StringFlag (cfg_ServiceCIDR opts)),
          (''node-cidr-mask-size'', Int32Flag (cfg_NodeCIDRMaskSize opts)),
          (''node-cidr-mask-size-ipv4'', Int32Flag (cfg_NodeCIDRMaskSizeIPv4 opts)),
          (''node-cidr-mask-size-ipv6'', Int32Flag (cfg_NodeCIDRMaskSizeIPv6 opts))])"

text \<open>What a value on the command line does: the flag library stores it in the bound field; \<open>None\<close> is a flag that is not bound.\<close>

definition store_flag :: "string \<Rightarrow> flag_value \<Rightarrow> NodeIPAMControllerConfiguration \<Rightarrow> NodeIPAMControllerConfiguration option" where
  "store_flag name v opts =
     (case v of
        StringFlag s \<Rightarrow> if name = ''service-cluster-ip-range'' then Some (opts\<lparr>cfg_ServiceCIDR := s\<rparr>) else None
      | Int32Flag i \<Rightarrow>
          if name = ''node-cidr-mask-size'' then Some (opts\<lparr>cfg_NodeCIDRMaskSize := i\<rparr>)
          else if name = ''node-cidr-mask-size-ipv4'' then Some (opts\<lparr>cfg_NodeCIDRMaskSizeIPv4 := i\<rparr>)
          else if name = ''node-cidr-mask-size-ipv6'' then Some (opts\<lparr>cfg_NodeCIDRMaskSizeIPv6 := i\<rparr>)
          else None)"

text \<open>Every flag is bound to a field of its own: storing a value changes the default that the flag would show, and no other.\<close>

lemma flags_bound:
  assumes "store_flag name v opts = Some opts'"
  shows "AddFlags (Some opts') = map (\<lambda>(n, d). (n, if n = name then v else d)) (AddFlags (Some opts))"
  using assms by (cases v) (auto simp: store_flag_def AddFlags_def split: if_splits)

section \<open>The registry\<close>

text \<open>Who starts a controller: the framework's own, or one of this program.\<close>

datatype start_func = FrameworkStart string | NodeIpamStart | CsrApprovalStart

record ControllerInitFuncConstructor =
  ClientName :: string
  Constructor :: start_func

record registry =
  controllerInitializers :: "string \<rightharpoonup> ControllerInitFuncConstructor"
  controllerAliases :: "string \<rightharpoonup> string"
  ControllersDisabledByDefault :: "string set"

definition serviceAccountName :: "string \<Rightarrow> string" where
  "serviceAccountName account = (if account = '''' then ''talos-cloud-controller-manager'' else account)"

text \<open>\<open>reg\<close> is the registry of the framework, \<open>account\<close> the value of the environment variable of the service account.\<close>

definition register_controllers :: "string \<Rightarrow> registry \<Rightarrow> registry" where
  "register_controllers account reg =
     reg\<lparr>controllerInitializers := (controllerInitializers reg)
           (NodeIpamController \<mapsto> \<lparr>ClientName = ''node-controller'', Constructor = NodeIpamStart\<rparr>,
            CertificateSigningRequestApprovingController \<mapsto> \<lparr>ClientName = serviceAccountName account, Constructor = CsrApprovalStart\<rparr>),
         ControllersDisabledByDefault := insert CertificateSigningRequestApprovingController
           (insert NodeIpamController (insert NodeLifecycleController (ControllersDisabledByDefault reg))),
         controllerAliases := (controllerAliases reg)
           (''nodeipam'' \<mapsto> NodeIpamController, ''node-csr-approval'' \<mapsto> CertificateSigningRequestApprovingController)\<rparr>"

text \<open>The value of the flag of the provider's name is set in every case; a failure ends the process.\<close>

fun set_provider_flag :: "(string \<Rightarrow> string \<Rightarrow> go_err option) \<Rightarrow> (string \<times> string) list \<Rightarrow> (string \<times> string) list option" where
  "set_provider_flag set_value [] = Some []"
| "set_provider_flag set_value ((name, value) # flags) =
     (if name = ''cloud-provider'' then
        (case set_value value ProviderName of
           Some e \<Rightarrow> None
         | None \<Rightarrow> map_option (Cons (name, ProviderName)) (set_provider_flag set_value flags))
      else map_option (Cons (name, value)) (set_provider_flag set_value flags))"

text \<open>
  \<^verbatim>\<open>main\<close>, as the exit code of the process: \<open>new_options\<close> is the error of the framework's options, \<open>command_flags\<close> are the flags of the command that
  the framework makes of the registry and the flags of the IPAM options, \<open>cli_run\<close> is the exit code of the command.
\<close>

definition main_program :: "go_err option \<Rightarrow> registry \<Rightarrow> string \<Rightarrow>
    (registry \<Rightarrow> (string \<times> flag_value) list \<Rightarrow> (string \<times> string) list) \<Rightarrow> (string \<Rightarrow> string \<Rightarrow> go_err option) \<Rightarrow>
    (registry \<Rightarrow> (string \<times> string) list \<Rightarrow> int) \<Rightarrow> int" where
  "main_program new_options reg account command_flags set_value cli_run =
     (case new_options of
        Some e \<Rightarrow> 1
      | None \<Rightarrow>
          let fss = AddFlags (Some \<lparr>cfg_ServiceCIDR = '''', cfg_SecondaryServiceCIDR = '''', cfg_NodeCIDRMaskSize = 0,
                cfg_NodeCIDRMaskSizeIPv4 = 0, cfg_NodeCIDRMaskSizeIPv6 = 0\<rparr>);
              reg' = register_controllers account reg in
          case set_provider_flag set_value (command_flags reg' fss) of
            None \<Rightarrow> 1
          | Some flags \<Rightarrow> cli_run reg' flags)"

text \<open>A name on the command line, an alias or the name itself, and the controller that it starts.\<close>

definition resolve :: "registry \<Rightarrow> string \<Rightarrow> ControllerInitFuncConstructor option" where
  "resolve reg name = controllerInitializers reg (case controllerAliases reg name of None \<Rightarrow> name | Some n \<Rightarrow> n)"

lemma registered_controllers:
  "resolve (register_controllers account reg) ''nodeipam'' = Some \<lparr>ClientName = ''node-controller'', Constructor = NodeIpamStart\<rparr>"
  "resolve (register_controllers account reg) ''node-csr-approval'' =
     Some \<lparr>ClientName = serviceAccountName account, Constructor = CsrApprovalStart\<rparr>"
  "n \<notin> {NodeIpamController, CertificateSigningRequestApprovingController} \<Longrightarrow>
     controllerInitializers (register_controllers account reg) n = controllerInitializers reg n"
  by (simp_all add: resolve_def register_controllers_def)

lemma provider_flag_set:
  assumes "set_provider_flag set_value flags = Some flags'"
  shows "map fst flags' = map fst flags \<and> (\<forall>(n, v) \<in> set flags'. n = ''cloud-provider'' \<longrightarrow> v = ProviderName)"
  using assms
  by (induction set_value flags arbitrary: flags' rule: set_provider_flag.induct) (auto split: if_splits option.splits)

section \<open>The provider\<close>

definition cloud_ProviderName :: "'c Cloud \<Rightarrow> string" where
  "cloud_ProviderName c = ProviderName"

definition HasClusterID :: "'c Cloud \<Rightarrow> bool" where
  "HasClusterID c = True"

text \<open>The goroutine of \<^verbatim>\<open>Initialize\<close>: at the stop signal the context of the provider is cancelled.\<close>

definition on_stop :: "'c Cloud \<Rightarrow> 'c Cloud" where
  "on_stop c = c\<lparr>cloud_running := False\<rparr>"

text \<open>\<open>init\<close> is the answer of \<^verbatim>\<open>InitCloudProvider\<close>, whose provider may be nil.\<close>

definition cloudInitializer :: "go_err + 'c Cloud option \<Rightarrow> bool \<Rightarrow> 'c Cloud option" where
  "cloudInitializer init allowUntaggedCloud =
     (case init of
        Inl e \<Rightarrow> None
      | Inr None \<Rightarrow> None
      | Inr (Some cloud) \<Rightarrow>
          if \<not> HasClusterID cloud then (if allowUntaggedCloud then Some cloud else None) else Some cloud)"

text \<open>The check for a cluster ID never ends the process, whatever the flag says.\<close>

lemma cloudInitializer_accepts: "cloudInitializer (Inr (Some c)) allow = Some c"
  by (simp add: cloudInitializer_def HasClusterID_def)

section \<open>Starting and running the controllers\<close>

text \<open>The start of the approving controller: it always counts as enabled, and its loop runs in a goroutine of its own.\<close>

definition startNodeCSRApprovalController :: "x509_env \<Rightarrow> (string \<Rightarrow> (go_err, Node) outcome) \<Rightarrow> (nat \<Rightarrow> bool) \<Rightarrow> (nat \<Rightarrow> csr_signal) \<Rightarrow>
    (bool \<times> go_err option) \<times> ((go_err, unit) outcome \<times> CSR list) option" where
  "startNodeCSRApprovalController x getNode watch sig = ((True, None), csr_Run x (CSRNodeChecks getNode) watch sig)"

definition cidrUpdateWorkers :: nat where
  "cidrUpdateWorkers = 30"

datatype run_event =
    StartLogging | StartRecording | GoWorker nat | GoAllocator | AwaitDone | QueueShutDown | BroadcasterShutdown | HandleCrash
  | ControllerStarted string | ControllerStopped string

text \<open>
  \<^verbatim>\<open>Run\<close> of the range allocator and of the cloud allocator: \<open>synced\<close> is the answer of \<^verbatim>\<open>WaitForNamedCacheSync\<close>. The deferred calls run last, in reverse order.
\<close>

definition range_Run :: "bool \<Rightarrow> run_event list" where
  "range_Run synced =
     [StartLogging, StartRecording] @
     (if synced then map GoWorker [0..<cidrUpdateWorkers] @ [AwaitDone] else []) @
     [QueueShutDown, BroadcasterShutdown, HandleCrash]"

definition cloud_Run :: "bool \<Rightarrow> run_event list" where
  "cloud_Run synced =
     [StartLogging, StartRecording] @
     (if synced then map GoWorker [0..<cidrUpdateWorkers] @ [AwaitDone] else []) @
     [QueueShutDown, BroadcasterShutdown, HandleCrash]"

definition ipam_Run :: "bool \<Rightarrow> run_event list" where
  "ipam_Run synced =
     [StartLogging, StartRecording] @ (if synced then [GoAllocator, AwaitDone] else []) @ [BroadcasterShutdown, HandleCrash]"

definition RunWithMetrics :: "bool \<Rightarrow> run_event list" where
  "RunWithMetrics synced = [ControllerStarted ''nodeipam''] @ ipam_Run synced @ [ControllerStopped ''nodeipam'']"

text \<open>
  The queue is shut down on every path, after the workers were started and the context was cancelled; so each worker meets
  the shutdown, and by \<open>workers_stop\<close> of theory \<open>Workers\<close> it returns.
\<close>

lemma queue_shut_down_last:
  assumes "run \<in> {range_Run, cloud_Run}"
  shows "\<exists>before. run synced = before @ [QueueShutDown, BroadcasterShutdown, HandleCrash] \<and> QueueShutDown \<notin> set before \<and>
     filter (\<lambda>e. \<exists>i. e = GoWorker i) before = map GoWorker [0..<if synced then cidrUpdateWorkers else 0]"
  using assms
  by (intro exI [of _ "[StartLogging, StartRecording] @ (if synced then map GoWorker [0..<cidrUpdateWorkers] @ [AwaitDone] else [])"])
    (auto simp: range_Run_def cloud_Run_def filter_map comp_def)

end
