(* ===== verification/Spec2Isabelle.thy ===== *)
theory Spec2Isabelle
  imports RangeRaces RangeRestart CloudRestart Workers NodeIpamProps TalosClient TemplateFuncs CsrRun Metrics Program
begin

text \<open>
  A verification of the Talos cloud controller manager. The program runs beside the Kubernetes API server and has
  three jobs, each modelled here from its Go source under \<^verbatim>\<open>src/\<close>.

  \<^item> It gives nodes their pod CIDRs (\<^verbatim>\<open>pkg/nodeipam\<close>, started by \<^verbatim>\<open>cmd/talos-cloud-controller-manager/nodeipamcontroller.go\<close>): a
    range allocator that divides the cluster CIDRs, and a cloud allocator that also divides the public
    IPv6 networks that Talos finds on the nodes. Both keep \<^verbatim>\<open>CidrSet\<close> bitmaps and are driven by informer events through
    a work queue.
  \<^item> It describes nodes to Kubernetes (\<^verbatim>\<open>pkg/talos\<close>): \<^verbatim>\<open>InstanceMetadata\<close> asks Talos for the platform metadata, applies the
    transformation rules of \<^verbatim>\<open>pkg/transformer\<close> to it and writes labels, annotations and taints to the node.
  \<^item> It approves the certificate signing requests of kubelets (\<^verbatim>\<open>pkg/certificatesigningrequest\<close>).

  \<^bold>\<open>How code is modelled.\<close> A Go call has an \<open>outcome\<close> (theory \<open>Prelude\<close>): a value (\<open>Ret\<close>), an error value (\<open>Err\<close>) or a run-time panic
  (\<open>Panic\<close>); a method of a stateful object is an \<open>act\<close> (\<open>K8sApi\<close>), a function from the state to an outcome and the state after
  it, so what an operation did before it failed stays visible. Machine integers are words where they can wrap (\<^verbatim>\<open>int32\<close>,
  \<^verbatim>\<open>uint32\<close> and \<^verbatim>\<open>uint64\<close> of the address arithmetic, shift counts) and integers otherwise. The \<^verbatim>\<open>big.Int\<close> bitmap is a
  natural number. A loop is a recursive function over what it visits. A goroutine of the range allocator is a \<open>thread\<close> (\<open>Threads\<close>), its operations cut into the steps that are atomic in the code. Errors keep whether they were wrapped with \<^verbatim>\<open>%w\<close> or \<^verbatim>\<open>%v\<close>, since
  \<^verbatim>\<open>IsServerTimeout\<close> depends on it. Log lines are left out.

  \<^bold>\<open>Theories and the code they model.\<close>

  \<^item> \<open>Prelude\<close>, \<open>GoStrings\<close>, \<open>GoNet\<close>, \<open>GoNetText\<close>: the parts of Go's standard library the program uses (\<^verbatim>\<open>strings\<close>, \<^verbatim>\<open>strconv\<close>, \<^verbatim>\<open>net\<close>, \<^verbatim>\<open>net/netip\<close>), with the
    round trips of addresses and networks through their text. \<open>PrefixSpec\<close>: networks as sets of addresses, the reference for the arithmetic.
  \<^item> \<open>CidrSet\<close> (definitions), \<open>CidrGeometry\<close> (the arithmetic against \<open>PrefixSpec\<close>), \<open>CidrPool\<close> (the contract of a pool, a locale), \<open>CidrSetAlloc\<close> (the
    invariant and the interpretation of the contract), \<open>CidrSetProps\<close> (properties): \<^verbatim>\<open>ipam/cidrset/cidr_set.go\<close> and its metrics.
  \<^item> \<open>K8sApi\<close>: nodes, errors, the pod CIDR patch and events, \<^verbatim>\<open>utils/node/node.go\<close> and \<^verbatim>\<open>utils/controller/node\<close>.
  \<^item> \<open>RangeAllocator\<close>, \<open>RangeAllocatorLemmas\<close>, \<open>RangeSafety\<close>, \<open>RangeProps\<close>: \<^verbatim>\<open>ipam/range_allocator.go\<close>; the allocator with the cluster it serves is a step
    relation whose steps are new nodes, syncs against an arbitrary API server, and deletions. \<open>RangeRestart\<close>: what a new process finds in a running cluster.
  \<^item> \<open>Threads\<close>, \<open>RangeThreads\<close>, \<open>RangeDiscipline\<close>, \<open>RangeConcurrent\<close>, \<open>RangeRaces\<close>: the same operations as goroutines. They may interleave at every call of a method of a
    \<^verbatim>\<open>CidrSet\<close>, which holds the lock of the set, and at every request to the API server. \<open>RangeDiscipline\<close> shows of each goroutine alone that it only frees blocks it took or was handed, and
    \<open>RangeConcurrent\<close> concludes that in every interleaving a block has at most one claimant. \<open>RangeRaces\<close> has the histories that its hypotheses exclude.
  \<^item> \<open>CloudAllocator\<close>, \<open>CloudSets\<close>, \<open>CloudLemmas\<close>, \<open>CloudProps\<close>, \<open>CloudSafety\<close>, \<open>CloudRestart\<close>: \<^verbatim>\<open>ipam/cloud_allocator.go\<close>. Go iterates over a map in an arbitrary order that may differ from
    loop to loop: the order of each loop is a parameter, and the properties hold for all of them. The locales \<open>up_invariant\<close>, \<open>release_invariant\<close>,
    \<open>grow_invariant\<close> and \<open>run_invariant\<close> prove once what each operation keeps, for any predicate that the methods of one set keep. \<open>CloudSafety\<close> has the allocator with its cluster as a step relation.
  \<^item> \<open>Workers\<close>: the handlers of informer events, the workers of both allocators and \<^verbatim>\<open>controller_utils.go\<close>.
  \<^item> \<open>NodeIpam\<close>, \<open>NodeIpamProps\<close>: \<^verbatim>\<open>cmd/.../options\<close>, \<^verbatim>\<open>nodeipamcontroller.go\<close>, \<^verbatim>\<open>nodeipam/node_ipam_controller.go\<close> and \<^verbatim>\<open>ipam/cidr_allocator.go\<close>.
  \<^item> \<open>NodeNetwork\<close>: the choice and discovery of addresses, \<^verbatim>\<open>utils/net\<close>, \<^verbatim>\<open>talosclient/client.go\<close> from \<^verbatim>\<open>NodeIPDiscovery\<close> on, \<^verbatim>\<open>talos/helper.go\<close>, \<^verbatim>\<open>GetNodeIPs\<close>.
  \<^item> \<open>NodeSelector\<close>, \<open>TemplateFuncs\<close>, \<open>Transformer\<close>, \<open>Instances\<close>: \<^verbatim>\<open>nodeselector\<close>, \<^verbatim>\<open>transformer\<close>, \<^verbatim>\<open>talos/instances.go\<close>, \<^verbatim>\<open>talos/helper.go\<close>, \<^verbatim>\<open>talos/cloud_config.go\<close>.
  \<^item> \<open>TalosClient\<close>: the connection to Talos with its retries, \<^verbatim>\<open>talosclient/client.go\<close> up to \<^verbatim>\<open>GetClusterName\<close>, and the provider, \<^verbatim>\<open>talos/cloud.go\<close>.
  \<^item> \<open>CsrApproval\<close>, \<open>CsrRun\<close>: \<^verbatim>\<open>certificatesigningrequest\<close>, the decision on a request and the watch loop, and \<^verbatim>\<open>CSRNodeChecks\<close>; what the reconciler relies on of a provider's check is a locale.
  \<^item> \<open>Metrics\<close>: \<^verbatim>\<open>metrics\<close>, its collectors and the calls on them, with the reconciler and \<^verbatim>\<open>InstanceMetadata\<close> that make them.
  \<^item> \<open>Program\<close>: \<^verbatim>\<open>main.go\<close>, \<^verbatim>\<open>nodecsrapprovalcontroller.go\<close>, \<^verbatim>\<open>names\<close>, the flags, \<^verbatim>\<open>Run\<close> of the IPAM controller and of both allocators, and the stop signal of the provider.

  \<^bold>\<open>What is shown.\<close>

  \<^item> Pools: the blocks of a set partition its cluster CIDR; \<^verbatim>\<open>AllocateNext\<close> refines the search for the first free block;
    \<^verbatim>\<open>Occupy\<close> and \<^verbatim>\<open>Release\<close> change exactly the blocks that share an address with their argument; counters, metrics and bitmap agree in every reachable set.
  \<^item> Range allocator: however its goroutines interleave, with stale listers, refused patches, crashes and restarts, the pod CIDRs of two nodes share no address and avoid the service
    CIDRs. An assignment with room and an accepting API server succeeds, a failed one returns its blocks, and a
    restart marks exactly the blocks of the services and of the nodes, so lost blocks are recovered. Two hypotheses are needed, and without them addresses do overlap: the lister does not report nodes that are being
    deleted (\<open>double_release_overlaps\<close>), and a patch that is answered with an error was not applied (\<open>lost_answer_overlaps\<close>).
  \<^item> Cloud allocator: in every run the map and its sets are consistent; blocks come from the network of the node and
    were free; the exact sizes of the pod subnets. As long as the networks of the map do not overlap, the pod CIDRs of a node avoid its own addresses, and in a cluster that the allocator serves
    from the start and without a restart no two nodes have overlapping pod CIDRs. The discovery can put overlapping networks into the map (\<open>discovered_networks_may_overlap\<close>), and after a restart nodes can
    overlap (\<open>cloud_restart_overlaps\<close>). These properties rest on \<open>talos_ok\<close> (\<open>CloudSets\<close>): the public IPv6 prefixes that Talos reports for links that are not skipped lie outside
    \<^verbatim>\<open>::/64\<close>; nothing is asked of the loopback, link-local, private and IPv4 entries.
  \<^item> Start: which flags are accepted, the documented ones and one combination more, and what sizes they give; what a running range allocator was built from, and the exact conditions that the start leaves
    unchecked under which the hypotheses of the properties above hold, which ties the command line to them; the configurations on which the start panics.
  \<^item> Workers return at the shutdown of their queue after serving each item once, and mark every item as done.
  \<^item> Nodes: the selector decides its documented meaning; labels and taints are those of the selected rules; the platform
    survives every rule, and so does the hostname unless a rule spells it with the long s U+017F (\<open>hostname_overwritten\<close>); taints are only added to uninitialised nodes, and never one of
    the eight that the code lists; which addresses a node gets, one of each kind and family; synchronising is idempotent.
  \<^item> Certificates: only requests of a registered node in its own name and for its own addresses are approved, proper ones are, and each is decided at most once;
    the watch loop sends exactly the decisions on its events and returns when it is cancelled, unless watches cannot be opened; the counter counts exactly the decisions, and not the
    ignored requests that its help text promises.
  \<^item> Talos client: calls one after another never leak a connection, and overlapping ones can (\<open>concurrent_refresh_leaks\<close>); an answer comes from the current connection; a failed read is not repeated once the connection works again.
  \<^item> Program: the aliases start the two controllers of this program, every path through \<^verbatim>\<open>Run\<close> shuts the queue down after it started the workers, and each error of \<^verbatim>\<open>InstanceMetadata\<close> is counted once.

  Lemmas also record where the code departs from its comments or its intent (among them \<open>exhausted_second_set_leaks\<close>, \<open>metadata_latency_accumulates\<close>, \<open>tombstone_crashes\<close>, \<open>TransformNode_ignores_features\<close>,
  \<open>max_pods_unchecked\<close>, \<open>nil_pod_cidr_patched\<close>, \<open>discovered_networks_may_overlap\<close>, \<open>service_flag_ignored\<close>, \<open>oversized_mask\<close>,
  \<open>unschedulable_taint_accepted\<close>).

  \<^bold>\<open>Bounds and termination.\<close> There is no fuel that could run out: the search of \<^verbatim>\<open>AllocateNext\<close> makes at most \<^verbatim>\<open>maxCIDRs\<close> probes, as its loop does, the patch is
  sent at most \<^verbatim>\<open>cidrUpdateRetries\<close> times, and the polls of the node list are as many as fit into the grace period, a parameter. A worker and the watch loop can run forever; their loops are
  partial functions into \<open>option\<close>, and that they return is a theorem.

  \<^bold>\<open>Parameters.\<close> Code outside \<^verbatim>\<open>src/\<close> is an argument: the node lister and the answers of the API server, the answers of Talos and the retries of
  \<^verbatim>\<open>go-retry\<close>, the parsers and family tests of
  \<^verbatim>\<open>k8s.io/utils/net\<close>, the regular expression engine, \<^verbatim>\<open>html/template\<close>, \<^verbatim>\<open>x509\<close>, the validators of \<^verbatim>\<open>apimachinery\<close> and \<^verbatim>\<open>FilterIPs\<close>. What a property needs of them is a
  hypothesis, and its witness instantiates it.

  \<^bold>\<open>Not modelled.\<close> Overlapping reads of the Talos client, which has no lock: its calls are made one after another, and only \<^verbatim>\<open>refreshTalosClient\<close> is also modelled in the steps between
  which goroutines interleave. The clients that the cloud allocator makes for each node and never closes. The interleaving of the cloud allocator's workers, whose items are served one after another: the map of sets is read without the lock that guards its
  writes, and a concurrent map read and write is not defined by Go's memory model. The collectors of Prometheus, the cloud-provider framework that parses flags, elects
  a leader and calls the controllers, the event broadcaster and log lines are code outside \<^verbatim>\<open>src/\<close> or output; the model has the calls on them where they are more than logging. Strings are bytes; \<^verbatim>\<open>ToLower\<close> and \<^verbatim>\<open>ToUpper\<close> are those of ASCII,
  which is what the code applies them to, and \<^verbatim>\<open>EqualFold\<close> is that of Unicode for the ASCII names of fields it is applied to. The base64 encoding of the template functions is a model of Go's
  standard library.
\<close>

end
